(* ===== verification/Prelude.thy ===== *)
theory Prelude
  imports
    Complex_Main
    "HOL-Library.Word"
    "HOL-Library.AList"
    "HOL-Library.Monad_Syntax"
    "HOL-Library.Multiset"
begin

text \<open>
  What every component shares: the machine types of the Rust sources, the part of the
  standard library's \<open>str\<close> that they use, and the generic lemmas about lists, options and
  association lists.

  Conventions of the whole development:
  \<^item> a Rust \<open>str\<close>/\<open>String\<close> is the list of its UTF-8 bytes, a HOL \<^typ>\<open>string\<close> (a HOL
    \<^typ>\<open>char\<close> is one byte), so \<^const>\<open>length\<close> is the byte length that Rust's \<open>len()\<close> returns and
    offsets are byte offsets; a Rust \<open>char\<close> is its Unicode scalar value, a \<^typ>\<open>nat\<close>;
  \<^item> a \<open>[u8]\<close> buffer is a list of 8-bit words, \<open>as_bytes\<close> goes from the one to the other;
  \<^item> \<open>Result<A, E>\<close> is \<open>'e + 'a\<close> with \<^const>\<open>Inl\<close> for \<open>Err\<close>;
  \<^item> a computation that may panic returns an \<^typ>\<open>'a option\<close> whose \<^const>\<open>None\<close> is the panic;
    the type is then called \<open>run\<close> so that it reads differently from Rust's own \<open>Option\<close>.
\<close>

section \<open>Machine types, panics and results\<close>

type_synonym u8 = "8 word"
type_synonym u16 = "16 word"
type_synonym u32 = "32 word"
type_synonym u64 = "64 word"
type_synonym rchar = nat
type_synonym 'a run = "'a option"

text \<open>Instants and durations count nanoseconds; subtraction saturates as \<open>saturating_duration_since\<close> does.\<close>

type_synonym instant = nat
type_synonym duration = nat

definition from_millis :: "nat \<Rightarrow> duration" where
  "from_millis ms = ms * 1000000"

abbreviation (input) panic :: "'a run" where
  "panic \<equiv> None"

text \<open>\<open>Result::map_err(f)?\<close> and \<open>Option::ok_or(e)?\<close>: sequencing of fallible steps.\<close>

definition bind_result :: "'e + 'a \<Rightarrow> ('a \<Rightarrow> 'e + 'b) \<Rightarrow> 'e + 'b" where
  "bind_result r f = (case r of Inl e \<Rightarrow> Inl e | Inr x \<Rightarrow> f x)"

definition map_err :: "('e \<Rightarrow> 'f) \<Rightarrow> 'e + 'a \<Rightarrow> 'f + 'a" where
  "map_err f r = (case r of Inl e \<Rightarrow> Inl (f e) | Inr x \<Rightarrow> Inr x)"

definition ok_or :: "'a option \<Rightarrow> 'e \<Rightarrow> 'e + 'a" where
  "ok_or r e = (case r of None \<Rightarrow> Inl e | Some x \<Rightarrow> Inr x)"

fun collect_results :: "('e + 'a) list \<Rightarrow> 'e + 'a list" where
  "collect_results [] = Inr []"
| "collect_results (r # rs) =
     (case r of Inl e \<Rightarrow> Inl e | Inr x \<Rightarrow> map_sum id (\<lambda>xs. x # xs) (collect_results rs))"

definition mapo :: "('a \<Rightarrow> 'b option) \<Rightarrow> 'a list \<Rightarrow> 'b list option" where
  "mapo f xs = those (map f xs)"

definition checked_pow_u64 :: "nat \<Rightarrow> nat \<Rightarrow> nat option" where
  "checked_pow_u64 b e = (if b ^ e < 2 ^ 64 then Some (b ^ e) else None)"

section \<open>Bytes and the strings of the standard library\<close>

definition as_bytes :: "string \<Rightarrow> u8 list" where
  "as_bytes s = map of_char s"

definition bytes_to_str :: "u8 list \<Rightarrow> string" where
  "bytes_to_str bs = map (\<lambda>b. char_of (unat b)) bs"

abbreviation byte_val :: "char \<Rightarrow> nat" where
  "byte_val c \<equiv> of_char c"

definition is_ascii :: "string \<Rightarrow> bool" where
  "is_ascii s \<longleftrightarrow> list_all (\<lambda>c. byte_val c < 128) s"

definition is_continuation :: "char \<Rightarrow> bool" where
  "is_continuation c \<longleftrightarrow> 128 \<le> byte_val c \<and> byte_val c < 192"

text \<open>\<open>str::is_char_boundary\<close>: the ends, or a byte that does not continue a character.\<close>

definition is_char_boundary :: "string \<Rightarrow> nat \<Rightarrow> bool" where
  "is_char_boundary s i \<longleftrightarrow>
     i = 0 \<or> i = length s \<or> (i < length s \<and> \<not> is_continuation (s ! i))"

text \<open>\<open>&s[a..b]\<close> panics out of range and inside a multi-byte character.\<close>

definition str_slice :: "string \<Rightarrow> nat \<Rightarrow> nat \<Rightarrow> string run" where
  "str_slice s a b =
     (if a \<le> b \<and> b \<le> length s \<and> is_char_boundary s a \<and> is_char_boundary s b
      then Some (take (b - a) (drop a s)) else panic)"

abbreviation str_slice_from :: "string \<Rightarrow> nat \<Rightarrow> string run" where
  "str_slice_from s a \<equiv> str_slice s a (length s)"

text \<open>The characters of a string: the byte groups, and their scalar values.\<close>

definition utf8_tail_len :: "char \<Rightarrow> nat" where
  "utf8_tail_len b =
     (if byte_val b < 192 then 0 else if byte_val b < 224 then 1
      else if byte_val b < 240 then 2 else 3)"

fun split_chars :: "string \<Rightarrow> string list" where
  "split_chars [] = []"
| "split_chars (b # bs) =
     (b # take (utf8_tail_len b) bs) # split_chars (drop (utf8_tail_len b) bs)"

definition utf8_scalar :: "string \<Rightarrow> rchar" where
  "utf8_scalar g =
     (case g of
        [] \<Rightarrow> 0
      | b # bs \<Rightarrow>
          foldl (\<lambda>v c. 64 * v + byte_val c mod 64)
            (if byte_val b < 192 then byte_val b
             else if byte_val b < 224 then byte_val b mod 32
             else if byte_val b < 240 then byte_val b mod 16
             else byte_val b mod 8) bs)"

definition str_chars :: "string \<Rightarrow> rchar list" where
  "str_chars s = map utf8_scalar (split_chars s)"

definition utf8_encode :: "rchar \<Rightarrow> string" where
  "utf8_encode c =
     (if c < 128 then [char_of c]
      else if c < 2048 then [char_of (192 + c div 64), char_of (128 + c mod 64)]
      else if c < 65536 then
        [char_of (224 + c div 4096), char_of (128 + c div 64 mod 64), char_of (128 + c mod 64)]
      else
        [char_of (240 + c div 262144), char_of (128 + c div 4096 mod 64),
         char_of (128 + c div 64 mod 64), char_of (128 + c mod 64)])"

definition string_of_chars :: "rchar list \<Rightarrow> string" where
  "string_of_chars cs = concat (map utf8_encode cs)"

text \<open>
  What every \<open>str\<close> value satisfies: it is the encoding of a sequence of scalar values, which
  are the code points up to \<open>10FFFF\<close> without the surrogates.
\<close>

definition is_scalar :: "rchar \<Rightarrow> bool" where
  "is_scalar c \<longleftrightarrow> c < 55296 \<or> (57344 \<le> c \<and> c < 1114112)"

definition is_utf8 :: "string \<Rightarrow> bool" where
  "is_utf8 s \<longleftrightarrow> list_all is_scalar (str_chars s) \<and> string_of_chars (str_chars s) = s"

text \<open>\<open>char::is_whitespace\<close>: the Unicode \<open>White_Space\<close> property.\<close>

definition is_whitespace :: "rchar \<Rightarrow> bool" where
  "is_whitespace c \<longleftrightarrow>
     (9 \<le> c \<and> c \<le> 13) \<or> c = 32 \<or> c = 133 \<or> c = 160 \<or> c = 5760 \<or> (8192 \<le> c \<and> c \<le> 8202)
     \<or> c = 8232 \<or> c = 8233 \<or> c = 8239 \<or> c = 8287 \<or> c = 12288"

definition is_ascii_digit :: "rchar \<Rightarrow> bool" where
  "is_ascii_digit c \<longleftrightarrow> 48 \<le> c \<and> c \<le> 57"

definition starts_with :: "string \<Rightarrow> string \<Rightarrow> bool" where
  "starts_with s p \<longleftrightarrow> take (length p) s = p"

definition ends_with :: "string \<Rightarrow> string \<Rightarrow> bool" where
  "ends_with s p \<longleftrightarrow> length p \<le> length s \<and> drop (length s - length p) s = p"

definition strip_prefix :: "string \<Rightarrow> string \<Rightarrow> string option" where
  "strip_prefix s p = (if starts_with s p then Some (drop (length p) s) else None)"

text \<open>\<open>str::find(&str)\<close>: the byte offset of the first occurrence.\<close>

fun str_find :: "string \<Rightarrow> string \<Rightarrow> nat option" where
  "str_find [] p = (if p = [] then Some 0 else None)"
| "str_find (c # s) p =
     (if starts_with (c # s) p then Some 0 else map_option Suc (str_find s p))"

definition str_contains :: "string \<Rightarrow> string \<Rightarrow> bool" where
  "str_contains s p \<longleftrightarrow> str_find s p \<noteq> None"

text \<open>
  \<open>str::matches(p).count()\<close> and \<open>str::replace(p, r)\<close>: non-overlapping occurrences from the left;
  the empty pattern matches at every character boundary.
\<close>

function str_split_on :: "string \<Rightarrow> string \<Rightarrow> string list" where
  "str_split_on p s =
     (if p = [] then [] # split_chars s @ [[]]
      else case str_find s p of
        None \<Rightarrow> [s]
      | Some i \<Rightarrow> take i s # str_split_on p (drop (i + length p) s))"
  by pat_completeness auto

fun join_with :: "string \<Rightarrow> string list \<Rightarrow> string" where
  "join_with r [] = []"
| "join_with r [x] = x"
| "join_with r (x # y # xs) = x @ r @ join_with r (y # xs)"

text \<open>Decimal rendering of \<open>{}\<close> for unsigned integers.\<close>

fun show_nat :: "nat \<Rightarrow> string" where
  "show_nat n =
     (if n < 10 then [char_of (48 + n)] else show_nat (n div 10) @ [char_of (48 + n mod 10)])"

declare show_nat.simps [simp del]

section \<open>Lemma collections\<close>

named_theorems str_simps \<open>rewriting of string operations on ASCII text\<close>
named_theorems result_simps \<open>unfolding of result and panic sequencing\<close>

lemmas result_defs [result_simps] = bind_result_def map_err_def ok_or_def

lemma str_find_Some:
  "str_find s p = Some i \<Longrightarrow>
     i + length p \<le> length s \<and> take (length p) (drop i s) = p"
proof (induction s arbitrary: i)
  case Nil
  then show ?case by (simp split: if_splits)
next
  case (Cons c s)
  show ?case
  proof (cases "starts_with (c # s) p")
    case True
    have "length (take (length p) (c # s)) \<le> length (c # s)" by simp
    with True Cons.prems show ?thesis by (auto simp: starts_with_def)
  next
    case False
    with Cons.prems obtain j where "i = Suc j" "str_find s p = Some j" by auto
    with Cons.IH show ?thesis by auto
  qed
qed

termination str_split_on
proof (relation "measure (\<lambda>(p, s). length s)", simp)
  fix p s :: string and i :: nat
  assume "p \<noteq> []" and "str_find s p = Some i"
  then show "((p, drop (i + length p) s), p, s) \<in> measure (\<lambda>(p, s). length s)"
    using str_find_Some [of s p i] by (cases p) auto
qed

declare str_split_on.simps [simp del]

definition str_matches_count :: "string \<Rightarrow> string \<Rightarrow> nat" where
  "str_matches_count s p = length (str_split_on p s) - 1"

definition str_replace :: "string \<Rightarrow> string \<Rightarrow> string \<Rightarrow> string" where
  "str_replace s p r = join_with r (str_split_on p s)"

section \<open>Strings: slices, characters, ASCII text\<close>

lemma str_slice_SomeD:
  "str_slice s a b = Some t \<Longrightarrow> t = take (b - a) (drop a s) \<and> a \<le> b \<and> b \<le> length s"
  by (simp add: str_slice_def split: if_splits)

lemma str_slice_concat:
  assumes "str_slice s a b = Some t" "str_slice s b c = Some u"
  shows "str_slice s a c = Some (t @ u)"
proof -
  have "take (c - a) (drop a s) = take (b - a) (drop a s) @ take (c - b) (drop b s)"
    if "a \<le> b" "b \<le> c"
  proof -
    have "take ((b - a) + (c - b)) (drop a s) =
        take (b - a) (drop a s) @ take (c - b) (drop (b - a) (drop a s))"
      by (rule take_add)
    with that show ?thesis by simp
  qed
  with assms show ?thesis by (auto simp: str_slice_def split: if_splits)
qed

lemma str_slice_whole [simp]: "str_slice s 0 (length s) = Some s"
  by (simp add: str_slice_def is_char_boundary_def)

lemma concat_split_chars [simp]: "concat (split_chars s) = s"
  by (induction s rule: split_chars.induct) auto

lemma is_ascii_Nil [simp]: "is_ascii []"
  by (simp add: is_ascii_def)

lemma is_ascii_Cons [simp]: "is_ascii (c # s) \<longleftrightarrow> byte_val c < 128 \<and> is_ascii s"
  by (simp add: is_ascii_def)

lemma is_ascii_append [simp]: "is_ascii (s @ t) \<longleftrightarrow> is_ascii s \<and> is_ascii t"
  by (auto simp: is_ascii_def)

lemma is_ascii_take: "is_ascii s \<Longrightarrow> is_ascii (take n s)"
  by (metis append_take_drop_id is_ascii_append)

lemma is_ascii_drop: "is_ascii s \<Longrightarrow> is_ascii (drop n s)"
  by (metis append_take_drop_id is_ascii_append)

lemma is_ascii_nth: "is_ascii s \<Longrightarrow> i < length s \<Longrightarrow> byte_val (s ! i) < 128"
  by (simp add: is_ascii_def list_all_length)

lemma ascii_char_boundary [str_simps]:
  assumes "is_ascii s"
  shows "is_char_boundary s i \<longleftrightarrow> i \<le> length s"
proof (cases "i < length s")
  case True
  with assms have "byte_val (s ! i) < 128" by (rule is_ascii_nth)
  with True show ?thesis by (auto simp: is_char_boundary_def is_continuation_def)
qed (auto simp: is_char_boundary_def)

lemma ascii_slice [str_simps]:
  "is_ascii s \<Longrightarrow> a \<le> b \<Longrightarrow> b \<le> length s \<Longrightarrow> str_slice s a b = Some (take (b - a) (drop a s))"
  by (simp add: str_slice_def ascii_char_boundary)

lemma ascii_split_chars [str_simps]: "is_ascii s \<Longrightarrow> split_chars s = map (\<lambda>c. [c]) s"
  by (induction s) (auto simp: utf8_tail_len_def)

lemma ascii_str_chars [str_simps]:
  assumes "is_ascii s"
  shows "str_chars s = map byte_val s"
proof -
  have "map utf8_scalar (map (\<lambda>c. [c]) s) = map byte_val s"
    using assms by (induction s) (auto simp: utf8_scalar_def)
  with assms show ?thesis by (simp add: str_chars_def ascii_split_chars)
qed

lemma utf8_encode_ascii [simp]: "byte_val c < 128 \<Longrightarrow> utf8_encode (byte_val c) = [c]"
  by (simp add: utf8_encode_def)

lemma ascii_string_of_chars [str_simps]:
  "is_ascii s \<Longrightarrow> string_of_chars (map byte_val s) = s"
  by (induction s) (auto simp: string_of_chars_def)

lemma string_of_chars_small:
  assumes "list_all (\<lambda>c. c < 128) cs"
  shows "string_of_chars cs = map char_of cs" "is_ascii (string_of_chars cs)"
proof -
  show "string_of_chars cs = map char_of cs"
    using assms by (induction cs) (auto simp: string_of_chars_def utf8_encode_def)
  moreover have "is_ascii (map char_of cs)"
    using assms by (induction cs) (auto simp: of_char_of)
  ultimately show "is_ascii (string_of_chars cs)" by simp
qed

lemma length_str_chars_le: "length (str_chars s) \<le> length s"
proof -
  have "length (split_chars s) \<le> length s"
  proof (induction s rule: split_chars.induct)
    case (2 b bs)
    then have "length (split_chars (drop (utf8_tail_len b) bs)) \<le> length bs"
      by (rule order_trans) simp
    then show ?case by simp
  qed simp
  then show ?thesis by (simp add: str_chars_def)
qed

lemma starts_with_append [simp]: "starts_with (p @ s) p"
  by (simp add: starts_with_def)

lemma strip_prefix_append [simp]: "strip_prefix (p @ s) p = Some s"
  by (simp add: strip_prefix_def)

lemma strip_prefix_Some: "strip_prefix s p = Some t \<longleftrightarrow> s = p @ t"
  by (auto simp: strip_prefix_def starts_with_def) (metis append_take_drop_id)

lemma strip_prefix_None: "strip_prefix s p = None \<longleftrightarrow> \<not> starts_with s p"
  by (simp add: strip_prefix_def)

lemma str_find_Nil [simp]: "str_find s [] = Some 0"
  by (cases s) (auto simp: starts_with_def)

lemma str_find_None: "str_find s p = None \<longleftrightarrow> (\<forall>i. take (length p) (drop i s) \<noteq> p)"
proof (induction s)
  case (Cons c s)
  show ?case
  proof
    assume none: "str_find (c # s) p = None"
    show "\<forall>i. take (length p) (drop i (c # s)) \<noteq> p"
    proof
      fix i
      show "take (length p) (drop i (c # s)) \<noteq> p"
        using none Cons by (cases i) (auto simp: starts_with_def split: if_splits)
    qed
  next
    assume all: "\<forall>i. take (length p) (drop i (c # s)) \<noteq> p"
    then have "take (length p) (drop 0 (c # s)) \<noteq> p" by blast
    moreover have "\<forall>i. take (length p) (drop i s) \<noteq> p" using all by (metis drop_Suc_Cons)
    ultimately show "str_find (c # s) p = None"
      using Cons by (simp add: starts_with_def)
  qed
qed auto

lemma str_contains_iff: "str_contains s p \<longleftrightarrow> (\<exists>u v. s = u @ p @ v)"
proof
  assume "str_contains s p"
  then obtain i where "str_find s p = Some i" by (auto simp: str_contains_def)
  then have "s = take i s @ p @ drop (i + length p) s"
    using str_find_Some by (metis append.assoc append_take_drop_id drop_drop add.commute)
  then show "\<exists>u v. s = u @ p @ v" by blast
next
  assume "\<exists>u v. s = u @ p @ v"
  then obtain u v where "s = u @ p @ v" by blast
  then have "take (length p) (drop (length u) s) = p" by simp
  then show "str_contains s p" using str_find_None by (auto simp: str_contains_def)
qed

lemma str_find_before:
  "str_find s p = Some i \<Longrightarrow> j < i \<Longrightarrow> take (length p) (drop j s) \<noteq> p"
proof (induction s arbitrary: i j)
  case (Cons c s)
  show ?case
  proof (cases "starts_with (c # s) p")
    case False
    with Cons.prems obtain k where k: "i = Suc k" "str_find s p = Some k" by auto
    with False Cons show ?thesis by (cases j) (auto simp: starts_with_def)
  qed (use Cons.prems in auto)
qed (auto split: if_splits)

section \<open>UTF-8\<close>

lemma utf8_tail_of_encode:
  assumes "is_scalar c"
  shows "\<exists>b bs. utf8_encode c = b # bs \<and> length bs = utf8_tail_len b"
  using assms
  by (auto simp: utf8_encode_def utf8_tail_len_def is_scalar_def of_char_of div_less_iff_less_mult
      less_eq_div_iff_mult_less_eq)

lemma utf8_scalar_encode [simp]:
  assumes "is_scalar c"
  shows "utf8_scalar (utf8_encode c) = c"
proof -
  have c: "c < 1114112" using assms by (auto simp: is_scalar_def)
  have step: "64 * (n div 64) + n mod 64 = n" for n :: nat by simp
  have d: "c div 262144 = c div 4096 div 64" "c div 4096 = c div 64 div 64"
    by (simp_all add: div_mult2_eq [symmetric])
  have lead: "q < 32 \<Longrightarrow> (192 + q) mod 32 = q" "q < 16 \<Longrightarrow> (224 + q) mod 16 = q"
    "q < 8 \<Longrightarrow> (240 + q) mod 8 = q" for q :: nat
    using mod_mult_self4 [of 32 6 q] mod_mult_self4 [of 16 14 q] mod_mult_self4 [of 8 30 q] by simp_all
  have cont: "(128 + n) mod 64 = n mod 64" for n :: nat
    using mod_mult_self4 [of 64 2 n] by simp
  consider "c < 128" | "128 \<le> c" "c < 2048" | "2048 \<le> c" "c < 65536" | "65536 \<le> c" by linarith
  then show ?thesis
  proof cases
    case 1
    then show ?thesis by (simp add: utf8_encode_def utf8_scalar_def of_char_of)
  next
    case 2
    then have lt: "c div 64 < 32" by (simp add: div_less_iff_less_mult)
    then have "(192 + c div 64) mod 32 = c div 64" by (simp add: lead)
    moreover have "c mod 64 < 64" by simp
    ultimately have "utf8_scalar (utf8_encode c) = 64 * (c div 64) + c mod 64"
      using 2 lt by (simp add: utf8_encode_def utf8_scalar_def of_char_of cont)
    then show ?thesis by (simp only: step)
  next
    case 3
    then have lt: "c div 4096 < 16" by (simp add: div_less_iff_less_mult)
    then have "(224 + c div 4096) mod 16 = c div 4096" by (simp add: lead)
    moreover have "c div 64 mod 64 < 64" "c mod 64 < 64" by simp_all
    ultimately have "utf8_scalar (utf8_encode c) =
        64 * (64 * (c div 4096) + c div 64 mod 64) + c mod 64"
      using 3 lt by (simp add: utf8_encode_def utf8_scalar_def of_char_of cont)
    then show ?thesis by (simp only: d step)
  next
    case 4
    have lt: "c div 262144 < 8" using c by (simp add: div_less_iff_less_mult)
    then have "(240 + c div 262144) mod 8 = c div 262144" by (simp add: lead)
    moreover have "c div 4096 mod 64 < 64" "c div 64 mod 64 < 64" "c mod 64 < 64" by simp_all
    ultimately have "utf8_scalar (utf8_encode c) =
        64 * (64 * (64 * (c div 262144) + c div 4096 mod 64) + c div 64 mod 64) + c mod 64"
      using 4 lt by (simp add: utf8_encode_def utf8_scalar_def of_char_of cont)
    then show ?thesis by (simp only: d step)
  qed
qed

lemma split_chars_encode:
  assumes "is_scalar c"
  shows "split_chars (utf8_encode c @ s) = utf8_encode c # split_chars s"
  using utf8_tail_of_encode [OF assms] by auto

lemma str_chars_of_chars:
  "list_all is_scalar cs \<Longrightarrow> str_chars (string_of_chars cs @ s) = cs @ str_chars s"
  by (induction cs) (auto simp: str_chars_def string_of_chars_def split_chars_encode)

lemma is_utf8_of_chars: "list_all is_scalar cs \<Longrightarrow> is_utf8 (string_of_chars cs)"
  using str_chars_of_chars [of cs "[]"] by (simp add: is_utf8_def str_chars_def)

lemma is_utf8_append_cancel: "is_utf8 p \<Longrightarrow> is_utf8 (p @ s) \<longleftrightarrow> is_utf8 s"
proof -
  assume p: "is_utf8 p"
  then have "str_chars (p @ s) = str_chars p @ str_chars s"
    using str_chars_of_chars [of "str_chars p" s] by (simp add: is_utf8_def)
  with p show ?thesis by (auto simp: is_utf8_def string_of_chars_def)
qed

lemma str_chars_append: "is_utf8 p \<Longrightarrow> str_chars (p @ s) = str_chars p @ str_chars s"
  using str_chars_of_chars [of "str_chars p" s] by (simp add: is_utf8_def)

lemma ascii_is_utf8 [simp]: "is_ascii s \<Longrightarrow> is_utf8 s"
proof -
  assume "is_ascii s"
  moreover from this have "list_all is_scalar (map byte_val s)"
    by (auto simp: is_ascii_def list_all_iff is_scalar_def)
  ultimately show ?thesis by (simp add: is_utf8_def str_simps)
qed

lemma utf8_small_ascii: "is_utf8 s \<Longrightarrow> \<forall>c \<in> set (str_chars s). c < 128 \<Longrightarrow> is_ascii s"
  by (metis is_utf8_def list_all_iff string_of_chars_small(2))

lemma utf8_encode_shape:
  assumes "is_scalar c"
  obtains b bs where "utf8_encode c = b # bs" "\<not> is_continuation b" "\<forall>x \<in> set bs. is_continuation x"
proof -
  have c: "c < 1114112" using assms by (auto simp: is_scalar_def)
  have m: "x mod 64 < 64" for x :: nat by simp
  have cont: "is_continuation (char_of (128 + x mod 64))" for x :: nat
    using m [of x] by (simp add: is_continuation_def of_char_of)
  have lead: "\<not> is_continuation (char_of (k + x))" if "192 \<le> k" "k + x < 256" for k x :: nat
    using that by (simp add: is_continuation_def of_char_of)
  consider "c < 128" | "128 \<le> c" "c < 2048" | "2048 \<le> c" "c < 65536" | "65536 \<le> c" by linarith
  then show thesis
  proof cases
    case 1
    then show ?thesis by (intro that) (auto simp: utf8_encode_def is_continuation_def of_char_of)
  next
    case 2
    then have "c div 64 < 32" by (simp add: div_less_iff_less_mult)
    with 2 cont lead [of 192 "c div 64"] show ?thesis by (intro that) (auto simp: utf8_encode_def)
  next
    case 3
    then have "c div 4096 < 16" by (simp add: div_less_iff_less_mult)
    with 3 cont lead [of 224 "c div 4096"] show ?thesis by (intro that) (auto simp: utf8_encode_def)
  next
    case 4
    have "c div 262144 < 8" using c by (simp add: div_less_iff_less_mult)
    with 4 cont lead [of 240 "c div 262144"] show ?thesis by (intro that) (auto simp: utf8_encode_def)
  qed
qed

text \<open>A character boundary splits a string into two strings.\<close>

lemma boundary_split_chars:
  assumes "list_all is_scalar cs" "is_char_boundary (string_of_chars cs) i" "i \<le> length (string_of_chars cs)"
  shows "is_utf8 (take i (string_of_chars cs)) \<and> is_utf8 (drop i (string_of_chars cs))"
  using assms
proof (induction cs arbitrary: i)
  case (Cons c cs)
  obtain b bs where enc: "utf8_encode c = b # bs" "\<forall>x \<in> set bs. is_continuation x"
    using Cons.prems(1) utf8_encode_shape [of c] by (metis list.pred_inject(2))
  have s: "string_of_chars (c # cs) = utf8_encode c @ string_of_chars cs"
    by (simp add: string_of_chars_def)
  have uc: "is_utf8 (utf8_encode c)"
    using Cons.prems(1) is_utf8_of_chars [of "[c]"] by (simp add: string_of_chars_def)
  have uall: "is_utf8 (string_of_chars (c # cs))" using Cons.prems(1) by (rule is_utf8_of_chars)
  let ?n = "length (utf8_encode c)"
  consider "i = 0" | "0 < i" "i < ?n" | "?n \<le> i" by linarith
  then show ?case
  proof cases
    case 1
    with uall show ?thesis by simp
  next
    case 2
    then have "(b # bs @ string_of_chars cs) ! i = bs ! (i - 1)" "i - 1 < length bs"
      using enc(1) by (auto simp: nth_Cons' nth_append)
    then have "is_continuation (string_of_chars (c # cs) ! i)"
      using enc s by simp
    with Cons.prems(2,3) 2 s show ?thesis by (auto simp: is_char_boundary_def)
  next
    case 3
    let ?j = "i - ?n"
    have "is_char_boundary (string_of_chars cs) ?j"
      using Cons.prems(2) 3 s by (auto simp: is_char_boundary_def nth_append)
    moreover have "?j \<le> length (string_of_chars cs)" using Cons.prems(3) s by simp
    ultimately have ih: "is_utf8 (take ?j (string_of_chars cs)) \<and> is_utf8 (drop ?j (string_of_chars cs))"
      using Cons.IH Cons.prems(1) by simp
    with 3 s uc show ?thesis by (simp add: is_utf8_append_cancel)
  qed
qed (simp add: string_of_chars_def)

lemma boundary_split:
  assumes "is_utf8 s" "is_char_boundary s i" "i \<le> length s"
  shows "is_utf8 (take i s)" "is_utf8 (drop i s)"
  using boundary_split_chars [of "str_chars s" i] assms by (auto simp: is_utf8_def)

lemma utf8_first_boundary:
  assumes "is_utf8 s" "s \<noteq> []"
  shows "\<not> is_continuation (hd s)"
proof -
  obtain c cs where cs: "str_chars s = c # cs"
    using assms by (cases "str_chars s") (auto simp: is_utf8_def string_of_chars_def)
  then have "is_scalar c" "s = utf8_encode c @ string_of_chars cs"
    using assms(1) by (auto simp: is_utf8_def string_of_chars_def)
  moreover obtain b bs where "utf8_encode c = b # bs" "\<not> is_continuation b"
    using utf8_encode_shape [OF \<open>is_scalar c\<close>] by metis
  ultimately show ?thesis by simp
qed

text \<open>UTF-8 is self-synchronising: an occurrence of a string in a string ends at boundaries.\<close>

lemma occurrence_boundaries:
  assumes "is_utf8 s" "is_utf8 p" "p \<noteq> []" "i + length p \<le> length s" "take (length p) (drop i s) = p"
  shows "is_char_boundary s i" "is_char_boundary s (i + length p)"
proof -
  have "s ! i = hd p"
    using assms(3,4,5) by (metis add_lessD1 drop_eq_Nil hd_conv_nth hd_drop_conv_nth hd_take
        leD le_add1 length_greater_0_conv less_add_same_cancel1 order_less_le_trans)
  with utf8_first_boundary [OF assms(2,3)] assms(3,4) show b: "is_char_boundary s i"
    by (cases "i < length s") (auto simp: is_char_boundary_def)
  have "i \<le> length s" using assms(4) by simp
  then have "is_utf8 (drop i s)" by (rule boundary_split(2) [OF assms(1) b])
  moreover have d: "drop i s = p @ drop (i + length p) s"
    by (metis add.commute append_take_drop_id assms(5) drop_drop)
  ultimately have u: "is_utf8 (drop (i + length p) s)" using assms(2) is_utf8_append_cancel by metis
  show "is_char_boundary s (i + length p)"
  proof (cases "i + length p < length s")
    case True
    then have "hd (drop (i + length p) s) = s ! (i + length p)" by (rule hd_drop_conv_nth)
    with utf8_first_boundary [OF u] True show ?thesis by (simp add: is_char_boundary_def)
  next
    case False
    with assms(4) show ?thesis by (simp add: is_char_boundary_def)
  qed
qed

text \<open>Bytes and characters carry the same information.\<close>

lemma unat_of_char [simp]: "unat (of_char b :: u8) = byte_val b"
proof -
  have "of_nat (byte_val b) = (of_char b :: u8)" by (rule of_nat_of_char)
  then have "unat (of_char b :: u8) = unat (of_nat (byte_val b) :: u8)" by simp
  also have "\<dots> = byte_val b"
    using nat_of_char_less_256 [of b] by (simp only: unat_of_nat) simp
  finally show ?thesis .
qed

lemma as_bytes_inj [simp]: "as_bytes s = as_bytes t \<longleftrightarrow> s = t"
proof -
  have "inj (of_char :: char \<Rightarrow> u8)" by (metis injI of_char_eq_iff unat_of_char)
  then show ?thesis by (simp add: as_bytes_def inj_map_eq_map)
qed

lemma length_as_bytes [simp]: "length (as_bytes s) = length s"
  by (simp add: as_bytes_def)

lemma as_bytes_take_drop: "take n (drop i (as_bytes s)) = as_bytes (take n (drop i s))"
  by (simp add: as_bytes_def take_map drop_map)

lemma as_bytes_Nil [simp]: "as_bytes s = [] \<longleftrightarrow> s = []"
  by (simp add: as_bytes_def)

section \<open>Options, lists and association lists\<close>

lemma mapo_Nil [simp]: "mapo f [] = Some []"
  by (simp add: mapo_def)

lemma mapo_Cons [simp]:
  "mapo f (x # xs) = (case f x of None \<Rightarrow> None | Some y \<Rightarrow> map_option (Cons y) (mapo f xs))"
  by (simp add: mapo_def cong: option.case_cong)

lemma mapo_Some_iff:
  "mapo f xs = Some ys \<longleftrightarrow> list_all2 (\<lambda>x y. f x = Some y) xs ys"
  by (induction xs arbitrary: ys) (auto split: option.splits simp: list_all2_Cons1)

lemma mapo_length: "mapo f xs = Some ys \<Longrightarrow> length ys = length xs"
  by (simp add: mapo_Some_iff list_all2_lengthD)

lemma mapo_total: "(\<And>x. x \<in> set xs \<Longrightarrow> f x = Some (g x)) \<Longrightarrow> mapo f xs = Some (map g xs)"
  by (induction xs) auto

lemma mapo_None_iff: "mapo f xs = None \<longleftrightarrow> (\<exists>x\<in>set xs. f x = None)"
  by (induction xs) (auto split: option.splits)

lemma those_Some_iff: "those xs = Some ys \<longleftrightarrow> xs = map Some ys"
  by (induction xs arbitrary: ys) (auto split: option.splits simp: map_eq_Cons_conv)

lemma map_of_update_eq [simp]: "map_of (AList.update k v al) = (map_of al)(k \<mapsto> v)"
  by (rule update_conv')

lemma map_of_delete_eq [simp]: "map_of (AList.delete k al) = (map_of al)(k := None)"
  by (rule delete_conv')

end
