(* ===== verification/Crates.thy ===== *)
theory Crates
  imports Prelude
begin

text \<open>
  The third-party crates the engine calls, as one record of functions that every definition
  using them takes as an argument: \<open>sha2\<close>, \<open>hmac\<close>, \<open>hkdf\<close>, \<open>fpe\<close> (FF1), \<open>chacha20poly1305\<close> and
  \<open>aho-corasick\<close>. What the engine relies on is stated as a named predicate per crate
  (\<open>sha2_contract\<close>, \<dots>), each one the documented behaviour of that crate and nothing about this
  program. \<open>ref_crates\<close> is a concrete record that meets every contract, so the theorems that
  assume them can be instantiated.
\<close>

section \<open>The interface\<close>

record crates =
  sha256_digest :: "u8 list \<Rightarrow> u8 list"
  hmac_sha256_mac :: "u8 list \<Rightarrow> u8 list \<Rightarrow> u8 list"
  hkdf_sha256_expand :: "u8 list \<Rightarrow> u8 list \<Rightarrow> nat \<Rightarrow> u8 list option"
  ff1_new :: "u8 list \<Rightarrow> nat \<Rightarrow> bool"
  ff1_encrypt :: "u8 list \<Rightarrow> nat \<Rightarrow> u8 list \<Rightarrow> u16 list \<Rightarrow> u16 list option"
  ff1_decrypt :: "u8 list \<Rightarrow> nat \<Rightarrow> u8 list \<Rightarrow> u16 list \<Rightarrow> u16 list option"
  aead_encrypt :: "u8 list \<Rightarrow> u8 list \<Rightarrow> u8 list \<Rightarrow> u8 list \<Rightarrow> u8 list option"
  aead_decrypt :: "u8 list \<Rightarrow> u8 list \<Rightarrow> u8 list \<Rightarrow> u8 list \<Rightarrow> u8 list option"
  ac_build :: "u8 list list \<Rightarrow> bool"
  ac_find_iter :: "u8 list list \<Rightarrow> u8 list \<Rightarrow> (nat \<times> nat \<times> nat) list"

section \<open>Contracts\<close>

definition sha2_contract :: "crates \<Rightarrow> bool" where
  "sha2_contract c \<longleftrightarrow> (\<forall>m. length (sha256_digest c m) = 32)"

definition hmac_contract :: "crates \<Rightarrow> bool" where
  "hmac_contract c \<longleftrightarrow> (\<forall>k m. length (hmac_sha256_mac c k m) = 32)"

text \<open>HKDF-SHA-256 expands to any length up to 255 blocks of 32 bytes and fails above.\<close>

definition hkdf_max_len :: nat where
  "hkdf_max_len = 255 * 32"

definition hkdf_contract :: "crates \<Rightarrow> bool" where
  "hkdf_contract c \<longleftrightarrow>
     (\<forall>ikm info n.
        (n \<le> hkdf_max_len \<longrightarrow> (\<exists>out. hkdf_sha256_expand c ikm info n = Some out \<and> length out = n))
        \<and> (n > hkdf_max_len \<longrightarrow> hkdf_sha256_expand c ikm info n = None))"

text \<open>
  FF1 over a 32-byte key: a permutation of the numeral strings of each length whose domain
  holds at least one million strings; \<open>decrypt\<close> inverts \<open>encrypt\<close>.
\<close>

definition numerals_below :: "nat \<Rightarrow> u16 list \<Rightarrow> bool" where
  "numerals_below r xs \<longleftrightarrow> (\<forall>x \<in> set xs. unat x < r)"

definition ff1_domain :: "nat \<Rightarrow> u16 list \<Rightarrow> bool" where
  "ff1_domain r xs \<longleftrightarrow>
     2 \<le> r \<and> r \<le> 65535 \<and> numerals_below r xs \<and> 1000000 \<le> r ^ length xs \<and> length xs < 2 ^ 32"

definition ff1_contract :: "crates \<Rightarrow> bool" where
  "ff1_contract c \<longleftrightarrow>
     (\<forall>k r. length k = 32 \<and> 2 \<le> r \<and> r \<le> 65535 \<longrightarrow> ff1_new c k r)
     \<and> (\<forall>k r t xs. length k = 32 \<and> ff1_domain r xs \<longrightarrow>
          (\<exists>ys. ff1_encrypt c k r t xs = Some ys \<and> length ys = length xs \<and> numerals_below r ys
             \<and> ff1_decrypt c k r t ys = Some xs))
     \<and> (\<forall>k r t ys. length k = 32 \<and> ff1_domain r ys \<longrightarrow>
          (\<exists>xs. ff1_decrypt c k r t ys = Some xs \<and> length xs = length ys \<and> numerals_below r xs
             \<and> ff1_encrypt c k r t xs = Some ys))
     \<and> (\<forall>k r t ys xs. length k = 32 \<and> numerals_below r ys \<and> ff1_decrypt c k r t ys = Some xs \<longrightarrow>
          length xs = length ys \<and> numerals_below r xs)"

text \<open>XChaCha20-Poly1305: a 16-byte tag is appended, and decryption inverts encryption.\<close>

definition aead_contract :: "crates \<Rightarrow> bool" where
  "aead_contract c \<longleftrightarrow>
     (\<forall>k n aad m. length k = 32 \<and> length n = 24 \<longrightarrow>
        (\<exists>ct. aead_encrypt c k n aad m = Some ct \<and> length ct = length m + 16
           \<and> aead_decrypt c k n aad ct = Some m))"

text \<open>
  The leftmost-longest matches of a set of non-empty patterns: disjoint and in source order,
  each one an occurrence of the pattern it names, no longer pattern occurs where one starts,
  and every occurrence of a pattern overlaps a reported match.
\<close>

definition occurs_at :: "u8 list \<Rightarrow> u8 list \<Rightarrow> nat \<Rightarrow> bool" where
  "occurs_at p s i \<longleftrightarrow> i + length p \<le> length s \<and> take (length p) (drop i s) = p"

fun matches_from :: "nat \<Rightarrow> (nat \<times> nat \<times> nat) list \<Rightarrow> bool" where
  "matches_from i [] = True"
| "matches_from i ((a, b, v) # ms) = (i \<le> a \<and> a < b \<and> matches_from b ms)"

definition leftmost_longest :: "u8 list list \<Rightarrow> u8 list \<Rightarrow> (nat \<times> nat \<times> nat) list \<Rightarrow> bool" where
  "leftmost_longest ps s ms \<longleftrightarrow>
     matches_from 0 ms
     \<and> (\<forall>(a, b, v) \<in> set ms. v < length ps \<and> occurs_at (ps ! v) s a \<and> b = a + length (ps ! v)
          \<and> (\<forall>p \<in> set ps. occurs_at p s a \<longrightarrow> length p \<le> b - a))
     \<and> (\<forall>p \<in> set ps. \<forall>i. occurs_at p s i \<longrightarrow> (\<exists>(a, b, v) \<in> set ms. a < i + length p \<and> i < b))"

definition aho_corasick_contract :: "crates \<Rightarrow> bool" where
  "aho_corasick_contract c \<longleftrightarrow>
     (\<forall>ps s. ps \<noteq> [] \<and> [] \<notin> set ps \<and> ac_build c ps \<longrightarrow>
        leftmost_longest ps s (ac_find_iter c ps s))"

section \<open>A concrete record that meets the contracts\<close>

text \<open>
  Leftmost-longest search by trying every position. The digests and ciphers below are
  placeholders with the right types and lengths, fit only to be evaluated.
\<close>

fun best_at :: "u8 list list \<Rightarrow> u8 list \<Rightarrow> nat \<Rightarrow> (nat \<times> nat) option" where
  "best_at [] s v = None"
| "best_at (p # ps) s v =
     (let r = best_at ps s (Suc v) in
      if take (length p) s = p then
        (case r of Some (n, w) \<Rightarrow> if length p < n then r else Some (length p, v)
         | None \<Rightarrow> Some (length p, v))
      else r)"

function naive_scan :: "u8 list list \<Rightarrow> nat \<Rightarrow> u8 list \<Rightarrow> (nat \<times> nat \<times> nat) list" where
  "naive_scan ps i [] = []"
| "naive_scan ps i (c # s) =
     (case best_at ps (c # s) 0 of
        Some (Suc n, v) \<Rightarrow> (i, i + Suc n, v) # naive_scan ps (i + Suc n) (drop n s)
      | _ \<Rightarrow> naive_scan ps (Suc i) s)"
  by pat_completeness auto
termination
  by (relation "measure (\<lambda>(ps, i, s). length s)") auto

definition rotate_numerals :: "nat \<Rightarrow> nat \<Rightarrow> u16 list \<Rightarrow> u16 list" where
  "rotate_numerals k r xs = map (\<lambda>x. word_of_nat ((unat x + k) mod r)) xs"

definition toy_tag :: "u8 list \<Rightarrow> u8 list \<Rightarrow> u8 list \<Rightarrow> u8 list" where
  "toy_tag k n aad = take 16 (k @ n @ aad @ replicate 16 0)"

definition ref_crates :: crates where
  "ref_crates =
     \<lparr>sha256_digest = (\<lambda>m. take 32 (m @ replicate 32 0)),
      hmac_sha256_mac = (\<lambda>k m. take 32 (m @ k @ replicate 32 0)),
      hkdf_sha256_expand = (\<lambda>ikm info n.
        if n \<le> hkdf_max_len then Some (take n (ikm @ info @ replicate n 0)) else None),
      ff1_new = (\<lambda>k r. True),
      ff1_encrypt = (\<lambda>k r t xs.
        if numerals_below r xs then Some (rotate_numerals 1 r xs) else None),
      ff1_decrypt = (\<lambda>k r t xs.
        if numerals_below r xs then Some (rotate_numerals (r - 1) r xs) else None),
      aead_encrypt = (\<lambda>k n aad m. Some (m @ toy_tag k n aad)),
      aead_decrypt = (\<lambda>k n aad ct.
        if 16 \<le> length ct \<and> drop (length ct - 16) ct = toy_tag k n aad
        then Some (take (length ct - 16) ct) else None),
      ac_build = (\<lambda>ps. True),
      ac_find_iter = (\<lambda>ps s. naive_scan ps 0 s)\<rparr>"

section \<open>Facts about the contracts\<close>

lemma hkdf_expand_ok:
  assumes "hkdf_contract c" "n \<le> hkdf_max_len"
  obtains out where "hkdf_sha256_expand c ikm info n = Some out" "length out = n"
  using assms unfolding hkdf_contract_def by blast

lemma hkdf_expand_too_long:
  "hkdf_contract c \<Longrightarrow> hkdf_max_len < n \<Longrightarrow> hkdf_sha256_expand c ikm info n = None"
  unfolding hkdf_contract_def by blast

lemma matches_from_mono: "matches_from i ms \<Longrightarrow> j \<le> i \<Longrightarrow> matches_from j ms"
  by (cases ms) auto

lemma matches_from_ge: "matches_from i ms \<Longrightarrow> (a, b, v) \<in> set ms \<Longrightarrow> i \<le> a \<and> a < b"
  by (induction i ms rule: matches_from.induct) fastforce+

lemma occurs_at_shift: "occurs_at p (drop n s) i \<longleftrightarrow> occurs_at p s (n + i)" if "n \<le> length s"
  using that by (auto simp: occurs_at_def add.commute)

lemma best_at_None: "best_at ps s v = None \<longleftrightarrow> (\<forall>p \<in> set ps. take (length p) s \<noteq> p)"
  by (induction ps arbitrary: v) (auto simp: Let_def split: option.splits if_splits)

lemma best_at_Some:
  "best_at ps s v = Some (n, w) \<Longrightarrow>
     v \<le> w \<and> w - v < length ps \<and> ps ! (w - v) \<in> set ps \<and> length (ps ! (w - v)) = n
     \<and> take n s = ps ! (w - v) \<and> (\<forall>p \<in> set ps. take (length p) s = p \<longrightarrow> length p \<le> n)"
proof (induction ps arbitrary: v n w)
  case (Cons p ps)
  show ?case
  proof (cases "best_at ps s (Suc v)")
    case None
    then have "\<forall>q \<in> set ps. take (length q) s \<noteq> q" by (simp add: best_at_None)
    with Cons.prems None show ?thesis by (auto simp: Let_def split: if_splits)
  next
    case (Some a)
    obtain n' w' where a: "a = (n', w')" by (cases a)
    have r: "best_at ps s (Suc v) = Some (n', w')" using Some a by simp
    note ih = Cons.IH [OF r]
    have idx: "(p # ps) ! (w' - v) = ps ! (w' - Suc v)"
      using ih by (metis Suc_diff_le diff_Suc_Suc nth_Cons_Suc)
    show ?thesis
    proof (cases "take (length p) s = p \<and> \<not> length p < n'")
      case True
      with Cons.prems r have "n = length p" "w = v" by (auto simp: Let_def)
      with True ih show ?thesis by (auto simp: le_trans)
    next
      case False
      with Cons.prems r have eq: "n = n'" "w = w'" by (auto simp: Let_def split: if_splits)
      with False ih idx show ?thesis by (auto simp: Let_def)
    qed
  qed
qed simp

lemma naive_scan_matches: "matches_from i (naive_scan ps i s)"
proof (induction ps i s rule: naive_scan.induct)
  case (2 ps i c s)
  have "matches_from i ms" if "matches_from (Suc i) ms" for ms
    using that by (rule matches_from_mono) simp
  with "2" show ?case by (auto split: option.splits nat.splits)
qed simp

text \<open>One step of the search: a character is skipped, or the best pattern here is reported.\<close>

lemma naive_scan_step:
  assumes "s \<noteq> []" "[] \<notin> set ps"
  obtains
    (skip) "\<forall>p \<in> set ps. \<not> occurs_at p s 0" "naive_scan ps i s = naive_scan ps (Suc i) (drop 1 s)"
  | (hit) n v where "0 < n" "n \<le> length s" "v < length ps" "length (ps ! v) = n"
      "occurs_at (ps ! v) s 0" "\<forall>p \<in> set ps. occurs_at p s 0 \<longrightarrow> length p \<le> n"
      "naive_scan ps i s = (i, i + n, v) # naive_scan ps (i + n) (drop n s)"
proof (cases "best_at ps s 0")
  case None
  then have "\<forall>p \<in> set ps. \<not> occurs_at p s 0" by (auto simp: best_at_None occurs_at_def)
  moreover have "naive_scan ps i s = naive_scan ps (Suc i) (drop 1 s)"
    using assms(1) None by (cases s) auto
  ultimately show thesis by (rule skip)
next
  case (Some r)
  obtain n v where r: "r = (n, v)" by (cases r)
  note best = best_at_Some [OF Some [unfolded r], simplified]
  obtain m where m: "n = Suc m" using best assms(2) by (cases n) auto
  have len: "n \<le> length s" using best by (metis length_take min.cobounded1)
  have "occurs_at (ps ! v) s 0" "\<forall>p \<in> set ps. occurs_at p s 0 \<longrightarrow> length p \<le> n"
    using best len by (auto simp: occurs_at_def)
  moreover have "naive_scan ps i s = (i, i + n, v) # naive_scan ps (i + n) (drop n s)"
    using assms(1) Some r m by (cases s) auto
  ultimately show thesis using hit [of n v] best len m by auto
qed

lemma naive_scan_sound:
  assumes "(a, b, v) \<in> set (naive_scan ps i s)" "[] \<notin> set ps"
  shows "i \<le> a \<and> v < length ps \<and> occurs_at (ps ! v) s (a - i) \<and> b = a + length (ps ! v)
    \<and> (\<forall>p \<in> set ps. occurs_at p s (a - i) \<longrightarrow> length p \<le> b - a)"
  using assms(1)
proof (induction "length s" arbitrary: i s rule: less_induct)
  case less
  have later: ?case
    if "(a, b, v) \<in> set (naive_scan ps (i + n) (drop n s))" "0 < n" "n \<le> length s" for n
  proof -
    have "length (drop n s) < length s" using that by simp
    from less.hyps [OF this that(1)]
    have ih: "i + n \<le> a" "v < length ps" "occurs_at (ps ! v) (drop n s) (a - (i + n))"
        "b = a + length (ps ! v)"
        "\<forall>p \<in> set ps. occurs_at p (drop n s) (a - (i + n)) \<longrightarrow> length p \<le> b - a"
      by auto
    have "n + (a - (i + n)) = a - i" using ih(1) by simp
    then have "occurs_at p (drop n s) (a - (i + n)) \<longleftrightarrow> occurs_at p s (a - i)" for p
      by (metis occurs_at_shift that(3))
    with ih show ?thesis by auto
  qed
  have "s \<noteq> []" using less.prems by (cases s) auto
  then show ?case using assms(2)
  proof (cases rule: naive_scan_step [where i = i, consumes 2, case_names skip hit])
    case skip
    with less.prems \<open>s \<noteq> []\<close> later [of 1] show ?thesis by (cases s) auto
  next
    case (hit n w)
    with less.prems later [of n] show ?thesis by auto
  qed
qed

lemma naive_scan_complete:
  assumes "[] \<notin> set ps" "p \<in> set ps" "occurs_at p s j"
  shows "\<exists>(a, b, v) \<in> set (naive_scan ps i s). a < i + j + length p \<and> i + j < b"
  using assms(3)
proof (induction "length s" arbitrary: i j s rule: less_induct)
  case less
  have plen: "0 < length p" using assms(1,2) by (cases p) auto
  then have "s \<noteq> []" using less.prems by (auto simp: occurs_at_def)
  have later: "\<exists>(a, b, v) \<in> set (naive_scan ps (i + n) (drop n s)). a < i + j + length p \<and> i + j < b"
    if "n \<le> j" "0 < n" "n \<le> length s" for n
  proof -
    have "occurs_at p (drop n s) (j - n)"
      using less.prems that by (simp add: occurs_at_shift)
    moreover have "length (drop n s) < length s" using that by simp
    ultimately have "\<exists>(a, b, v) \<in> set (naive_scan ps (i + n) (drop n s)).
        a < i + n + (j - n) + length p \<and> i + n + (j - n) < b"
      by (rule less.hyps [rotated])
    with that(1) show ?thesis by simp
  qed
  from \<open>s \<noteq> []\<close> assms(1) show ?case
  proof (cases rule: naive_scan_step [where i = i, consumes 2, case_names skip hit])
    case skip
    have "j \<noteq> 0" using skip(1) less.prems assms(2) by (cases j) auto
    with skip(2) \<open>s \<noteq> []\<close> later [of 1] show ?thesis by (cases s) auto
  next
    case (hit n w)
    show ?thesis
    proof (cases "j < n")
      case True
      with hit plen show ?thesis by auto
    next
      case False
      with hit(1,2,7) later [of n] show ?thesis by auto
    qed
  qed
qed

lemma naive_scan_leftmost_longest:
  assumes "[] \<notin> set ps"
  shows "leftmost_longest ps s (naive_scan ps 0 s)"
  unfolding leftmost_longest_def
proof (intro conjI)
  show "matches_from 0 (naive_scan ps 0 s)" by (rule naive_scan_matches)
  show "\<forall>(a, b, v) \<in> set (naive_scan ps 0 s). v < length ps \<and> occurs_at (ps ! v) s a
      \<and> b = a + length (ps ! v) \<and> (\<forall>p \<in> set ps. occurs_at p s a \<longrightarrow> length p \<le> b - a)"
    using naive_scan_sound [of _ _ _ ps 0 s] assms by fastforce
  show "\<forall>p \<in> set ps. \<forall>i. occurs_at p s i \<longrightarrow>
      (\<exists>(a, b, v) \<in> set (naive_scan ps 0 s). a < i + length p \<and> i < b)"
    using naive_scan_complete [of ps _ s _ 0] assms by fastforce
qed

lemma ref_aho_corasick: "aho_corasick_contract ref_crates"
  by (simp add: aho_corasick_contract_def ref_crates_def naive_scan_leftmost_longest)

lemma ref_digests: "sha2_contract ref_crates" "hmac_contract ref_crates" "hkdf_contract ref_crates"
  by (auto simp: sha2_contract_def hmac_contract_def hkdf_contract_def ref_crates_def)

lemma rotate_numerals_below: "0 < r \<Longrightarrow> numerals_below r (rotate_numerals k r xs)"
proof -
  assume r: "0 < r"
  have "unat (word_of_nat (n mod r) :: u16) < r" for n
  proof -
    have "unat (word_of_nat (n mod r) :: u16) \<le> n mod r" by (simp add: unat_of_nat)
    also have "n mod r < r" using r by simp
    finally show ?thesis .
  qed
  then show ?thesis by (auto simp: numerals_below_def rotate_numerals_def)
qed

lemma rotate_numerals_compose:
  assumes "2 \<le> r" "r \<le> 65535" "numerals_below r xs" "i + j = r"
  shows "rotate_numerals i r (rotate_numerals j r xs) = xs"
proof -
  have "word_of_nat ((unat (word_of_nat ((unat x + j) mod r) :: u16) + i) mod r) = x"
    if "x \<in> set xs" for x
  proof -
    have x: "unat x < r" using assms(3) that by (simp add: numerals_below_def)
    have "(unat x + j) mod r < 2 ^ 16"
      using assms(1,2) mod_less_divisor [of r "unat x + j"] by (simp del: mod_less_divisor)
    then have "unat (word_of_nat ((unat x + j) mod r) :: u16) = (unat x + j) mod r"
      by (simp add: unat_of_nat)
    moreover have "((unat x + j) mod r + i) mod r = unat x"
    proof -
      have "((unat x + j) mod r + i) mod r = (unat x + j + i) mod r"
        by (simp add: mod_add_left_eq)
      also have "unat x + j + i = unat x + r" using assms(4) by simp
      also have "(unat x + r) mod r = unat x" using x by simp
      finally show ?thesis .
    qed
    ultimately show ?thesis by simp
  qed
  then show ?thesis by (simp add: rotate_numerals_def map_idI)
qed

lemma ref_ff1: "ff1_contract ref_crates"
proof -
  have enc: "ff1_encrypt ref_crates k r t xs =
      (if numerals_below r xs then Some (rotate_numerals 1 r xs) else None)"
    and dec: "ff1_decrypt ref_crates k r t xs =
      (if numerals_below r xs then Some (rotate_numerals (r - 1) r xs) else None)"
    and len: "length (rotate_numerals j r xs) = length xs" for k r t j xs
    by (simp_all add: ref_crates_def rotate_numerals_def)
  note facts = enc dec len rotate_numerals_below rotate_numerals_compose ff1_domain_def
  have "numerals_below r xs \<Longrightarrow> xs \<noteq> [] \<Longrightarrow> 0 < r" for r and xs :: "u16 list"
    by (cases xs) (auto simp: numerals_below_def)
  then have "length xs = length ys \<and> numerals_below r xs"
    if "numerals_below r ys" "ff1_decrypt ref_crates k r t ys = Some xs"
    for k r t and xs ys :: "u16 list"
    using that by (cases "ys = []") (auto simp: facts, auto simp: rotate_numerals_def)
  moreover have "ff1_new ref_crates k r" for k r by (simp add: ref_crates_def)
  ultimately show ?thesis unfolding ff1_contract_def by (auto simp: facts)
qed

lemma ref_aead: "aead_contract ref_crates"
  by (simp add: aead_contract_def ref_crates_def toy_tag_def)

lemmas ref_contracts = ref_aho_corasick ref_digests ref_ff1 ref_aead

end
