(* ===== verification/Alphabet.thy ===== *)
theory Alphabet
  imports Prelude
begin

text \<open>
  \<open>crates/invisibool-engine/src/tokenizer/alphabet.rs\<close>: the character sets of the FF1 and MAC
  fakes. The record and its operations are translated one by one; \<open>wf_alphabet\<close> is what
  \<open>validate\<close> promises, and the locale \<open>symbol_table\<close> is the interface the tokenizers rely on
  (an index and its symbol determine each other), interpreted on the operations here.
\<close>

section \<open>The data type and its operations\<close>

record alphabet =
  chars :: string

definition alphabet_unchecked :: "string \<Rightarrow> alphabet" where
  "alphabet_unchecked cs = \<lparr>chars = cs\<rparr>"

definition BASE62 :: alphabet where
  "BASE62 = alphabet_unchecked ''0123456789ABCDEFGHIJKLMNOPQRSTUVWXYZabcdefghijklmnopqrstuvwxyz''"

definition BASE32 :: alphabet where
  "BASE32 = alphabet_unchecked ''ABCDEFGHIJKLMNOPQRSTUVWXYZ234567''"

definition HEX_LOWER :: alphabet where
  "HEX_LOWER = alphabet_unchecked ''0123456789abcdef''"

definition HEX_UPPER :: alphabet where
  "HEX_UPPER = alphabet_unchecked ''0123456789ABCDEF''"

definition DIGITS :: alphabet where
  "DIGITS = alphabet_unchecked ''0123456789''"

definition ALPHA_LOWER :: alphabet where
  "ALPHA_LOWER = alphabet_unchecked ''abcdefghijklmnopqrstuvwxyz''"

definition ALPHA_UPPER :: alphabet where
  "ALPHA_UPPER = alphabet_unchecked ''ABCDEFGHIJKLMNOPQRSTUVWXYZ''"

definition BASE36_LOWER :: alphabet where
  "BASE36_LOWER = alphabet_unchecked ''0123456789abcdefghijklmnopqrstuvwxyz''"

datatype AlphabetError =
    NonAscii
  | ContainsWhitespace
  | RadixOutOfRange nat
  | DuplicateChar rchar

text \<open>The duplicate scan over the \<open>seen: [bool; 128]\<close> table; indexing past it would panic.\<close>

fun validate_seen :: "bool list \<Rightarrow> rchar list \<Rightarrow> (AlphabetError + unit) run" where
  "validate_seen seen [] = Some (Inr ())"
| "validate_seen seen (c # cs) =
     (if c \<ge> length seen then panic
      else if seen ! c then Some (Inl (DuplicateChar c))
      else validate_seen (seen[c := True]) cs)"

definition validate :: "string \<Rightarrow> (AlphabetError + unit) run" where
  "validate cs =
     (if \<not> is_ascii cs then Some (Inl NonAscii)
      else if list_ex is_whitespace (str_chars cs) then Some (Inl ContainsWhitespace)
      else let radix = length (str_chars cs) in
        if \<not> (2 \<le> radix \<and> radix \<le> 65535) then Some (Inl (RadixOutOfRange radix))
        else validate_seen (replicate 128 False) (str_chars cs))"

definition try_custom :: "string \<Rightarrow> (AlphabetError + alphabet) run" where
  "try_custom cs = map_option (\<lambda>r. bind_result r (\<lambda>_. Inr \<lparr>chars = cs\<rparr>)) (validate cs)"

text \<open>\<open>radix\<close> is the byte length; the conversion to \<open>u32\<close> cannot fail below 4 GiB.\<close>

definition radix :: "alphabet \<Rightarrow> nat" where
  "radix a = length (chars a)"

text \<open>
  \<open>(32.0 / f64::from(radix).log2()).ceil() as usize\<close>, over the reals; the division by
  \<open>log2(1) = 0\<close> gives the saturated infinity.
\<close>

definition mac_tail_len :: "alphabet \<Rightarrow> nat" where
  "mac_tail_len a =
     (if radix a = 1 then 2 ^ 64 - 1 else nat \<lceil>32 / log 2 (real (radix a))\<rceil>)"

definition contains :: "alphabet \<Rightarrow> rchar \<Rightarrow> bool" where
  "contains a c \<longleftrightarrow> c \<in> set (str_chars (chars a))"

fun find_char :: "string list \<Rightarrow> rchar \<Rightarrow> nat \<Rightarrow> nat option" where
  "find_char [] c i = None"
| "find_char (g # gs) c i = (if utf8_scalar g = c then Some i else find_char gs c (i + length g))"

definition index_of :: "alphabet \<Rightarrow> rchar \<Rightarrow> nat option" where
  "index_of a c = find_char (split_chars (chars a)) c 0"

definition symbol_at :: "alphabet \<Rightarrow> nat \<Rightarrow> rchar run" where
  "symbol_at a i = (if i < length (chars a) then Some (byte_val (chars a ! i)) else panic)"

section \<open>What validation establishes\<close>

definition wf_alphabet :: "alphabet \<Rightarrow> bool" where
  "wf_alphabet a \<longleftrightarrow>
     is_ascii (chars a) \<and> \<not> list_ex is_whitespace (map byte_val (chars a)) \<and> distinct (chars a)
     \<and> 2 \<le> length (chars a) \<and> length (chars a) \<le> 65535"

lemma validate_seen_ok:
  assumes "length seen = 128" "\<forall>c \<in> set cs. c < 128"
  shows "validate_seen seen cs = Some (Inr ()) \<longleftrightarrow> distinct cs \<and> (\<forall>c \<in> set cs. \<not> seen ! c)"
  using assms
proof (induction cs arbitrary: seen)
  case (Cons c cs)
  show ?case
  proof (cases "seen ! c")
    case False
    have "validate_seen (seen[c := True]) cs = Some (Inr ()) \<longleftrightarrow>
        distinct cs \<and> (\<forall>d \<in> set cs. \<not> seen[c := True] ! d)"
      using Cons by simp
    also have "\<dots> \<longleftrightarrow> distinct cs \<and> c \<notin> set cs \<and> (\<forall>d \<in> set cs. \<not> seen ! d)"
      using Cons.prems by (auto simp: nth_list_update)
    finally show ?thesis using False Cons.prems by auto
  qed (use Cons.prems in auto)
qed simp

lemma validate_seen_returns:
  assumes "length seen = 128" "\<forall>c \<in> set cs. c < 128"
  shows "validate_seen seen cs \<noteq> None"
  using assms by (induction cs arbitrary: seen) auto

lemma ascii_scalars: "is_ascii s \<Longrightarrow> \<forall>c \<in> set (str_chars s). c < 128"
  by (auto simp: ascii_str_chars is_ascii_def list_all_iff)

lemma validate_returns: "validate cs \<noteq> None"
  using validate_seen_returns [of "replicate 128 False" "str_chars cs"] ascii_scalars
  by (auto simp: validate_def Let_def)

lemma distinct_scalars: "is_ascii s \<Longrightarrow> distinct (str_chars s) \<longleftrightarrow> distinct s"
  by (simp add: ascii_str_chars distinct_map inj_on_def)

lemma validate_ok_iff: "validate cs = Some (Inr ()) \<longleftrightarrow> wf_alphabet \<lparr>chars = cs\<rparr>"
proof (cases "is_ascii cs")
  case True
  have "validate_seen (replicate 128 False) (str_chars cs) = Some (Inr ()) \<longleftrightarrow>
      distinct (str_chars cs)"
    using validate_seen_ok [of "replicate 128 False" "str_chars cs"] ascii_scalars [OF True]
    by auto
  with True show ?thesis
    by (auto simp: validate_def wf_alphabet_def Let_def ascii_str_chars distinct_map inj_on_def)
qed (simp add: validate_def wf_alphabet_def)

lemma named_constants_wf:
  "wf_alphabet BASE62" "wf_alphabet BASE32" "wf_alphabet HEX_LOWER" "wf_alphabet HEX_UPPER"
  "wf_alphabet DIGITS" "wf_alphabet ALPHA_LOWER" "wf_alphabet ALPHA_UPPER"
  "wf_alphabet BASE36_LOWER"
  by (simp_all add: wf_alphabet_def is_whitespace_def alphabet_unchecked_def BASE62_def BASE32_def
      HEX_LOWER_def HEX_UPPER_def DIGITS_def ALPHA_LOWER_def ALPHA_UPPER_def BASE36_LOWER_def)

text \<open>At most 122 ASCII characters are not whitespace, so FF1's upper bound is never reached.\<close>

lemma wf_alphabet_card: "wf_alphabet a \<Longrightarrow> radix a \<le> 122"
proof -
  assume wf: "wf_alphabet a"
  let ?ok = "{n. n < 128 \<and> \<not> is_whitespace n}"
  have "byte_val ` set (chars a) \<subseteq> ?ok"
    using wf by (auto simp: wf_alphabet_def is_ascii_def list_all_iff list_ex_iff)
  moreover have ok: "?ok \<subseteq> set (filter (\<lambda>n. \<not> is_whitespace n) [0..<128])"
    by auto
  ultimately have "card (byte_val ` set (chars a)) \<le>
      card (set (filter (\<lambda>n. \<not> is_whitespace n) [0..<128]))"
    by (meson card_mono finite_set subset_trans)
  also have "\<dots> \<le> length (filter (\<lambda>n. \<not> is_whitespace n) [0..<128])"
    by (rule card_length)
  also have "\<dots> = 122" by (simp add: is_whitespace_def upt_conv_Cons)
  finally have "card (byte_val ` set (chars a)) \<le> 122" .
  moreover have "card (byte_val ` set (chars a)) = length (chars a)"
    using wf by (simp add: card_image inj_on_def distinct_card wf_alphabet_def)
  ultimately show ?thesis by (simp add: radix_def)
qed

lemma wf_radix: "wf_alphabet a \<Longrightarrow> 2 \<le> radix a"
  by (simp add: wf_alphabet_def radix_def)

section \<open>The symbol table\<close>

text \<open>
  The interface FF1 and the MAC encoder use: below the radix every index has a symbol, and
  an index and its symbol determine each other.
\<close>

locale symbol_table =
  fixes size_of :: "'al \<Rightarrow> nat"
    and member :: "'al \<Rightarrow> rchar \<Rightarrow> bool"
    and index :: "'al \<Rightarrow> rchar \<Rightarrow> nat option"
    and symbol :: "'al \<Rightarrow> nat \<Rightarrow> rchar option"
    and valid :: "'al \<Rightarrow> bool"
  assumes member_index: "valid a \<Longrightarrow> member a c \<longleftrightarrow> index a c \<noteq> None"
    and index_less: "valid a \<Longrightarrow> index a c = Some i \<Longrightarrow> i < size_of a"
    and symbol_index: "valid a \<Longrightarrow> index a c = Some i \<Longrightarrow> symbol a i = Some c"
    and index_symbol: "valid a \<Longrightarrow> i < size_of a \<Longrightarrow> \<exists>c. symbol a i = Some c \<and> index a c = Some i"
    and symbol_ascii: "valid a \<Longrightarrow> symbol a i = Some c \<Longrightarrow> c < 128"
begin

text \<open>Whole words: every member string has indices, and they map back to it.\<close>

lemma indices_total:
  assumes "valid a" "\<forall>c \<in> set cs. member a c"
  shows "\<exists>is. mapo (index a) cs = Some is \<and> length is = length cs \<and> (\<forall>i \<in> set is. i < size_of a)
    \<and> mapo (symbol a) is = Some cs"
  using assms(2)
proof (induction cs)
  case (Cons c cs)
  then obtain i where "index a c = Some i" using member_index [OF assms(1)] by fastforce
  moreover obtain "is" where "mapo (index a) cs = Some is" "length is = length cs"
      "\<forall>i \<in> set is. i < size_of a" "mapo (symbol a) is = Some cs"
    using Cons by auto
  ultimately show ?case
    using index_less [OF assms(1), of c i] symbol_index [OF assms(1), of c i]
    by (intro exI [of _ "i # is"]) simp
qed simp

lemma symbols_total:
  assumes "valid a" "\<forall>i \<in> set is. i < size_of a"
  shows "\<exists>cs. mapo (symbol a) is = Some cs \<and> length cs = length is \<and> (\<forall>c \<in> set cs. member a c)
    \<and> (\<forall>c \<in> set cs. c < 128) \<and> mapo (index a) cs = Some is"
  using assms(2)
proof (induction "is")
  case (Cons i "is")
  then have "i < size_of a" by simp
  then obtain c where "symbol a i = Some c" "index a c = Some i"
    using index_symbol [OF assms(1)] by blast
  moreover obtain cs where "mapo (symbol a) is = Some cs" "length cs = length is"
      "\<forall>c \<in> set cs. member a c" "\<forall>c \<in> set cs. c < 128" "mapo (index a) cs = Some is"
    using Cons by auto
  ultimately show ?case
    using member_index [OF assms(1), of c] symbol_ascii [OF assms(1), of i c]
    by (intro exI [of _ "c # cs"]) simp
qed simp

end

lemma find_char_singletons:
  "is_ascii s \<Longrightarrow> find_char (map (\<lambda>c. [c]) s) n i = Some j \<Longrightarrow>
     i \<le> j \<and> j < i + length s \<and> byte_val (s ! (j - i)) = n"
proof (induction s arbitrary: i)
  case (Cons c s)
  show ?case
  proof (cases "byte_val c = n")
    case False
    with Cons.prems have "find_char (map (\<lambda>c. [c]) s) n (Suc i) = Some j"
      by (auto simp: utf8_scalar_def split: if_splits)
    then have "Suc i \<le> j \<and> j < Suc i + length s \<and> byte_val (s ! (j - Suc i)) = n"
      using Cons.IH [of "Suc i"] Cons.prems(1) by auto
    moreover from this have "j - i = Suc (j - Suc i)" by arith
    ultimately show ?thesis by simp
  qed (use Cons.prems in \<open>auto simp: utf8_scalar_def\<close>)
qed simp

lemma find_char_nth:
  assumes "is_ascii s" "distinct s" "j < length s"
  shows "find_char (map (\<lambda>c. [c]) s) (byte_val (s ! j)) i = Some (i + j)"
  using assms
proof (induction s arbitrary: i j)
  case (Cons c s)
  then show ?case by (cases j) (auto simp: utf8_scalar_def)
qed simp

lemma find_char_None:
  "is_ascii s \<Longrightarrow> find_char (map (\<lambda>c. [c]) s) n i = None \<longleftrightarrow> n \<notin> byte_val ` set s"
  by (induction s arbitrary: i) (auto simp: utf8_scalar_def)

interpretation symtab: symbol_table radix contains index_of symbol_at wf_alphabet
proof unfold_locales
  fix a c i
  assume wf: "wf_alphabet a"
  then have asc: "is_ascii (chars a)" and dst: "distinct (chars a)"
    by (auto simp: wf_alphabet_def)
  note split = ascii_split_chars [OF asc]
  show "contains a c \<longleftrightarrow> index_of a c \<noteq> None"
    by (simp add: contains_def index_of_def split ascii_str_chars [OF asc] find_char_None [OF asc])
  show "symbol_at a i = Some c \<Longrightarrow> c < 128"
    using asc is_ascii_nth by (auto simp: symbol_at_def split: if_splits)
  show "i < radix a \<Longrightarrow> \<exists>c. symbol_at a i = Some c \<and> index_of a c = Some i"
    using find_char_nth [OF asc dst, of i 0] by (simp add: symbol_at_def radix_def index_of_def split)
  assume "index_of a c = Some i"
  then have "i < length (chars a) \<and> byte_val (chars a ! i) = c"
    using find_char_singletons [OF asc, of c 0 i] by (simp add: index_of_def split)
  then show "i < radix a" "symbol_at a i = Some c"
    by (auto simp: radix_def symbol_at_def)
qed

section \<open>The MAC tail length\<close>

lemma mac_tail_len_bounds:
  assumes "2 \<le> radix a"
  shows "2 ^ 32 \<le> radix a ^ mac_tail_len a" "\<And>k. k < mac_tail_len a \<Longrightarrow> radix a ^ k < 2 ^ 32"
proof -
  let ?r = "real (radix a)" and ?K = "mac_tail_len a"
  have r: "1 < ?r" and lg: "0 < log 2 ?r" using assms by auto
  have K: "?K = nat \<lceil>32 / log 2 ?r\<rceil>" using assms by (simp add: mac_tail_len_def)
  have pow: "log 2 (?r ^ k) = real k * log 2 ?r" for k
    using r by (simp add: log_nat_power)
  have "32 / log 2 ?r \<le> real ?K" unfolding K by linarith
  then have "32 \<le> log 2 (?r ^ ?K)" using lg by (simp add: pow pos_divide_le_eq)
  then have "2 powr 32 \<le> ?r ^ ?K" using r by (subst (asm) le_log_iff) auto
  then have "real (2 ^ 32) \<le> real (radix a ^ ?K)" by (simp add: powr_numeral)
  then show "2 ^ 32 \<le> radix a ^ ?K" by (simp only: of_nat_le_iff)
  fix k assume "k < ?K"
  then have "real k < 32 / log 2 ?r" unfolding K by linarith
  then have "log 2 (?r ^ k) < 32" using lg by (simp add: pow pos_less_divide_eq)
  then have "?r ^ k < 2 powr 32" using r by (subst (asm) log_less_iff) auto
  then have "real (radix a ^ k) < real (2 ^ 32)" by (simp add: powr_numeral)
  then show "radix a ^ k < 2 ^ 32" by (simp only: of_nat_less_iff)
qed

lemma mac_tail_len_eqI:
  assumes "2 \<le> radix a" "2 ^ 32 \<le> radix a ^ k" "\<And>j. j < k \<Longrightarrow> radix a ^ j < 2 ^ 32"
  shows "mac_tail_len a = k"
proof (rule linorder_cases)
  assume "mac_tail_len a < k"
  from assms(3) [OF this] mac_tail_len_bounds(1) [OF assms(1)] show ?thesis by simp
next
  assume "k < mac_tail_len a"
  from mac_tail_len_bounds(2) [OF assms(1) this] assms(2) show ?thesis by simp
qed

lemma mac_tail_len_code [code]:
  "mac_tail_len a =
     (if radix a = 0 then 0 else if radix a = 1 then 2 ^ 64 - 1
      else the (List.find (\<lambda>k. 2 ^ 32 \<le> radix a ^ k) [0..<33]))"
proof (cases "2 \<le> radix a")
  case True
  have "2 ^ 32 \<le> radix a ^ 32" using True by (rule power_mono) simp
  then have "List.find (\<lambda>k. 2 ^ 32 \<le> radix a ^ k) [0..<33] \<noteq> None"
    by (auto simp: find_None_iff intro!: exI [of _ 32])
  then obtain k where k: "List.find (\<lambda>k. 2 ^ 32 \<le> radix a ^ k) [0..<33] = Some k" by blast
  then have "2 ^ 32 \<le> radix a ^ k" "\<And>j. j < k \<Longrightarrow> radix a ^ j < 2 ^ 32"
    by (auto simp: find_Some_iff not_le)
  from mac_tail_len_eqI [OF True this] k True show ?thesis by simp
next
  case False
  then have "radix a = 0 \<or> radix a = 1" by auto
  then show ?thesis by (auto simp: mac_tail_len_def log_def)
qed

lemma mac_tail_len_pos: "2 \<le> radix a \<Longrightarrow> 0 < mac_tail_len a"
  using mac_tail_len_bounds(1) [of a] by (cases "mac_tail_len a") auto

section \<open>Properties\<close>

text \<open>
  \<open>Alphabet::try_custom\<close> never panics; it accepts exactly the well-formed
  character sets (ASCII, no whitespace, no repetition, at least two symbols) and returns the
  set unchanged, and what it accepts has at most 122 symbols.
\<close>

theorem try_custom_spec:
  "try_custom cs \<noteq> None
   \<and> (\<forall>a. try_custom cs = Some (Inr a) \<longleftrightarrow> a = \<lparr>chars = cs\<rparr> \<and> wf_alphabet \<lparr>chars = cs\<rparr>)
   \<and> (wf_alphabet \<lparr>chars = cs\<rparr> \<longrightarrow> radix \<lparr>chars = cs\<rparr> \<le> 122)"
proof -
  obtain r where r: "validate cs = Some r" using validate_returns [of cs] by blast
  show ?thesis
    using validate_ok_iff [of cs] wf_alphabet_card [of "\<lparr>chars = cs\<rparr>"] r
    by (cases r) (auto simp: try_custom_def result_simps)
qed

theorem try_custom_spec_witness:
  "radix \<lparr>chars = ''0123456789''\<rparr> \<le> 122"
  using try_custom_spec [of "''0123456789''"] named_constants_wf(5)
  by (simp add: DIGITS_def alphabet_unchecked_def)

text \<open>
  \<open>Alphabet::mac_tail_len\<close> is the smallest number of symbols that carry 32 bits:
  \<open>K\<close> symbols name at least \<open>2 ^ 32\<close> values, any smaller number names fewer.
\<close>

theorem mac_tail_len_least:
  assumes "wf_alphabet a"
  shows "2 ^ 32 \<le> radix a ^ mac_tail_len a \<and> (\<forall>k < mac_tail_len a. radix a ^ k < 2 ^ 32)"
  using mac_tail_len_bounds [OF wf_radix [OF assms]] by blast

theorem mac_tail_len_least_witness:
  "mac_tail_len BASE62 = 6 \<and> (62::nat) ^ 5 < 2 ^ 32"
proof -
  have r: "radix BASE62 = 62" by (simp add: BASE62_def alphabet_unchecked_def radix_def)
  have k: "mac_tail_len BASE62 = 6"
    by (simp add: mac_tail_len_code r find_Some_iff upt_conv_Cons)
  with r mac_tail_len_least [OF named_constants_wf(1)] show ?thesis by auto
qed

end
