(* ===== verification/Fpe.thy ===== *)
theory Fpe
  imports Crates Alphabet
begin

text \<open>
  \<open>crates/invisibool-engine/src/tokenizer/fpe.rs\<close>: the FF1 tokenizer. A registration's value is
  a literal prefix and a body over an alphabet; \<open>fpe_scrub\<close> encrypts the body, \<open>fpe_try_restore\<close>
  decrypts a candidate against every registration of its profile. Both return \<open>run\<close> values
  because the helpers index the alphabet with \<open>expect\<close>; the lemmas show that no registration
  with a well-formed alphabet reaches a panic.
\<close>

section \<open>Constants and data\<close>

definition FF1_KEY_INFO :: "u8 list" where
  "FF1_KEY_INFO = as_bytes ''invisibool-ff1-key-v1''"

definition FF1_KEY_LEN :: nat where
  "FF1_KEY_LEN = 32"

definition TWEAK_LEN :: nat where
  "TWEAK_LEN = 16"

definition MIN_DOMAIN :: nat where
  "MIN_DOMAIN = 1000000"

datatype PiiKind = Email | Ipv4 | Phone

datatype SessionFakeKind = Card | Pii PiiKind | Formatless

record FpeRegistration =
  fr_label :: string
  fr_value :: string
  fr_tweak :: "u8 list"
  fr_alphabet :: alphabet
  fr_prefix :: string

record SessionRegistration =
  sr_label :: string
  sr_value :: string
  sr_kind :: SessionFakeKind

datatype RegisteredValue = Fpe FpeRegistration | SessionMapped SessionRegistration

datatype EligibilityError =
    PrefixMissing
  | ValueNotAscii
  | ValueContainsWhitespace
  | CharNotInAlphabet rchar
  | DomainTooSmall nat nat
  | BodyTooLong

datatype FpeError = Eligibility EligibilityError | Ff1

record InMemoryKeyProvider =
  provider_key :: "u8 list"

record FpeTokenizer =
  ff1_key :: "u8 list"

section \<open>Operations\<close>

definition vault_key :: "InMemoryKeyProvider \<Rightarrow> u8 list" where
  "vault_key p = provider_key p"

definition fpe_new :: "crates \<Rightarrow> InMemoryKeyProvider \<Rightarrow> FpeTokenizer run" where
  "fpe_new c p =
     (case hkdf_sha256_expand c (vault_key p) FF1_KEY_INFO FF1_KEY_LEN of
        None \<Rightarrow> panic
      | Some k \<Rightarrow> Some \<lparr>ff1_key = k\<rparr>)"

definition body_to_numerals :: "string \<Rightarrow> alphabet \<Rightarrow> u16 list run" where
  "body_to_numerals body a =
     mapo (\<lambda>c. case index_of a c of
              None \<Rightarrow> panic
            | Some i \<Rightarrow> if i < 2 ^ 16 then Some (word_of_nat i) else panic)
       (str_chars body)"

definition numerals_to_body :: "u16 list \<Rightarrow> alphabet \<Rightarrow> string run" where
  "numerals_to_body ns a = map_option string_of_chars (mapo (\<lambda>n. symbol_at a (unat n)) ns)"

definition check_eligibility :: "string \<Rightarrow> string \<Rightarrow> alphabet \<Rightarrow> EligibilityError + unit" where
  "check_eligibility value prefix a =
     (case strip_prefix value prefix of
        None \<Rightarrow> Inl PrefixMissing
      | Some body \<Rightarrow>
          if \<not> is_ascii body then Inl ValueNotAscii
          else if list_ex is_whitespace (str_chars body) then Inl ValueContainsWhitespace
          else case List.find (\<lambda>c. \<not> contains a c) (str_chars body) of
            Some c \<Rightarrow> Inl (CharNotInAlphabet c)
          | None \<Rightarrow>
              let len = length (str_chars body) in
              if 2 ^ 32 \<le> len then Inl BodyTooLong
              else let domain = (case checked_pow_u64 (radix a) len of
                                   Some d \<Rightarrow> d | None \<Rightarrow> 2 ^ 64 - 1) in
                if domain < MIN_DOMAIN then Inl (DomainTooSmall (radix a) len)
                else Inr ())"

definition fpe_scrub :: "crates \<Rightarrow> FpeTokenizer \<Rightarrow> FpeRegistration \<Rightarrow> (FpeError + string) run" where
  "fpe_scrub c t reg =
     (case check_eligibility (fr_value reg) (fr_prefix reg) (fr_alphabet reg) of
        Inl e \<Rightarrow> Some (Inl (Eligibility e))
      | Inr _ \<Rightarrow>
          do {
            body \<leftarrow> strip_prefix (fr_value reg) (fr_prefix reg);
            numerals \<leftarrow> body_to_numerals body (fr_alphabet reg);
            if \<not> ff1_new c (ff1_key t) (radix (fr_alphabet reg)) then Some (Inl Ff1)
            else case ff1_encrypt c (ff1_key t) (radix (fr_alphabet reg)) (fr_tweak reg) numerals of
              None \<Rightarrow> Some (Inl Ff1)
            | Some ct \<Rightarrow>
                do {
                  cipher_body \<leftarrow> numerals_to_body ct (fr_alphabet reg);
                  Some (Inr (fr_prefix reg @ cipher_body))
                }
          })"

text \<open>One iteration of the restore loop: \<^const>\<open>None\<close> inside is \<open>continue\<close>.\<close>

definition try_restore_one ::
  "crates \<Rightarrow> FpeTokenizer \<Rightarrow> string \<Rightarrow> FpeRegistration \<Rightarrow> string option run" where
  "try_restore_one c t candidate reg =
     (case strip_prefix candidate (fr_prefix reg) of
        None \<Rightarrow> Some None
      | Some body \<Rightarrow>
          if length body \<noteq> length (fr_value reg) - length (fr_prefix reg) then Some None
          else if \<not> list_all (contains (fr_alphabet reg)) (str_chars body) then Some None
          else do {
            numerals \<leftarrow> body_to_numerals body (fr_alphabet reg);
            if \<not> ff1_new c (ff1_key t) (radix (fr_alphabet reg)) then Some None
            else case ff1_decrypt c (ff1_key t) (radix (fr_alphabet reg)) (fr_tweak reg) numerals of
              None \<Rightarrow> Some None
            | Some pt \<Rightarrow>
                do {
                  pt_body \<leftarrow> numerals_to_body pt (fr_alphabet reg);
                  Some (if fr_prefix reg @ pt_body = fr_value reg then Some (fr_value reg) else None)
                }
          })"

fun fpe_try_restore ::
  "crates \<Rightarrow> FpeTokenizer \<Rightarrow> string \<Rightarrow> FpeRegistration list \<Rightarrow> string option run" where
  "fpe_try_restore c t candidate [] = Some None"
| "fpe_try_restore c t candidate (reg # regs) =
     do {
       r \<leftarrow> try_restore_one c t candidate reg;
       case r of Some v \<Rightarrow> Some (Some v) | None \<Rightarrow> fpe_try_restore c t candidate regs
     }"

section \<open>Eligibility\<close>

definition wf_registration :: "FpeRegistration \<Rightarrow> bool" where
  "wf_registration reg \<longleftrightarrow> wf_alphabet (fr_alphabet reg) \<and> is_utf8 (fr_prefix reg)"

definition eligible :: "FpeRegistration \<Rightarrow> bool" where
  "eligible reg \<longleftrightarrow>
     check_eligibility (fr_value reg) (fr_prefix reg) (fr_alphabet reg) = Inr ()"

definition reg_body :: "FpeRegistration \<Rightarrow> string" where
  "reg_body reg = drop (length (fr_prefix reg)) (fr_value reg)"

lemma checked_pow_domain:
  "(case checked_pow_u64 r n of Some d \<Rightarrow> d | None \<Rightarrow> 2 ^ 64 - 1) < MIN_DOMAIN \<longleftrightarrow> r ^ n < 1000000"
  by (auto simp: checked_pow_u64_def MIN_DOMAIN_def)

lemma find_not_None: "List.find (\<lambda>c. \<not> P c) cs = None \<longleftrightarrow> list_all P cs"
  by (auto simp: find_None_iff list_all_iff)

lemma check_eligibility_ok_iff:
  "check_eligibility v p a = Inr () \<longleftrightarrow>
     (\<exists>body. v = p @ body \<and> is_ascii body \<and> \<not> list_ex is_whitespace (map byte_val body)
        \<and> list_all (contains a) (map byte_val body) \<and> length body < 2 ^ 32
        \<and> 1000000 \<le> radix a ^ length body)"
proof (cases "strip_prefix v p")
  case None
  then have "v \<noteq> p @ b" for b by auto
  with None show ?thesis by (simp add: check_eligibility_def)
next
  case (Some body)
  then have v: "v = p @ body" by (simp add: strip_prefix_Some)
  show ?thesis
  proof (cases "is_ascii body")
    case True
    show ?thesis
    proof (cases "List.find (\<lambda>c. \<not> contains a c) (map byte_val body)")
      case None
      then have "list_all (contains a) (map byte_val body)" by (simp only: find_not_None)
      with None show ?thesis
        by (simp add: check_eligibility_def v True ascii_str_chars [OF True] Let_def not_le
            checked_pow_domain)
    next
      case (Some c)
      then have "\<not> list_all (contains a) (map byte_val body)"
        by (metis find_not_None option.distinct(1))
      with Some show ?thesis
        by (simp add: check_eligibility_def v True ascii_str_chars [OF True])
    qed
  qed (simp add: check_eligibility_def v)
qed

lemma eligible_body:
  assumes "eligible reg"
  shows "fr_value reg = fr_prefix reg @ reg_body reg" "is_ascii (reg_body reg)"
    "\<forall>x \<in> set (str_chars (reg_body reg)). contains (fr_alphabet reg) x"
    "length (reg_body reg) < 2 ^ 32" "1000000 \<le> radix (fr_alphabet reg) ^ length (reg_body reg)"
proof -
  obtain body where b: "fr_value reg = fr_prefix reg @ body" "is_ascii body"
      "list_all (contains (fr_alphabet reg)) (map byte_val body)" "length body < 2 ^ 32"
      "1000000 \<le> radix (fr_alphabet reg) ^ length body"
    using assms unfolding eligible_def check_eligibility_ok_iff by blast
  then have "reg_body reg = body" by (simp add: reg_body_def)
  with b show "fr_value reg = fr_prefix reg @ reg_body reg" "is_ascii (reg_body reg)"
    "\<forall>x \<in> set (str_chars (reg_body reg)). contains (fr_alphabet reg) x"
    "length (reg_body reg) < 2 ^ 32" "1000000 \<le> radix (fr_alphabet reg) ^ length (reg_body reg)"
    by (simp_all add: ascii_str_chars list_all_iff)
qed

section \<open>Numerals\<close>

text \<open>Over a well-formed alphabet the two conversions are total and inverse to each other.\<close>

lemma body_to_numerals_total:
  assumes "wf_alphabet a" "\<forall>x \<in> set (str_chars body). contains a x"
  shows "\<exists>ns. body_to_numerals body a = Some ns \<and> length ns = length (str_chars body)
    \<and> numerals_below (radix a) ns \<and> numerals_to_body ns a = Some (string_of_chars (str_chars body))"
proof -
  obtain "is" where i: "mapo (index_of a) (str_chars body) = Some is"
      "length is = length (str_chars body)" "\<forall>i \<in> set is. i < radix a"
      "mapo (symbol_at a) is = Some (str_chars body)"
    using symtab.indices_total [OF assms] by blast
  let ?ns = "map word_of_nat is :: u16 list"
  have small: "i < 2 ^ 16 \<and> unat (word_of_nat i :: u16) = i" if "i \<in> set is" for i
  proof -
    have "i < 122" using i(3) that wf_alphabet_card [OF assms(1)] by force
    then show ?thesis by (simp add: unat_of_nat)
  qed
  have "body_to_numerals body a = Some ?ns"
    using i(1) small unfolding body_to_numerals_def mapo_Some_iff
    by (auto simp: list_all2_conv_all_nth)
  moreover have "map (\<lambda>n. symbol_at a (unat n)) ?ns = map (symbol_at a) is"
    using small by simp
  then have "mapo (\<lambda>n. symbol_at a (unat n)) ?ns = mapo (symbol_at a) is"
    by (simp only: mapo_def)
  then have "numerals_to_body ?ns a = Some (string_of_chars (str_chars body))"
    using i(4) by (simp add: numerals_to_body_def)
  ultimately show ?thesis using i(2,3) small by (auto simp: numerals_below_def)
qed

lemma numerals_to_body_total:
  assumes "wf_alphabet a" "numerals_below (radix a) ns"
  shows "\<exists>body. numerals_to_body ns a = Some body \<and> is_ascii body \<and> length body = length ns
    \<and> (\<forall>x \<in> set (str_chars body). contains a x) \<and> body_to_numerals body a = Some ns"
proof -
  have "\<forall>i \<in> set (map unat ns). i < radix a" using assms(2) by (auto simp: numerals_below_def)
  from symtab.symbols_total [OF assms(1) this]
  obtain cs where cs: "mapo (symbol_at a) (map unat ns) = Some cs" "length cs = length ns"
      "\<forall>x \<in> set cs. contains a x" "\<forall>x \<in> set cs. x < 128" "mapo (index_of a) cs = Some (map unat ns)"
    by auto
  have small: "list_all (\<lambda>x. x < 128) cs" using cs(4) by (simp add: list_all_iff)
  let ?b = "string_of_chars cs"
  have b: "?b = map char_of cs" "is_ascii ?b" by (rule string_of_chars_small [OF small])+
  have chars: "str_chars ?b = cs"
    using small b by (auto simp: ascii_str_chars list_all_iff intro!: map_idI)
  have "mapo (\<lambda>n. symbol_at a (unat n)) ns = mapo (symbol_at a) (map unat ns)"
    by (simp add: mapo_def comp_def)
  then have "numerals_to_body ns a = Some ?b" using cs(1) by (simp add: numerals_to_body_def)
  moreover have "body_to_numerals ?b a = Some ns"
    using cs(5) unfolding body_to_numerals_def mapo_Some_iff chars
    by (auto simp: list_all2_conv_all_nth unsigned_less [where 'b = 16, simplified])
  ultimately show ?thesis using b cs(2,3) chars by auto
qed

section \<open>Scrubbing\<close>

lemma fpe_new_key: "hkdf_contract c \<Longrightarrow> \<exists>t. fpe_new c p = Some t \<and> length (ff1_key t) = 32"
proof -
  assume "hkdf_contract c"
  then obtain k where "hkdf_sha256_expand c (vault_key p) FF1_KEY_INFO 32 = Some k" "length k = 32"
    by (rule hkdf_expand_ok [of c 32]) (simp add: hkdf_max_len_def)
  then show ?thesis by (simp add: fpe_new_def FF1_KEY_LEN_def)
qed

text \<open>The whole effect of scrubbing an eligible registration, in one lemma.\<close>

lemma fpe_scrub_eligible:
  assumes "ff1_contract c" "length (ff1_key t) = 32" "wf_registration reg" "eligible reg"
  obtains ns ct body where
    "body_to_numerals (reg_body reg) (fr_alphabet reg) = Some ns"
    "numerals_to_body ns (fr_alphabet reg) = Some (reg_body reg)"
    "ff1_domain (radix (fr_alphabet reg)) ns"
    "ff1_encrypt c (ff1_key t) (radix (fr_alphabet reg)) (fr_tweak reg) ns = Some ct"
    "ff1_decrypt c (ff1_key t) (radix (fr_alphabet reg)) (fr_tweak reg) ct = Some ns"
    "body_to_numerals body (fr_alphabet reg) = Some ct"
    "numerals_to_body ct (fr_alphabet reg) = Some body"
    "is_ascii body" "length body = length (reg_body reg)"
    "\<forall>x \<in> set (str_chars body). contains (fr_alphabet reg) x"
    "fpe_scrub c t reg = Some (Inr (fr_prefix reg @ body))"
proof -
  let ?a = "fr_alphabet reg"
  note el = eligible_body [OF assms(4)]
  have wf: "wf_alphabet ?a" using assms(3) by (simp add: wf_registration_def)
  have rad: "2 \<le> radix ?a" "radix ?a \<le> 65535"
    using wf_radix [OF wf] wf_alphabet_card [OF wf] by simp_all
  obtain ns where ns: "body_to_numerals (reg_body reg) ?a = Some ns"
      "length ns = length (str_chars (reg_body reg))" "numerals_below (radix ?a) ns"
      "numerals_to_body ns ?a = Some (string_of_chars (str_chars (reg_body reg)))"
    using body_to_numerals_total [OF wf el(3)] by blast
  have unchanged: "string_of_chars (str_chars (reg_body reg)) = reg_body reg"
    and len: "length ns = length (reg_body reg)"
    using el(2) ns(2) by (simp_all add: str_simps)
  have dom: "ff1_domain (radix ?a) ns"
    using rad ns(3) len el(4,5) by (simp add: ff1_domain_def)
  have "\<exists>ys. ff1_encrypt c (ff1_key t) (radix ?a) (fr_tweak reg) ns = Some ys \<and> length ys = length ns
      \<and> numerals_below (radix ?a) ys \<and> ff1_decrypt c (ff1_key t) (radix ?a) (fr_tweak reg) ys = Some ns"
    using assms(1,2) dom unfolding ff1_contract_def by blast
  then obtain ct where ct: "ff1_encrypt c (ff1_key t) (radix ?a) (fr_tweak reg) ns = Some ct"
      "length ct = length ns" "numerals_below (radix ?a) ct"
      "ff1_decrypt c (ff1_key t) (radix ?a) (fr_tweak reg) ct = Some ns"
    by blast
  have new: "ff1_new c (ff1_key t) (radix ?a)"
    using assms(1,2) rad unfolding ff1_contract_def by blast
  obtain body where body: "numerals_to_body ct ?a = Some body" "is_ascii body"
      "length body = length ct" "\<forall>x \<in> set (str_chars body). contains ?a x"
      "body_to_numerals body ?a = Some ct"
    using numerals_to_body_total [OF wf ct(3)] by blast
  have "fpe_scrub c t reg = Some (Inr (fr_prefix reg @ body))"
    using assms(4) el(1) ns(1) new ct(1) body(1)
    by (simp add: fpe_scrub_def eligible_def)
  from that [OF ns(1) _ dom ct(1,4) body(5,1,2) _ body(4) this] show thesis
    using ns(4) unchanged body(3) ct(2) len by simp
qed

lemma fpe_scrub_ineligible:
  "\<not> eligible reg \<Longrightarrow> \<exists>e. fpe_scrub c t reg = Some (Inl (Eligibility e))"
  by (auto simp: eligible_def fpe_scrub_def split: sum.splits)

section \<open>Restoring\<close>

lemma contains_ascii: "wf_alphabet a \<Longrightarrow> contains a x \<Longrightarrow> x < 128"
  using symtab.member_index [of a x] symtab.symbol_index [of a x] symtab.symbol_ascii [of a _ x]
  by blast

text \<open>The loop body accepts a candidate exactly when scrubbing the registration produces it.\<close>

lemma try_restore_one_spec:
  assumes "ff1_contract c" "length (ff1_key t) = 32" "wf_registration reg" "eligible reg"
    and "is_utf8 candidate"
  shows "try_restore_one c t candidate reg =
    Some (if fpe_scrub c t reg = Some (Inr candidate) then Some (fr_value reg) else None)"
proof -
  let ?a = "fr_alphabet reg" and ?p = "fr_prefix reg" and ?k = "ff1_key t"
  let ?r = "radix ?a" and ?tw = "fr_tweak reg"
  have wf: "wf_alphabet ?a" and up: "is_utf8 ?p" using assms(3) by (auto simp: wf_registration_def)
  note el = eligible_body [OF assms(4)]
  obtain ns ct body where sc: "body_to_numerals (reg_body reg) ?a = Some ns"
      "numerals_to_body ns ?a = Some (reg_body reg)" "ff1_domain ?r ns"
      "ff1_encrypt c ?k ?r ?tw ns = Some ct" "ff1_decrypt c ?k ?r ?tw ct = Some ns"
      "body_to_numerals body ?a = Some ct" "numerals_to_body ct ?a = Some body"
      "is_ascii body" "length body = length (reg_body reg)"
      "\<forall>x \<in> set (str_chars body). contains ?a x" "fpe_scrub c t reg = Some (Inr (?p @ body))"
    using assms(1-4) by (rule fpe_scrub_eligible)
  have vlen: "length (fr_value reg) - length ?p = length body" using el(1) sc(9) by simp
  show ?thesis
  proof (cases "strip_prefix candidate ?p")
    case None
    then have "candidate \<noteq> ?p @ body" by auto
    with None sc(11) show ?thesis by (simp add: try_restore_one_def)
  next
    case (Some b)
    then have cand: "candidate = ?p @ b" by (simp add: strip_prefix_Some)
    show ?thesis
    proof (cases "length b = length body \<and> list_all (contains ?a) (str_chars b)")
      case False
      then have "b \<noteq> body" using sc(10) by (auto simp: list_all_iff)
      with False Some cand sc(11) vlen show ?thesis by (auto simp: try_restore_one_def)
    next
      case True
      then have all: "\<forall>x \<in> set (str_chars b). contains ?a x" by (simp add: list_all_iff)
      have "is_utf8 b" using assms(5) up by (simp add: cand is_utf8_append_cancel)
      then have asc: "is_ascii b" using all contains_ascii [OF wf] by (blast intro: utf8_small_ascii)
      obtain ms where ms: "body_to_numerals b ?a = Some ms" "length ms = length b"
          "numerals_below ?r ms" "numerals_to_body ms ?a = Some b"
        using body_to_numerals_total [OF wf all] asc by (auto simp: str_simps)
      have "ff1_domain ?r ms"
        using sc(3,9) ms(2,3) True el(4,5) by (simp add: ff1_domain_def)
      then obtain xs where xs: "ff1_decrypt c ?k ?r ?tw ms = Some xs" "numerals_below ?r xs"
          "ff1_encrypt c ?k ?r ?tw xs = Some ms"
        using assms(1,2) unfolding ff1_contract_def by blast
      obtain pb where pb: "numerals_to_body xs ?a = Some pb" "body_to_numerals pb ?a = Some xs"
        using numerals_to_body_total [OF wf xs(2)] by blast
      have "?p @ pb = fr_value reg \<longleftrightarrow> pb = reg_body reg" by (subst el(1)) simp
      also have "\<dots> \<longleftrightarrow> xs = ns" using pb sc(1,2) by auto
      also have "\<dots> \<longleftrightarrow> ms = ct" using xs sc(4,5) by auto
      also have "\<dots> \<longleftrightarrow> b = body" using ms(1,4) sc(6,7) by auto
      finally have iff: "?p @ pb = fr_value reg \<longleftrightarrow> b = body" .
      have "ff1_new c ?k ?r"
        using assms(1,2) wf_radix [OF wf] wf_alphabet_card [OF wf] unfolding ff1_contract_def by simp
      with Some True vlen ms(1) xs(1) pb(1) iff sc(11) cand show ?thesis
        by (simp add: try_restore_one_def)
    qed
  qed
qed

lemma fpe_try_restore_find:
  assumes "ff1_contract c" "length (ff1_key t) = 32" "\<forall>r \<in> set regs. wf_registration r \<and> eligible r"
    and "is_utf8 candidate"
  shows "fpe_try_restore c t candidate regs =
    Some (map_option fr_value (List.find (\<lambda>r. fpe_scrub c t r = Some (Inr candidate)) regs))"
  using assms(3)
  by (induction regs) (simp_all add: try_restore_one_spec [OF assms(1,2) _ _ assms(4)])

text \<open>Whatever the registrations are, only a registered value is ever returned.\<close>

lemma fpe_try_restore_sound:
  "fpe_try_restore c t candidate regs = Some (Some v) \<Longrightarrow> v \<in> fr_value ` set regs"
  by (induction regs)
    (auto simp: try_restore_one_def split: option.splits if_splits Option.bind_splits)

section \<open>Properties\<close>

text \<open>A registration and a tokenizer to instantiate the properties with.\<close>

definition sample_reg :: FpeRegistration where
  "sample_reg = \<lparr>fr_label = ''anthropic'', fr_value = ''sk-123456'',
     fr_tweak = replicate 16 7, fr_alphabet = DIGITS, fr_prefix = ''sk-''\<rparr>"

definition sample_tokenizer :: FpeTokenizer where
  "sample_tokenizer = \<lparr>ff1_key = replicate 32 1\<rparr>"

lemma sample_facts:
  "wf_registration sample_reg" "eligible sample_reg" "length (ff1_key sample_tokenizer) = 32"
proof -
  show "wf_registration sample_reg"
    by (simp add: wf_registration_def sample_reg_def named_constants_wf)
  have digits: "str_chars ''0123456789'' = [48, 49, 50, 51, 52, 53, 54, 55, 56, 57]"
    by (subst ascii_str_chars) simp_all
  have "list_all (contains DIGITS) (map byte_val ''123456'')" and "radix DIGITS = 10"
    by (simp_all add: DIGITS_def alphabet_unchecked_def contains_def radix_def digits)
  then show "eligible sample_reg" unfolding eligible_def check_eligibility_ok_iff
    by (intro exI [of _ "''123456''"]) (simp add: sample_reg_def is_whitespace_def)
  show "length (ff1_key sample_tokenizer) = 32" by (simp add: sample_tokenizer_def)
qed

lemma sample_scrub:
  "fpe_scrub ref_crates sample_tokenizer sample_reg = Some (Inr ''sk-234567'')"
proof -
  have "body_to_numerals ''123456'' DIGITS = Some [1, 2, 3, 4, 5, 6]"
    by (simp add: body_to_numerals_def str_simps DIGITS_def alphabet_unchecked_def index_of_def
        utf8_scalar_def utf8_tail_len_def)
  moreover have "numerals_to_body [2, 3, 4, 5, 6, 7] DIGITS = Some ''234567''"
    by (simp add: numerals_to_body_def DIGITS_def alphabet_unchecked_def symbol_at_def
        string_of_chars_def utf8_encode_def char_of_def bit_0)
  moreover have "rotate_numerals 1 10 [1, 2, 3, 4, 5, 6] = [2, 3, 4, 5, 6, 7]"
    by (simp add: rotate_numerals_def)
  moreover have "radix DIGITS = 10" by (simp add: DIGITS_def alphabet_unchecked_def radix_def)
  ultimately show ?thesis
    using sample_facts(2)
    by (simp add: fpe_scrub_def eligible_def sample_reg_def ref_crates_def numerals_below_def
        strip_prefix_def starts_with_def)
qed

text \<open>
  Property (C11). \<open>FpeTokenizer::try_restore\<close> is the inverse look-up of \<open>FpeTokenizer::scrub\<close>: over
  eligible registrations with well-formed alphabets it never panics and returns the value of the
  first registration whose fake is the candidate, and nothing when there is none.
\<close>

theorem fpe_restore_inverts_scrub:
  assumes "ff1_contract c" "length (ff1_key t) = 32" "is_utf8 candidate"
    and "\<forall>r \<in> set regs. wf_registration r \<and> eligible r"
  shows "fpe_try_restore c t candidate regs =
    Some (map_option fr_value (List.find (\<lambda>r. fpe_scrub c t r = Some (Inr candidate)) regs))"
  using assms(1,2,4,3) by (rule fpe_try_restore_find)

theorem fpe_restore_inverts_scrub_witness:
  "fpe_try_restore ref_crates sample_tokenizer ''sk-234567'' [sample_reg] =
     Some (Some ''sk-123456'')"
  using fpe_restore_inverts_scrub
    [of ref_crates sample_tokenizer "''sk-234567''" "[sample_reg]"]
  by (simp add: ref_contracts sample_facts sample_scrub) (simp add: sample_reg_def)

text \<open>
  Property (C12). \<open>FpeTokenizer::scrub\<close> preserves the format: an eligible value becomes a fake with
  the same literal prefix, the same length and a body over the registration's alphabet; an
  ineligible value is refused with its eligibility error, and neither case panics.
\<close>

theorem fpe_scrub_format:
  assumes "ff1_contract c" "length (ff1_key t) = 32" "wf_registration reg"
  shows "if eligible reg then
      \<exists>body. fpe_scrub c t reg = Some (Inr (fr_prefix reg @ body))
        \<and> length (fr_prefix reg @ body) = length (fr_value reg) \<and> is_ascii body
        \<and> (\<forall>x \<in> set (str_chars body). contains (fr_alphabet reg) x)
    else \<exists>e. fpe_scrub c t reg = Some (Inl (Eligibility e))
        \<and> check_eligibility (fr_value reg) (fr_prefix reg) (fr_alphabet reg) = Inl e"
proof (cases "eligible reg")
  case True
  obtain body where "fpe_scrub c t reg = Some (Inr (fr_prefix reg @ body))"
      "length body = length (reg_body reg)" "is_ascii body"
      "\<forall>x \<in> set (str_chars body). contains (fr_alphabet reg) x"
    by (rule fpe_scrub_eligible [OF assms True])
  with True eligible_body(1) [OF True] show ?thesis by (metis length_append)
next
  case False
  then show ?thesis by (auto simp: eligible_def fpe_scrub_def split: sum.splits)
qed

theorem fpe_scrub_format_witness:
  "\<exists>body. ''sk-234567'' = fr_prefix sample_reg @ body \<and> is_ascii body
     \<and> (\<forall>x \<in> set (str_chars body). contains (fr_alphabet sample_reg) x)"
  using fpe_scrub_format [of ref_crates sample_tokenizer sample_reg] sample_facts
  by (auto simp: ref_contracts sample_scrub)

text \<open>
  What \<open>FpeTokenizer::scrub\<close> produces is restored: if a registration of the set
  produced the fake and every registration producing it has the same value, then
  \<open>try_restore\<close> over the set returns that value.
\<close>

theorem fpe_round_trip:
  assumes "ff1_contract c" "length (ff1_key t) = 32"
    and "\<forall>r \<in> set regs. wf_registration r \<and> eligible r"
    and "reg \<in> set regs" "fpe_scrub c t reg = Some (Inr fake)"
    and "\<forall>r \<in> set regs. fpe_scrub c t r = Some (Inr fake) \<longrightarrow> fr_value r = fr_value reg"
  shows "fpe_try_restore c t fake regs = Some (Some (fr_value reg))"
proof -
  have reg: "wf_registration reg" "eligible reg" using assms(3,4) by auto
  obtain body where "fpe_scrub c t reg = Some (Inr (fr_prefix reg @ body))" "is_ascii body"
    by (rule fpe_scrub_eligible [OF assms(1,2) reg])
  then have utf: "is_utf8 fake"
    using reg(1) assms(5) by (simp add: wf_registration_def is_utf8_append_cancel)
  let ?P = "\<lambda>r. fpe_scrub c t r = Some (Inr fake)"
  obtain r where r: "List.find ?P regs = Some r"
    using assms(4,5) find_None_iff [of ?P regs] by (cases "List.find ?P regs") auto
  then have "r \<in> set regs" "?P r" by (auto simp: find_Some_iff)
  with assms(6) r show ?thesis
    by (simp add: fpe_try_restore_find [OF assms(1,2,3) utf])
qed

theorem fpe_round_trip_witness:
  "fpe_try_restore ref_crates sample_tokenizer ''sk-234567'' [sample_reg] =
     Some (Some (fr_value sample_reg))"
  by (rule fpe_round_trip [OF ref_ff1 sample_facts(3) _ _ sample_scrub])
    (simp_all add: sample_facts)

text \<open>
  \<open>check_eligibility\<close> accepts exactly the values made of the prefix and an ASCII
  body without whitespace, over the alphabet, shorter than \<open>2 ^ 32\<close> and with at least a million
  possible fakes; the saturating \<open>checked_pow\<close> never turns a large domain into a refusal.
\<close>

theorem check_eligibility_spec:
  "check_eligibility v p a = Inr () \<longleftrightarrow>
     (\<exists>body. v = p @ body \<and> is_ascii body \<and> \<not> list_ex is_whitespace (map byte_val body)
        \<and> list_all (contains a) (map byte_val body) \<and> length body < 2 ^ 32
        \<and> 1000000 \<le> radix a ^ length body)"
  by (rule check_eligibility_ok_iff)

end
