(* ===== verification/Mac.thy ===== *)
theory Mac
  imports Crates Alphabet
begin

text \<open>
  \<open>crates/invisibool-engine/src/tokenizer/mac.rs\<close>: MAC-tagged fakes, a pseudo-random body followed
  by \<open>K\<close> symbols of an HMAC over it. Every routine that can reach an \<open>expect\<close> or a remainder by
  zero returns a \<open>run\<close>; over a well-formed alphabet the only panic left is the 8160-byte ceiling
  of HKDF in \<open>derive_body\<close>.
\<close>

section \<open>Operations\<close>

definition hmac_sha256 :: "crates \<Rightarrow> u8 list \<Rightarrow> u8 list \<Rightarrow> u8 list" where
  "hmac_sha256 c key message = hmac_sha256_mac c key message"

unbundle bit_operations_syntax

text \<open>The first eight bytes as a big-endian \<open>u64\<close>.\<close>

definition be_u64 :: "u8 list \<Rightarrow> u64" where
  "be_u64 bs = foldl (\<lambda>value b. push_bit 8 value OR ucast b) 0 (take 8 bs)"

fun emit_symbols :: "alphabet \<Rightarrow> nat \<Rightarrow> nat \<Rightarrow> rchar list run" where
  "emit_symbols a 0 v = Some []"
| "emit_symbols a (Suc k) v =
     do {
       s \<leftarrow> symbol_at a (v mod radix a);
       ss \<leftarrow> emit_symbols a k (v div radix a);
       Some (s # ss)
     }"

definition encode_to_alphabet :: "u8 list \<Rightarrow> alphabet \<Rightarrow> string run" where
  "encode_to_alphabet mac_bytes a =
     (let k = mac_tail_len a in
      if 2 ^ 32 \<le> k then panic
      else do {
        modulus \<leftarrow> checked_pow_u64 (radix a) k;
        symbols \<leftarrow> emit_symbols a k (unat (be_u64 mac_bytes) mod modulus);
        Some (string_of_chars (rev symbols))
      })"

definition mac_tail :: "crates \<Rightarrow> u8 list \<Rightarrow> u8 list \<Rightarrow> alphabet \<Rightarrow> string run" where
  "mac_tail c key body a = encode_to_alphabet (hmac_sha256 c key body) a"

definition verify :: "crates \<Rightarrow> u8 list \<Rightarrow> string \<Rightarrow> alphabet \<Rightarrow> bool run" where
  "verify c key candidate a =
     (if \<not> is_ascii candidate then Some False
      else let k = mac_tail_len a in
        if length candidate < k then Some False
        else let split = length candidate - k in
          do {
            body \<leftarrow> str_slice candidate 0 split;
            claimed_tail \<leftarrow> str_slice_from candidate split;
            if \<not> list_all (contains a) (str_chars claimed_tail) then Some False
            else do {
              expected_tail \<leftarrow> mac_tail c key (as_bytes body) a;
              Some (expected_tail = claimed_tail)
            }
          })"

definition derive_body ::
  "crates \<Rightarrow> u8 list \<Rightarrow> string \<Rightarrow> nat \<Rightarrow> alphabet \<Rightarrow> string run" where
  "derive_body c key real_value body_len a =
     do {
       out \<leftarrow> hkdf_sha256_expand c key (as_bytes real_value) body_len;
       symbols \<leftarrow> mapo (\<lambda>b. if radix a = 0 then panic else symbol_at a (unat b mod radix a)) out;
       Some (string_of_chars symbols)
     }"

definition make_macfake ::
  "crates \<Rightarrow> u8 list \<Rightarrow> string \<Rightarrow> alphabet \<Rightarrow> string option run" where
  "make_macfake c key real_value a =
     (let k = mac_tail_len a; n = length real_value in
      if n \<le> k then Some None
      else do {
        body \<leftarrow> derive_body c key real_value (n - k) a;
        tail \<leftarrow> mac_tail c key (as_bytes body) a;
        Some (Some (body @ tail))
      })"

section \<open>The tail encoding\<close>

text \<open>Over the alphabet: an ASCII string of alphabet symbols.\<close>

definition over_alphabet :: "alphabet \<Rightarrow> string \<Rightarrow> bool" where
  "over_alphabet a s \<longleftrightarrow> is_ascii s \<and> list_all (contains a) (str_chars s)"

lemma over_alphabet_append:
  "over_alphabet a (s @ t) \<longleftrightarrow> over_alphabet a s \<and> over_alphabet a t"
  by (auto simp: over_alphabet_def str_simps)

lemma symbols_over_alphabet:
  assumes "wf_alphabet a" "mapo (symbol_at a) is = Some cs"
  shows "over_alphabet a (string_of_chars cs) \<and> length (string_of_chars cs) = length is
    \<and> str_chars (string_of_chars cs) = cs"
proof -
  have "\<forall>i \<in> set is. i < radix a"
    using assms(2) mapo_None_iff [of "symbol_at a" "is"]
    by (fastforce simp: symbol_at_def radix_def split: if_splits)
  from symtab.symbols_total [OF assms(1) this] assms(2)
  have cs: "length cs = length is" "\<forall>c \<in> set cs. contains a c" "list_all (\<lambda>c. c < 128) cs"
    by (auto simp: list_all_iff)
  note small = string_of_chars_small [OF cs(3)]
  have "list_all is_scalar cs" using cs(3) by (auto simp: list_all_iff is_scalar_def)
  then have "str_chars (string_of_chars cs) = cs"
    using str_chars_of_chars [of cs "[]"] by (simp add: str_chars_def)
  with cs small show ?thesis by (simp add: over_alphabet_def list_all_iff)
qed

text \<open>The loop emits the base-\<open>radix\<close> digits of its argument, least significant first.\<close>

fun digits_of :: "nat \<Rightarrow> nat \<Rightarrow> nat \<Rightarrow> nat list" where
  "digits_of r 0 v = []"
| "digits_of r (Suc k) v = v mod r # digits_of r k (v div r)"

lemma length_digits_of [simp]: "length (digits_of r k v) = k"
  by (induction k arbitrary: v) auto

lemma digits_of_less: "0 < r \<Longrightarrow> d \<in> set (digits_of r k v) \<Longrightarrow> d < r"
  by (induction k arbitrary: v) auto

lemma digits_of_value:
  "v < r ^ k \<Longrightarrow> foldr (\<lambda>d n. n * r + d) (digits_of r k v) 0 = v"
proof (induction k arbitrary: v)
  case (Suc k)
  then have "v div r < r ^ k" by (cases "r = 0") (auto simp: div_less_iff_less_mult mult.commute)
  with Suc.IH show ?case by simp
qed simp

lemma emit_symbols_digits: "emit_symbols a k v = mapo (symbol_at a) (digits_of (radix a) k v)"
  by (induction k arbitrary: v) (auto split: option.splits Option.bind_splits)

lemma mac_tail_len_small: "wf_alphabet a \<Longrightarrow> mac_tail_len a < 2 ^ 32"
  using mac_tail_len_bounds(2) [OF wf_radix, of a 32] power_mono [OF wf_radix, of a 32]
  by (force simp: not_less)

lemma mac_modulus:
  assumes "wf_alphabet a"
  shows "checked_pow_u64 (radix a) (mac_tail_len a) = Some (radix a ^ mac_tail_len a)"
proof -
  obtain k where k: "mac_tail_len a = Suc k"
    using mac_tail_len_pos [OF wf_radix [OF assms]] by (cases "mac_tail_len a") auto
  have "radix a ^ k < 2 ^ 32" using mac_tail_len_bounds(2) [OF wf_radix [OF assms], of k] k by simp
  then have "radix a * radix a ^ k \<le> 122 * 2 ^ 32"
    using wf_alphabet_card [OF assms] by (intro mult_mono) auto
  with k show ?thesis by (simp add: checked_pow_u64_def)
qed

lemma encode_to_alphabet_ok:
  assumes "wf_alphabet a"
  obtains cs where "encode_to_alphabet bs a = Some (string_of_chars cs)"
    "mapo (symbol_at a) (rev (digits_of (radix a) (mac_tail_len a)
       (unat (be_u64 bs) mod radix a ^ mac_tail_len a))) = Some cs"
proof -
  let ?ds = "digits_of (radix a) (mac_tail_len a) (unat (be_u64 bs) mod radix a ^ mac_tail_len a)"
  have r: "0 < radix a" using wf_radix [OF assms] by simp
  have "\<forall>i \<in> set ?ds. i < radix a" using digits_of_less [OF r] by blast
  from symtab.symbols_total [OF assms this]
  obtain cs where cs: "mapo (symbol_at a) ?ds = Some cs" by blast
  then have "encode_to_alphabet bs a = Some (string_of_chars (rev cs))"
    using mac_tail_len_small [OF assms]
    by (simp add: encode_to_alphabet_def Let_def mac_modulus [OF assms] emit_symbols_digits)
  moreover have "mapo (symbol_at a) (rev ?ds) = Some (rev cs)"
    using cs by (simp add: mapo_Some_iff)
  ultimately show thesis by (rule that)
qed

section \<open>Fakes\<close>

lemma mac_tail_ok:
  assumes "wf_alphabet a"
  obtains t where "mac_tail c key body a = Some t" "over_alphabet a t" "length t = mac_tail_len a"
proof -
  obtain cs where "encode_to_alphabet (hmac_sha256 c key body) a = Some (string_of_chars cs)"
    "mapo (symbol_at a) (rev (digits_of (radix a) (mac_tail_len a)
       (unat (be_u64 (hmac_sha256 c key body)) mod radix a ^ mac_tail_len a))) = Some cs"
    by (rule encode_to_alphabet_ok [OF assms])
  with symbols_over_alphabet [OF assms this(2)] that show thesis by (simp add: mac_tail_def)
qed

lemma derive_body_ok:
  assumes "wf_alphabet a" "hkdf_contract c" "n \<le> hkdf_max_len"
  obtains b where "derive_body c key v n a = Some b" "over_alphabet a b" "length b = n"
proof -
  obtain out where out: "hkdf_sha256_expand c key (as_bytes v) n = Some out" "length out = n"
    using assms(2,3) by (rule hkdf_expand_ok)
  have r: "0 < radix a" using wf_radix [OF assms(1)] by simp
  have "\<forall>i \<in> set (map (\<lambda>b. unat b mod radix a) out). i < radix a" using r by simp
  from symtab.symbols_total [OF assms(1) this]
  obtain cs where cs: "mapo (symbol_at a) (map (\<lambda>b. unat b mod radix a) out) = Some cs" by blast
  then have "derive_body c key v n a = Some (string_of_chars cs)"
    using out(1) r by (simp add: derive_body_def mapo_def comp_def)
  with symbols_over_alphabet [OF assms(1) cs] out(2) that show thesis by simp
qed

text \<open>Verification accepts exactly an ASCII body followed by its own tail, and never panics.\<close>

lemma verify_char:
  assumes "wf_alphabet a"
  shows "verify c key candidate a =
    Some (\<exists>body. is_ascii body \<and>
      (\<exists>t. mac_tail c key (as_bytes body) a = Some t \<and> candidate = body @ t))"
proof (cases "is_ascii candidate \<and> mac_tail_len a \<le> length candidate")
  case False
  have "\<not> (mac_tail c key (as_bytes body) a = Some t \<and> candidate = body @ t)" if "is_ascii body"
    for body t
  proof
    assume t: "mac_tail c key (as_bytes body) a = Some t \<and> candidate = body @ t"
    obtain u where "mac_tail c key (as_bytes body) a = Some u" "over_alphabet a u"
        "length u = mac_tail_len a"
      by (rule mac_tail_ok [OF assms])
    with t that False show False by (simp add: over_alphabet_def)
  qed
  with False show ?thesis by (auto simp: verify_def Let_def)
next
  case True
  let ?n = "length candidate - mac_tail_len a"
  let ?b = "take ?n candidate" and ?t = "drop ?n candidate"
  obtain u where u: "mac_tail c key (as_bytes ?b) a = Some u" "over_alphabet a u"
      "length u = mac_tail_len a"
    by (rule mac_tail_ok [OF assms])
  have "verify c key candidate a = Some (list_all (contains a) (str_chars ?t) \<and> u = ?t)"
    using True u(1) by (auto simp: verify_def Let_def str_simps)
  also have "\<dots> = Some (u = ?t)" using u(2) by (auto simp: over_alphabet_def)
  also have "u = ?t \<longleftrightarrow> (\<exists>body. is_ascii body \<and>
      (\<exists>t. mac_tail c key (as_bytes body) a = Some t \<and> candidate = body @ t))" (is "?L \<longleftrightarrow> ?R")
  proof
    assume ?L
    then show ?R using u(1) True by (metis append_take_drop_id is_ascii_take)
  next
    assume ?R
    then obtain body t where bt: "mac_tail c key (as_bytes body) a = Some t" "candidate = body @ t"
      by blast
    obtain w where "mac_tail c key (as_bytes body) a = Some w" "length w = mac_tail_len a"
      by (rule mac_tail_ok [OF assms])
    with bt have "length t = mac_tail_len a" by simp
    with bt u(1) show ?L by simp
  qed
  finally show ?thesis .
qed

lemma make_macfake_ok:
  assumes "wf_alphabet a" "hkdf_contract c" "mac_tail_len a < length v"
    and "length v \<le> mac_tail_len a + hkdf_max_len"
  obtains f where "make_macfake c key v a = Some (Some f)" "length f = length v"
    "over_alphabet a f" "verify c key f a = Some True"
proof -
  let ?n = "length v - mac_tail_len a"
  have "?n \<le> hkdf_max_len" using assms(4) by simp
  from derive_body_ok [OF assms(1,2) this]
  obtain b where b: "derive_body c key v ?n a = Some b" "over_alphabet a b" "length b = ?n"
    by metis
  obtain t where t: "mac_tail c key (as_bytes b) a = Some t" "over_alphabet a t"
      "length t = mac_tail_len a"
    by (rule mac_tail_ok [OF assms(1)])
  have "make_macfake c key v a = Some (Some (b @ t))"
    using assms(3) b(1) t(1) by (simp add: make_macfake_def Let_def)
  moreover have "verify c key (b @ t) a = Some True"
    using b(2) t(1) by (auto simp: verify_char [OF assms(1)] over_alphabet_def)
  ultimately show thesis
    using that b t assms(3) by (simp add: over_alphabet_append)
qed

lemma make_macfake_short: "length v \<le> mac_tail_len a \<Longrightarrow> make_macfake c key v a = Some None"
  by (simp add: make_macfake_def)

lemma make_macfake_long:
  "hkdf_contract c \<Longrightarrow> mac_tail_len a + hkdf_max_len < length v \<Longrightarrow> make_macfake c key v a = panic"
  by (simp add: make_macfake_def derive_body_def hkdf_expand_too_long)

lemma BASE62_tail: "mac_tail_len BASE62 = 6"
proof -
  have r: "radix BASE62 = 62" by (simp add: BASE62_def alphabet_unchecked_def radix_def)
  show ?thesis by (simp add: mac_tail_len_code r find_Some_iff upt_conv_Cons)
qed

section \<open>Properties\<close>

text \<open>
  Property (C18). \<open>make_macfake\<close> by the length of the value: up to \<open>K\<close> bytes there is no fake; up to
  \<open>K + 8160\<close> bytes the fake has the value's length, consists of alphabet symbols and passes
  \<open>verify\<close> under the same key; above that the HKDF ceiling makes the call panic.
\<close>

theorem make_macfake_spec:
  assumes "wf_alphabet a" "hkdf_contract c"
  shows "if length v \<le> mac_tail_len a then make_macfake c key v a = Some None
    else if length v \<le> mac_tail_len a + hkdf_max_len then
      \<exists>f. make_macfake c key v a = Some (Some f) \<and> length f = length v \<and> over_alphabet a f
        \<and> verify c key f a = Some True
    else make_macfake c key v a = panic"
proof (cases "length v \<le> mac_tail_len a \<or> mac_tail_len a + hkdf_max_len < length v")
  case True
  then show ?thesis using make_macfake_short make_macfake_long [OF assms(2)] by auto
next
  case False
  then obtain f where "make_macfake c key v a = Some (Some f)" "length f = length v"
      "over_alphabet a f" "verify c key f a = Some True"
    using make_macfake_ok [OF assms] by (metis not_le_imp_less not_less)
  with False show ?thesis by auto
qed

theorem make_macfake_spec_witness:
  "make_macfake ref_crates [] (replicate 8167 CHR ''x'') BASE62 = panic
   \<and> (\<exists>f. make_macfake ref_crates [] ''my passphrase'' BASE62 = Some (Some f) \<and> length f = 13
        \<and> verify ref_crates [] f BASE62 = Some True)"
  using make_macfake_spec [OF named_constants_wf(1) ref_digests(3), of "''my passphrase''" "[]"]
    make_macfake_spec [OF named_constants_wf(1) ref_digests(3), of "replicate 8167 CHR ''x''" "[]"]
  by (auto simp: BASE62_tail hkdf_max_len_def)

text \<open>
  \<open>verify\<close> never panics and accepts exactly the strings that are an ASCII body
  followed by the MAC tail of that body.
\<close>

theorem verify_spec:
  assumes "wf_alphabet a"
  shows "verify c key candidate a =
    Some (\<exists>body. is_ascii body \<and>
      (\<exists>t. mac_tail c key (as_bytes body) a = Some t \<and> candidate = body @ t))"
  using assms by (rule verify_char)

theorem verify_spec_witness:
  "verify ref_crates [] (''body'' @ the (mac_tail ref_crates [] (as_bytes ''body'') BASE62)) BASE62
   = Some True"
proof -
  obtain t where "mac_tail ref_crates [] (as_bytes ''body'') BASE62 = Some t"
    by (rule mac_tail_ok [OF named_constants_wf(1)])
  then have "\<exists>body. is_ascii body \<and> (\<exists>u. mac_tail ref_crates [] (as_bytes body) BASE62 = Some u
      \<and> ''body'' @ t = body @ u)"
    by (intro exI [of _ "''body''"] conjI exI [of _ t]) simp_all
  with \<open>mac_tail ref_crates [] (as_bytes ''body'') BASE62 = Some t\<close> show ?thesis
    using verify_spec [OF named_constants_wf(1), of ref_crates "[]" "''body'' @ t"] by simp
qed

text \<open>
  \<open>encode_to_alphabet\<close> writes the first eight MAC bytes, as a big-endian integer
  modulo \<open>radix ^ K\<close>, in base \<open>radix\<close> with the most significant symbol first, in exactly \<open>K\<close>
  symbols: reading the symbols back as digits gives that integer.
\<close>

theorem encode_to_alphabet_value:
  assumes "wf_alphabet a"
  shows "\<exists>s is. encode_to_alphabet bs a = Some s \<and> length s = mac_tail_len a
    \<and> mapo (index_of a) (str_chars s) = Some is
    \<and> foldl (\<lambda>n d. n * radix a + d) 0 is = unat (be_u64 bs) mod radix a ^ mac_tail_len a"
proof -
  let ?v = "unat (be_u64 bs) mod radix a ^ mac_tail_len a"
  let ?ds = "digits_of (radix a) (mac_tail_len a) ?v"
  have r: "0 < radix a" using wf_radix [OF assms] by simp
  obtain cs where cs: "encode_to_alphabet bs a = Some (string_of_chars cs)"
      "mapo (symbol_at a) (rev ?ds) = Some cs"
    by (rule encode_to_alphabet_ok [OF assms])
  note over = symbols_over_alphabet [OF assms cs(2)]
  have "\<forall>i \<in> set (rev ?ds). i < radix a" using digits_of_less [OF r] by auto
  from symtab.symbols_total [OF assms this] cs(2) have "mapo (index_of a) cs = Some (rev ?ds)" by auto
  moreover have "foldl (\<lambda>n d. n * radix a + d) 0 (rev ?ds) = ?v"
    using r by (simp add: foldl_conv_foldr digits_of_value)
  ultimately show ?thesis using cs(1) over by auto
qed

theorem encode_to_alphabet_value_witness:
  "\<exists>s. encode_to_alphabet [0, 0, 0, 0, 0, 0, 1, 2] BASE62 = Some s \<and> length s = 6"
  using encode_to_alphabet_value [OF named_constants_wf(1), of "[0, 0, 0, 0, 0, 0, 1, 2]"]
  by (auto simp: BASE62_tail)

end
