(* ===== verification/Reserved.thy ===== *)
theory Reserved
  imports Crates
begin

text \<open>
  \<open>crates/invisibool-engine/src/tokenizer/reserved.rs\<close>: fakes from ranges that belong to nobody
  (\<open>example.com\<close>, TEST-NET-1, 555-01XX, the 4242 test BIN) and the Luhn checksum. A SHA-256 digest
  is an array of 32 bytes, so indexing its first byte cannot fail; the \<open>u32\<close> checksum is a natural
  number because it stays below \<open>9\<close> times the length of the string.
\<close>

section \<open>Constants\<close>

definition EMAIL_DOMAIN :: string where
  "EMAIL_DOMAIN = ''@example.com''"

definition EMAIL_LOCAL_LEN :: nat where
  "EMAIL_LOCAL_LEN = 10"

definition IPV4_RFC5737_PREFIX :: string where
  "IPV4_RFC5737_PREFIX = ''192.0.2.''"

definition PHONE_RESERVED_PREFIX :: string where
  "PHONE_RESERVED_PREFIX = ''555-01''"

definition CARD_VISA_TEST_BIN :: string where
  "CARD_VISA_TEST_BIN = ''4242''"

definition CARD_VISA_DIGIT_COUNT :: nat where
  "CARD_VISA_DIGIT_COUNT = 16"

section \<open>Generators\<close>

definition fake_email :: "crates \<Rightarrow> u8 list \<Rightarrow> string" where
  "fake_email c seed =
     map (\<lambda>byte. char_of (97 + unat byte mod 26)) (take EMAIL_LOCAL_LEN (sha256_digest c seed))
     @ EMAIL_DOMAIN"

definition fake_ipv4 :: "crates \<Rightarrow> u8 list \<Rightarrow> string" where
  "fake_ipv4 c seed = IPV4_RFC5737_PREFIX @ show_nat (unat (sha256_digest c seed ! 0))"

text \<open>\<open>{:02}\<close>: decimal, padded with zeros to two characters.\<close>

definition show_02 :: "nat \<Rightarrow> string" where
  "show_02 n = replicate (2 - length (show_nat n)) CHR ''0'' @ show_nat n"

definition fake_phone :: "crates \<Rightarrow> u8 list \<Rightarrow> string" where
  "fake_phone c seed = PHONE_RESERVED_PREFIX @ show_02 (unat (sha256_digest c seed ! 0) mod 100)"

text \<open>\<open>char::to_digit(10)\<close>.\<close>

definition to_digit :: "rchar \<Rightarrow> nat option" where
  "to_digit c = (if is_ascii_digit c then Some (c - 48) else None)"

definition luhn_term :: "nat \<Rightarrow> nat \<Rightarrow> nat" where
  "luhn_term position d =
     (let v = (if position mod 2 = 0 then d else d * 2) in if v > 9 then v - 9 else v)"

fun luhn_check_loop :: "nat \<Rightarrow> nat \<Rightarrow> rchar list \<Rightarrow> nat \<Rightarrow> nat run" where
  "luhn_check_loop n i [] acc = Some acc"
| "luhn_check_loop n i (c # cs) acc =
     (case to_digit c of
        None \<Rightarrow> panic
      | Some d \<Rightarrow> luhn_check_loop n (Suc i) cs (acc + luhn_term (n - i) d))"

definition luhn_check_digit :: "string \<Rightarrow> nat run" where
  "luhn_check_digit digits =
     map_option (\<lambda>acc. (10 - acc mod 10) mod 10)
       (luhn_check_loop (length digits) 0 (str_chars digits) 0)"

fun luhn_valid_loop :: "nat \<Rightarrow> nat \<Rightarrow> rchar list \<Rightarrow> nat \<Rightarrow> bool" where
  "luhn_valid_loop n i [] acc \<longleftrightarrow> acc mod 10 = 0"
| "luhn_valid_loop n i (c # cs) acc \<longleftrightarrow>
     (case to_digit c of
        None \<Rightarrow> False
      | Some d \<Rightarrow> luhn_valid_loop n (Suc i) cs (acc + luhn_term (n - 1 - i) d))"

definition luhn_valid :: "string \<Rightarrow> bool" where
  "luhn_valid digits = luhn_valid_loop (length digits) 0 (str_chars digits) 0"

text \<open>The overlay loop: digits are replaced from the iterator, other characters are kept.\<close>

fun overlay :: "rchar list \<Rightarrow> rchar list \<Rightarrow> rchar list run" where
  "overlay [] ds = Some []"
| "overlay (c # cs) ds =
     (if is_ascii_digit c then
        (case ds of [] \<Rightarrow> panic | d # ds' \<Rightarrow> map_option (Cons d) (overlay cs ds'))
      else map_option (Cons c) (overlay cs ds))"

definition fake_card_visa16 :: "crates \<Rightarrow> u8 list \<Rightarrow> string \<Rightarrow> string option run" where
  "fake_card_visa16 c seed original =
     (let cs = str_chars original in
      if length (filter is_ascii_digit cs) \<noteq> CARD_VISA_DIGIT_COUNT then Some None
      else
        let first15 = CARD_VISA_TEST_BIN
              @ map (\<lambda>byte. char_of (48 + unat byte mod 10)) (take 11 (sha256_digest c seed)) in
        do {
          check \<leftarrow> luhn_check_digit first15;
          out \<leftarrow> overlay cs (str_chars (first15 @ [char_of (48 + check)]));
          Some (Some (string_of_chars out))
        })"

section \<open>Luhn\<close>

definition digit_str :: "string \<Rightarrow> bool" where
  "digit_str s \<longleftrightarrow> list_all (\<lambda>b. is_ascii_digit (byte_val b)) s"

lemma digit_str_append [simp]: "digit_str (s @ t) \<longleftrightarrow> digit_str s \<and> digit_str t"
  by (simp add: digit_str_def)

lemma digit_str_ascii: "digit_str s \<Longrightarrow> is_ascii s"
  by (auto simp: digit_str_def is_ascii_def is_ascii_digit_def list_all_iff)

definition digit_vals :: "string \<Rightarrow> nat list" where
  "digit_vals s = map (\<lambda>b. byte_val b - 48) s"

fun luhn_sum :: "nat \<Rightarrow> nat list \<Rightarrow> nat" where
  "luhn_sum n [] = 0"
| "luhn_sum n (d # ds) = luhn_term n d + luhn_sum (n - 1) ds"

lemma luhn_check_loop_sum:
  "digit_str s \<Longrightarrow>
     luhn_check_loop n i (map byte_val s) acc = Some (acc + luhn_sum (n - i) (digit_vals s))"
  by (induction s arbitrary: i acc) (auto simp: digit_str_def digit_vals_def to_digit_def)

lemma luhn_valid_loop_sum:
  "digit_str s \<Longrightarrow> luhn_valid_loop n i (map byte_val s) acc \<longleftrightarrow>
     (acc + luhn_sum (n - 1 - i) (digit_vals s)) mod 10 = 0"
  by (induction s arbitrary: i acc)
    (simp_all add: digit_str_def digit_vals_def to_digit_def add.assoc)

lemma luhn_valid_sum:
  "digit_str s \<Longrightarrow> luhn_valid s \<longleftrightarrow> luhn_sum (length s - 1) (digit_vals s) mod 10 = 0"
  by (simp add: luhn_valid_def ascii_str_chars digit_str_ascii luhn_valid_loop_sum)

lemma luhn_check_digit_sum:
  "digit_str s \<Longrightarrow>
     luhn_check_digit s = Some ((10 - luhn_sum (length s) (digit_vals s) mod 10) mod 10)"
  by (simp add: luhn_check_digit_def ascii_str_chars digit_str_ascii luhn_check_loop_sum)

lemma luhn_sum_snoc: "luhn_sum (length ds) (ds @ [d]) = luhn_sum (length ds) ds + luhn_term 0 d"
proof -
  have "luhn_sum (length ds + n) (ds @ [d]) = luhn_sum (length ds + n) ds + luhn_term n d" for n
    by (induction ds) (auto simp: add.commute)
  from this [of 0] show ?thesis by simp
qed

lemma is_ascii_digit_add [simp]: "is_ascii_digit (48 + d) \<longleftrightarrow> d < 10"
  by (auto simp: is_ascii_digit_def)

lemma luhn_valid_snoc:
  assumes "digit_str s" "d < 10"
  shows "luhn_valid (s @ [char_of (48 + d)]) \<longleftrightarrow>
    (luhn_sum (length s) (digit_vals s) + d) mod 10 = 0"
proof -
  have "digit_str (s @ [char_of (48 + d)])"
    using assms by (simp add: digit_str_def)
  moreover have "digit_vals (s @ [char_of (48 + d)]) = digit_vals s @ [d]"
    using assms(2) by (simp add: digit_vals_def of_char_of)
  moreover have "luhn_term 0 d = d" using assms(2) by (simp add: luhn_term_def)
  moreover have "length (digit_vals s) = length s" by (simp add: digit_vals_def)
  ultimately show ?thesis
    using luhn_sum_snoc [of "digit_vals s" d] by (simp add: luhn_valid_sum)
qed

lemma complement_mod_10:
  fixes n d :: nat
  assumes "d < 10"
  shows "(n + d) mod 10 = 0 \<longleftrightarrow> (10 - n mod 10) mod 10 = d"
proof -
  have m: "n mod 10 < 10" by simp
  have "(n + d) mod 10 = (n mod 10 + d) mod 10" by (simp add: mod_add_left_eq)
  moreover have "(n mod 10 + d) mod 10 = 0 \<longleftrightarrow> (10 - n mod 10) mod 10 = d"
  proof (cases "n mod 10 = 0")
    case True
    with assms show ?thesis by simp
  next
    case False
    then have "(10 - n mod 10) mod 10 = 10 - n mod 10" by simp
    moreover have "(n mod 10 + d) mod 10 = 0 \<longleftrightarrow> n mod 10 + d = 10"
      using False m assms by (cases "n mod 10 + d < 10") (auto simp: le_mod_geq)
    ultimately show ?thesis using m assms by auto
  qed
  ultimately show ?thesis by simp
qed

section \<open>Cards\<close>

text \<open>The first fifteen digits of a fake card.\<close>

abbreviation card15 :: "crates \<Rightarrow> u8 list \<Rightarrow> string" where
  "card15 c seed \<equiv> CARD_VISA_TEST_BIN
     @ map (\<lambda>byte. char_of (48 + unat byte mod 10)) (take 11 (sha256_digest c seed))"

lemma utf8_encode_digit: "is_ascii_digit x \<Longrightarrow> length (utf8_encode x) = 1"
  by (simp add: is_ascii_digit_def utf8_encode_def)

lemma overlay_total:
  "length (filter is_ascii_digit cs) = length ds \<Longrightarrow> list_all is_ascii_digit ds \<Longrightarrow>
     \<exists>out. overlay cs ds = Some out \<and> filter is_ascii_digit out = ds
       \<and> map is_ascii_digit out = map is_ascii_digit cs
       \<and> filter (\<lambda>x. \<not> is_ascii_digit x) out = filter (\<lambda>x. \<not> is_ascii_digit x) cs
       \<and> length (string_of_chars out) = length (string_of_chars cs)"
proof (induction cs arbitrary: ds)
  case (Cons x cs)
  show ?case
  proof (cases "is_ascii_digit x")
    case True
    with Cons.prems obtain d ds' where "ds = d # ds'" by (cases ds) auto
    with True Cons.prems Cons.IH [of ds'] show ?thesis
      by (auto simp: string_of_chars_def utf8_encode_digit)
  next
    case False
    with Cons.prems Cons.IH [of ds] show ?thesis by (auto simp: string_of_chars_def)
  qed
qed (simp add: string_of_chars_def)

lemma card_first15:
  assumes "sha2_contract c"
  shows "digit_str (card15 c seed)" "length (card15 c seed) = 15"
proof -
  have "digit_str (map (\<lambda>byte. char_of (48 + unat byte mod 10)) bs)" for bs :: "u8 list"
    by (auto simp: digit_str_def list_all_iff)
  then show "digit_str (card15 c seed)"
    by (simp add: CARD_VISA_TEST_BIN_def digit_str_def is_ascii_digit_def)
  show "length (card15 c seed) = 15"
    using assms by (simp add: CARD_VISA_TEST_BIN_def sha2_contract_def)
qed

text \<open>The sixteen digits of a fake card.\<close>

lemma card_digits:
  assumes "sha2_contract c"
  obtains d :: nat where
    "luhn_check_digit (card15 c seed) = Some d"
    "digit_str (card15 c seed @ [char_of (48 + d)])"
    "luhn_valid (card15 c seed @ [char_of (48 + d)])"
proof -
  let ?f = "card15 c seed"
  note f = card_first15 [OF assms, of seed]
  let ?s = "luhn_sum (length ?f) (digit_vals ?f)"
  let ?d = "(10 - ?s mod 10) mod 10"
  have d: "luhn_check_digit ?f = Some ?d" using f(1) by (rule luhn_check_digit_sum)
  have "?d < 10" by simp
  then have "digit_str (?f @ [char_of (48 + ?d)])" using f(1) by (simp add: digit_str_def)
  moreover have "(?s + ?d) mod 10 = 0" using complement_mod_10 [OF \<open>?d < 10\<close>, of ?s] by simp
  then have "luhn_valid (?f @ [char_of (48 + ?d)])" using f(1) \<open>?d < 10\<close> by (simp only: luhn_valid_snoc)
  ultimately show thesis using d that by blast
qed

lemma scalar_filter:
  "list_all is_scalar (filter P xs) \<Longrightarrow> list_all is_scalar (filter (\<lambda>x. \<not> P x) xs) \<Longrightarrow>
     list_all is_scalar xs"
  by (auto simp: list_all_iff)

text \<open>Everything there is to know about a card fake, in one lemma.\<close>

lemma fake_card_full:
  assumes "sha2_contract c" "is_utf8 original"
    and "length (filter is_ascii_digit (str_chars original)) = 16"
  obtains f and d :: nat where "fake_card_visa16 c seed original = Some (Some f)" "length f = length original"
    "digit_str (card15 c seed @ [char_of (48 + d)])"
    "luhn_valid (card15 c seed @ [char_of (48 + d)])"
    "filter is_ascii_digit (str_chars f) = str_chars (card15 c seed @ [char_of (48 + d)])"
    "map is_ascii_digit (str_chars f) = map is_ascii_digit (str_chars original)"
    "filter (\<lambda>x. \<not> is_ascii_digit x) (str_chars f)
       = filter (\<lambda>x. \<not> is_ascii_digit x) (str_chars original)"
proof -
  let ?f = "card15 c seed"
  obtain d :: nat where d: "luhn_check_digit ?f = Some d" "digit_str (?f @ [char_of (48 + d)])"
      "luhn_valid (?f @ [char_of (48 + d)])"
    by (rule card_digits [OF assms(1)])
  let ?ds = "?f @ [char_of (48 + d)]"
  have chars: "str_chars ?ds = map byte_val ?ds"
    by (rule ascii_str_chars [OF digit_str_ascii [OF d(2)]])
  have len: "length ?ds = 16" using card_first15(2) [OF assms(1), of seed] by simp
  have dig: "list_all is_ascii_digit (str_chars ?ds)"
    using d(2) unfolding chars digit_str_def by (simp only: list.pred_map comp_def)
  have "length (filter is_ascii_digit (str_chars original)) = length (str_chars ?ds)"
    using assms(3) len chars by (simp only: length_map)
  from overlay_total [OF this dig] obtain out where out:
      "overlay (str_chars original) (str_chars ?ds) = Some out"
      "filter is_ascii_digit out = str_chars ?ds"
      "map is_ascii_digit out = map is_ascii_digit (str_chars original)"
      "filter (\<lambda>x. \<not> is_ascii_digit x) out = filter (\<lambda>x. \<not> is_ascii_digit x) (str_chars original)"
      "length (string_of_chars out) = length (string_of_chars (str_chars original))"
    by blast
  have "list_all is_scalar (str_chars ?ds)"
    using dig by (auto simp: list_all_iff is_ascii_digit_def is_scalar_def)
  moreover have "list_all is_scalar (filter (\<lambda>x. \<not> is_ascii_digit x) (str_chars original))"
    using assms(2) by (auto simp: is_utf8_def list_all_iff)
  ultimately have "list_all is_scalar out"
    using out(2,4) by (metis scalar_filter)
  then have oc: "str_chars (string_of_chars out) = out"
    using str_chars_of_chars [of out "[]"] by (simp add: str_chars_def)
  have run: "fake_card_visa16 c seed original = Some (Some (string_of_chars out))"
    using assms(3) d(1) out(1) by (simp add: fake_card_visa16_def CARD_VISA_DIGIT_COUNT_def Let_def)
  have len': "length (string_of_chars out) = length original"
    using out(5) assms(2) by (simp add: is_utf8_def)
  show thesis by (rule that [OF run len' d(2,3)]) (use oc out(2,3,4) in simp_all)
qed

lemma fake_card_digits:
  assumes "sha2_contract c" "fake_card_visa16 c seed original = Some (Some f)" "is_utf8 original"
  obtains d :: nat where
    "digit_str (card15 c seed @ [char_of (48 + d)])"
    "filter is_ascii_digit (str_chars f) = str_chars (card15 c seed @ [char_of (48 + d)])"
proof -
  have "length (filter is_ascii_digit (str_chars original)) = 16"
    using assms(2) by (auto simp: fake_card_visa16_def CARD_VISA_DIGIT_COUNT_def Let_def split: if_splits)
  then obtain g and d :: nat where "fake_card_visa16 c seed original = Some (Some g)"
      "digit_str (card15 c seed @ [char_of (48 + d)])"
      "filter is_ascii_digit (str_chars g) = str_chars (card15 c seed @ [char_of (48 + d)])"
    by (rule fake_card_full [OF assms(1,3)])
  with assms(2) that show thesis by auto
qed

section \<open>Properties\<close>

text \<open>
  \<open>luhn_check_digit\<close> on a string of digits never panics and returns the one digit
  that makes the number pass \<open>luhn_valid\<close>.
\<close>

theorem luhn_check_digit_unique:
  assumes "digit_str s" "d < 10"
  shows "luhn_valid (s @ [char_of (48 + d)]) \<longleftrightarrow> luhn_check_digit s = Some d"
  using assms complement_mod_10 [OF assms(2), of "luhn_sum (length s) (digit_vals s)"]
  by (simp only: luhn_valid_snoc luhn_check_digit_sum option.inject)

theorem luhn_check_digit_unique_witness:
  "luhn_valid (''424242424242424'' @ [char_of (48 + 2 :: nat)])"
  using luhn_check_digit_unique [of "''424242424242424''" 2]
  by (simp add: digit_str_def is_ascii_digit_def luhn_check_digit_def ascii_str_chars to_digit_def
      luhn_term_def)

text \<open>
  \<open>fake_card_visa16\<close> never panics: without exactly 16 digits there is no fake;
  otherwise the fake has the layout of the original (same byte length, digits at the same places,
  every other character kept), starts with the test BIN 4242 and passes the Luhn check.
\<close>

theorem fake_card_visa16_spec:
  assumes "sha2_contract c" "is_utf8 original"
  shows "if length (filter is_ascii_digit (str_chars original)) \<noteq> 16
    then fake_card_visa16 c seed original = Some None
    else \<exists>f ds. fake_card_visa16 c seed original = Some (Some f) \<and> length f = length original
      \<and> map is_ascii_digit (str_chars f) = map is_ascii_digit (str_chars original)
      \<and> filter (\<lambda>x. \<not> is_ascii_digit x) (str_chars f)
          = filter (\<lambda>x. \<not> is_ascii_digit x) (str_chars original)
      \<and> filter is_ascii_digit (str_chars f) = str_chars ds
      \<and> starts_with ds ''4242'' \<and> luhn_valid ds"
proof (cases "length (filter is_ascii_digit (str_chars original)) = 16")
  case False
  then show ?thesis by (simp add: fake_card_visa16_def CARD_VISA_DIGIT_COUNT_def)
next
  case True
  let ?f = "card15 c seed"
  obtain f and d :: nat where "fake_card_visa16 c seed original = Some (Some f)" "length f = length original"
      "luhn_valid (?f @ [char_of (48 + d)])"
      "filter is_ascii_digit (str_chars f) = str_chars (?f @ [char_of (48 + d)])"
      "map is_ascii_digit (str_chars f) = map is_ascii_digit (str_chars original)"
      "filter (\<lambda>x. \<not> is_ascii_digit x) (str_chars f)
         = filter (\<lambda>x. \<not> is_ascii_digit x) (str_chars original)"
    by (rule fake_card_full [OF assms True])
  moreover have "starts_with (?f @ [char_of (48 + d)]) ''4242''"
    by (simp add: CARD_VISA_TEST_BIN_def starts_with_def)
  ultimately show ?thesis using True by auto
qed

theorem fake_card_visa16_spec_witness:
  "\<exists>f. fake_card_visa16 ref_crates [] ''4111 1111 1111 1111'' = Some (Some f) \<and> length f = 19"
proof -
  have "length (filter is_ascii_digit (str_chars ''4111 1111 1111 1111'')) = 16"
    by (simp add: ascii_str_chars is_ascii_digit_def)
  with fake_card_visa16_spec [OF ref_digests(1), of "''4111 1111 1111 1111''" "[]"]
  show ?thesis by auto
qed

text \<open>
  There are at most 100 phone fakes and at most 256 IPv4 fakes: more than that many
  different values cannot all have different fakes, whatever the hash is.
\<close>

theorem reserved_fakes_collide:
  "(100 < card S \<longrightarrow> (\<exists>x \<in> S. \<exists>y \<in> S. x \<noteq> y \<and> fake_phone c x = fake_phone c y))
   \<and> (256 < card S \<longrightarrow> (\<exists>x \<in> S. \<exists>y \<in> S. x \<noteq> y \<and> fake_ipv4 c x = fake_ipv4 c y))"
proof -
  have pigeon: "\<exists>x \<in> S. \<exists>y \<in> S. x \<noteq> y \<and> f x = f y"
    if "f ` S \<subseteq> g ` {..<n}" "n < card S" for f :: "u8 list \<Rightarrow> string" and g :: "nat \<Rightarrow> string" and n
  proof -
    have "card (f ` S) \<le> card (g ` {..<n})" using that(1) by (intro card_mono) simp_all
    also have "\<dots> \<le> n" using card_image_le [of "{..<n}" g] by simp
    finally have "\<not> inj_on f S" using that(2) by (auto simp: card_image)
    then show ?thesis by (auto simp: inj_on_def)
  qed
  have "fake_phone c ` S \<subseteq> (\<lambda>n. PHONE_RESERVED_PREFIX @ show_02 n) ` {..<100}"
    by (auto simp: fake_phone_def)
  moreover have "unat (b :: u8) < 256" for b using unsigned_less [of b] by simp
  then have "fake_ipv4 c ` S \<subseteq> (\<lambda>n. IPV4_RFC5737_PREFIX @ show_nat n) ` {..<256}"
    by (auto simp: fake_ipv4_def)
  ultimately show ?thesis using pigeon by metis
qed

theorem reserved_fakes_collide_witness:
  "\<exists>m n. m \<noteq> n \<and> fake_phone ref_crates (replicate m 0) = fake_phone ref_crates (replicate n 0)"
proof -
  have "100 < card ((\<lambda>n. replicate n (0 :: u8)) ` {..100})"
    by (subst card_image) (auto simp: inj_on_def)
  from reserved_fakes_collide [THEN conjunct1, THEN mp, OF this]
  obtain x y where xy: "x \<in> (\<lambda>n. replicate n (0 :: u8)) ` {..100}"
      "y \<in> (\<lambda>n. replicate n (0 :: u8)) ` {..100}" "x \<noteq> y"
      "fake_phone ref_crates x = fake_phone ref_crates y"
    by blast
  obtain m n where mn: "x = replicate m 0" "y = replicate n 0" using xy(1,2) by (elim imageE)
  with xy(3) have "m \<noteq> n" by blast
  with xy(4) show ?thesis unfolding mn by blast
qed

end
