(* ===== verification/Idempotence.thy ===== *)
theory Idempotence
  imports Fpe Mac Reserved
begin

text \<open>
  \<open>crates/invisibool-engine/src/idempotence.rs\<close>: whether a candidate is to be scrubbed or is
  already one of the engine's own fakes. The lemmas show the precedence of registered values and
  that every kind of fake the engine emits is recognised.
\<close>

section \<open>Decisions and context\<close>

datatype NoOpReason =
    Ff1DecryptedToRegistered
  | Ff1DecryptedToRetired
  | ReservedRange
  | MacVerified

datatype IdempotenceDecision = Scrub | NoOp NoOpReason

record IdempotenceContext =
  ic_registered :: "FpeRegistration list"
  ic_retired :: "FpeRegistration list"
  ic_fpe_tokenizer :: FpeTokenizer
  ic_session_mac_key :: "u8 list"

section \<open>Reserved ranges\<close>

definition is_email_example_domain :: "string \<Rightarrow> bool" where
  "is_email_example_domain candidate \<longleftrightarrow>
     list_ex (\<lambda>tld. ends_with candidate (''@example'' @ tld)) [''.com'', ''.org'', ''.net'']"

definition is_ipv4_rfc5737 :: "string \<Rightarrow> bool" where
  "is_ipv4_rfc5737 candidate \<longleftrightarrow>
     list_ex (starts_with candidate) [''192.0.2.'', ''198.51.100.'', ''203.0.113.'']"

definition is_phone_555_01 :: "string \<Rightarrow> bool" where
  "is_phone_555_01 candidate \<longleftrightarrow>
     length candidate = 8 \<and> starts_with candidate ''555-01''
     \<and> list_all (\<lambda>b. is_ascii_digit (byte_val b)) (drop 6 candidate)"

definition is_card_test_bin_4242 :: "string \<Rightarrow> bool" where
  "is_card_test_bin_4242 candidate \<longleftrightarrow>
     (let digits = filter is_ascii_digit (str_chars candidate) in
      length digits = 16 \<and> take 4 digits = map byte_val ''4242'')"

definition is_in_reserved_range :: "string \<Rightarrow> bool" where
  "is_in_reserved_range candidate \<longleftrightarrow>
     is_email_example_domain candidate \<or> is_ipv4_rfc5737 candidate
     \<or> is_phone_555_01 candidate \<or> is_card_test_bin_4242 candidate"

section \<open>Classification\<close>

definition classify ::
  "crates \<Rightarrow> IdempotenceContext \<Rightarrow> string \<Rightarrow> alphabet \<Rightarrow> IdempotenceDecision run" where
  "classify c ctx candidate mac_alphabet =
     (if list_ex (\<lambda>r. candidate = fr_value r) (ic_registered ctx) then Some Scrub
      else do {
        a1 \<leftarrow> fpe_try_restore c (ic_fpe_tokenizer ctx) candidate (ic_registered ctx);
        if a1 \<noteq> None then Some (NoOp Ff1DecryptedToRegistered)
        else do {
          a2 \<leftarrow> fpe_try_restore c (ic_fpe_tokenizer ctx) candidate (ic_retired ctx);
          if a2 \<noteq> None then Some (NoOp Ff1DecryptedToRetired)
          else if is_in_reserved_range candidate then Some (NoOp ReservedRange)
          else do {
            ok \<leftarrow> verify c (ic_session_mac_key ctx) candidate mac_alphabet;
            Some (if ok then NoOp MacVerified else Scrub)
          }
        }
      })"

section \<open>The engine's fakes are recognised\<close>

lemma ends_with_append [simp]: "ends_with (s @ t) t"
  by (simp add: ends_with_def)

lemma fake_email_reserved: "is_in_reserved_range (fake_email c seed)"
  by (simp add: is_in_reserved_range_def is_email_example_domain_def fake_email_def EMAIL_DOMAIN_def)

lemma fake_ipv4_reserved: "is_in_reserved_range (fake_ipv4 c seed)"
  by (simp add: is_in_reserved_range_def is_ipv4_rfc5737_def fake_ipv4_def IPV4_RFC5737_PREFIX_def
      starts_with_def)

lemma show_nat_two: "n < 100 \<Longrightarrow> length (show_nat n) \<le> 2 \<and> digit_str (show_nat n)"
proof (cases "n < 10")
  case True
  then show ?thesis by (simp add: show_nat.simps digit_str_def)
next
  case False
  assume "n < 100"
  then have "n div 10 < 10" by (simp add: div_less_iff_less_mult)
  with False show ?thesis
    by (simp add: show_nat.simps [of n] show_nat.simps [of "n div 10"] digit_str_def)
qed

lemma length_show_nat: "0 < length (show_nat n)"
  by (subst show_nat.simps) simp

lemma show_02_two: "n < 100 \<Longrightarrow> length (show_02 n) = 2 \<and> digit_str (show_02 n)"
  using show_nat_two [of n] length_show_nat [of n]
  by (auto simp: show_02_def digit_str_def is_ascii_digit_def list_all_iff)

lemma fake_phone_reserved: "is_in_reserved_range (fake_phone c seed)"
proof -
  have "unat (sha256_digest c seed ! 0) mod 100 < 100" by simp
  from show_02_two [OF this] have "is_phone_555_01 (fake_phone c seed)"
    by (simp add: is_phone_555_01_def fake_phone_def PHONE_RESERVED_PREFIX_def starts_with_def
        digit_str_def)
  then show ?thesis by (simp add: is_in_reserved_range_def)
qed

lemma fake_card_reserved:
  assumes "sha2_contract c" "fake_card_visa16 c seed original = Some (Some f)" "is_utf8 original"
  shows "is_in_reserved_range f"
proof -
  let ?f = "card15 c seed"
  obtain d :: nat where d: "digit_str (?f @ [char_of (48 + d)])"
      "filter is_ascii_digit (str_chars f) = str_chars (?f @ [char_of (48 + d)])"
    by (rule fake_card_digits [OF assms])
  have chars: "str_chars (?f @ [char_of (48 + d)]) = map byte_val (?f @ [char_of (48 + d)])"
    by (rule ascii_str_chars [OF digit_str_ascii [OF d(1)]])
  have "length (?f @ [char_of (48 + d)]) = 16"
    using card_first15(2) [OF assms(1), of seed] by simp
  then have "is_card_test_bin_4242 f"
    unfolding is_card_test_bin_4242_def Let_def d(2) chars by (simp add: CARD_VISA_TEST_BIN_def)
  then show ?thesis by (simp add: is_in_reserved_range_def)
qed

section \<open>The decision\<close>

text \<open>A context whose registrations passed eligibility over well-formed alphabets.\<close>

definition wf_context :: "IdempotenceContext \<Rightarrow> bool" where
  "wf_context ctx \<longleftrightarrow> length (ff1_key (ic_fpe_tokenizer ctx)) = 32
     \<and> (\<forall>r \<in> set (ic_registered ctx @ ic_retired ctx). wf_registration r \<and> eligible r)"

definition fpe_fake_of :: "crates \<Rightarrow> FpeTokenizer \<Rightarrow> FpeRegistration list \<Rightarrow> string \<Rightarrow> bool" where
  "fpe_fake_of c t regs f \<longleftrightarrow> (\<exists>r \<in> set regs. fpe_scrub c t r = Some (Inr f))"

lemma try_restore_recognises:
  assumes "ff1_contract c" "length (ff1_key t) = 32" "\<forall>r \<in> set regs. wf_registration r \<and> eligible r"
    and "is_utf8 candidate"
  obtains v where "fpe_try_restore c t candidate regs = Some v"
    "v \<noteq> None \<longleftrightarrow> fpe_fake_of c t regs candidate"
proof
  let ?P = "\<lambda>r. fpe_scrub c t r = Some (Inr candidate)"
  show "fpe_try_restore c t candidate regs = Some (map_option fr_value (List.find ?P regs))"
    by (rule fpe_try_restore_find [OF assms])
  show "map_option fr_value (List.find ?P regs) \<noteq> None \<longleftrightarrow> fpe_fake_of c t regs candidate"
    using find_None_iff [of ?P regs] by (auto simp: fpe_fake_of_def)
qed

lemma classify_char:
  assumes "ff1_contract c" "wf_context ctx" "wf_alphabet a" "is_utf8 candidate"
  obtains ok where "verify c (ic_session_mac_key ctx) candidate a = Some ok"
    "classify c ctx candidate a =
      Some (if candidate \<in> fr_value ` set (ic_registered ctx) then Scrub
        else if fpe_fake_of c (ic_fpe_tokenizer ctx) (ic_registered ctx) candidate
          then NoOp Ff1DecryptedToRegistered
        else if fpe_fake_of c (ic_fpe_tokenizer ctx) (ic_retired ctx) candidate
          then NoOp Ff1DecryptedToRetired
        else if is_in_reserved_range candidate then NoOp ReservedRange
        else if ok then NoOp MacVerified else Scrub)"
proof -
  have key: "length (ff1_key (ic_fpe_tokenizer ctx)) = 32"
    and reg: "\<forall>r \<in> set (ic_registered ctx). wf_registration r \<and> eligible r"
    and ret: "\<forall>r \<in> set (ic_retired ctx). wf_registration r \<and> eligible r"
    using assms(2) by (auto simp: wf_context_def)
  obtain v where v: "fpe_try_restore c (ic_fpe_tokenizer ctx) candidate (ic_registered ctx) = Some v"
      "v \<noteq> None \<longleftrightarrow> fpe_fake_of c (ic_fpe_tokenizer ctx) (ic_registered ctx) candidate"
    by (rule try_restore_recognises [OF assms(1) key reg assms(4)])
  obtain w where w: "fpe_try_restore c (ic_fpe_tokenizer ctx) candidate (ic_retired ctx) = Some w"
      "w \<noteq> None \<longleftrightarrow> fpe_fake_of c (ic_fpe_tokenizer ctx) (ic_retired ctx) candidate"
    by (rule try_restore_recognises [OF assms(1) key ret assms(4)])
  obtain ok where ok: "verify c (ic_session_mac_key ctx) candidate a = Some ok"
    using verify_char [OF assms(3)] by blast
  have ex: "list_ex (\<lambda>r. candidate = fr_value r) (ic_registered ctx) \<longleftrightarrow>
      candidate \<in> fr_value ` set (ic_registered ctx)"
    by (auto simp: list_ex_iff)
  show thesis
    by (rule that [OF ok]) (simp add: classify_def ex v(1) w(1) ok v(2) [symmetric] w(2) [symmetric])
qed

section \<open>Properties\<close>

text \<open>The fakes the engine emits in a context.\<close>

definition emitted_fake :: "crates \<Rightarrow> IdempotenceContext \<Rightarrow> alphabet \<Rightarrow> string \<Rightarrow> bool" where
  "emitted_fake c ctx a f \<longleftrightarrow>
     fpe_fake_of c (ic_fpe_tokenizer ctx) (ic_registered ctx @ ic_retired ctx) f
     \<or> (\<exists>seed. f = fake_email c seed \<or> f = fake_ipv4 c seed \<or> f = fake_phone c seed)
     \<or> (\<exists>seed original. is_utf8 original \<and> fake_card_visa16 c seed original = Some (Some f))
     \<or> (\<exists>v. make_macfake c (ic_session_mac_key ctx) v a = Some (Some f))"

lemma macfake_verifies:
  assumes "wf_alphabet a" "hkdf_contract c" "make_macfake c key v a = Some (Some f)"
  shows "verify c key f a = Some True"
proof -
  have "mac_tail_len a < length v" "length v \<le> mac_tail_len a + hkdf_max_len"
    using assms(3) make_macfake_short [of v a c key] make_macfake_long [OF assms(2), of a v key]
    by (auto simp: not_le [symmetric])
  then obtain g where "make_macfake c key v a = Some (Some g)" "verify c key g a = Some True"
    by (rule make_macfake_ok [OF assms(1,2)])
  with assms(3) show ?thesis by simp
qed

text \<open>
  Property (C9). Idempotence: over well-formed registrations \<open>classify\<close> never panics; a candidate
  equal to a registered value is always scrubbed; every fake the engine emits (FF1 fakes of
  registered and retired values, e-mail, IPv4, phone and card fakes, MAC-tagged fakes) that is
  not itself a registered value is left alone.
\<close>

theorem classify_idempotent:
  assumes "ff1_contract c" "sha2_contract c" "hkdf_contract c"
    and "wf_context ctx" "wf_alphabet a" "is_utf8 candidate"
  shows "\<exists>d. classify c ctx candidate a = Some d
    \<and> (candidate \<in> fr_value ` set (ic_registered ctx) \<longrightarrow> d = Scrub)
    \<and> (candidate \<notin> fr_value ` set (ic_registered ctx) \<and> emitted_fake c ctx a candidate \<longrightarrow>
         (\<exists>reason. d = NoOp reason))"
proof -
  obtain ok where ok: "verify c (ic_session_mac_key ctx) candidate a = Some ok"
    "classify c ctx candidate a =
      Some (if candidate \<in> fr_value ` set (ic_registered ctx) then Scrub
        else if fpe_fake_of c (ic_fpe_tokenizer ctx) (ic_registered ctx) candidate
          then NoOp Ff1DecryptedToRegistered
        else if fpe_fake_of c (ic_fpe_tokenizer ctx) (ic_retired ctx) candidate
          then NoOp Ff1DecryptedToRetired
        else if is_in_reserved_range candidate then NoOp ReservedRange
        else if ok then NoOp MacVerified else Scrub)"
    by (rule classify_char [OF assms(1,4,5,6)])
  have "fpe_fake_of c (ic_fpe_tokenizer ctx) (ic_registered ctx) candidate
      \<or> fpe_fake_of c (ic_fpe_tokenizer ctx) (ic_retired ctx) candidate
      \<or> is_in_reserved_range candidate \<or> ok"
    if "emitted_fake c ctx a candidate"
    using that ok(1) fake_email_reserved fake_ipv4_reserved fake_phone_reserved
      fake_card_reserved [OF assms(2)] macfake_verifies [OF assms(5,3)]
    by (auto simp: emitted_fake_def fpe_fake_of_def)
  with ok(2) show ?thesis by auto
qed

definition sample_context :: IdempotenceContext where
  "sample_context = \<lparr>ic_registered = [sample_reg], ic_retired = [],
     ic_fpe_tokenizer = sample_tokenizer, ic_session_mac_key = []\<rparr>"

theorem classify_idempotent_witness:
  "(\<exists>reason. classify ref_crates sample_context ''sk-234567'' BASE62 = Some (NoOp reason))
   \<and> classify ref_crates sample_context ''sk-123456'' BASE62 = Some Scrub"
proof -
  have wf: "wf_context sample_context" by (simp add: wf_context_def sample_context_def sample_facts)
  have em: "emitted_fake ref_crates sample_context BASE62 ''sk-234567''"
    by (simp add: emitted_fake_def fpe_fake_of_def sample_context_def sample_scrub)
  have v: "fr_value ` set (ic_registered sample_context) = {''sk-123456''}"
    by (simp add: sample_context_def sample_reg_def)
  show ?thesis
    using classify_idempotent [OF ref_ff1 ref_digests(1,3) wf named_constants_wf(1), of "''sk-234567''"]
      classify_idempotent [OF ref_ff1 ref_digests(1,3) wf named_constants_wf(1), of "''sk-123456''"] em
    by (auto simp: v)
qed

text \<open>
  Every reserved-range fake lies in the range the recogniser checks, whatever its
  seed: e-mails, IPv4 addresses, phone numbers, and cards of any UTF-8 layout.
\<close>

theorem reserved_fakes_recognised:
  assumes "sha2_contract c" "is_utf8 original"
  shows "is_in_reserved_range (fake_email c seed) \<and> is_in_reserved_range (fake_ipv4 c seed)
    \<and> is_in_reserved_range (fake_phone c seed)
    \<and> (\<forall>f. fake_card_visa16 c seed original = Some (Some f) \<longrightarrow> is_in_reserved_range f)"
  using fake_email_reserved fake_ipv4_reserved fake_phone_reserved fake_card_reserved assms by blast

theorem reserved_fakes_recognised_witness:
  "is_in_reserved_range (fake_phone ref_crates (as_bytes ''+1 212 555 7890''))"
  using reserved_fakes_recognised [OF ref_digests(1), of "[]"] by simp

end
