(* ===== verification/Detection.thy ===== *)
theory Detection
  imports Crates
begin

text \<open>
  \<open>crates/invisibool-engine/src/detection\<close>: \<open>ExactMatcher\<close> (\<open>exact.rs\<close>), \<open>PatternMatcher\<close>
  (\<open>pattern.rs\<close>) and \<open>Detector\<close> with its overlap resolution (\<open>mod.rs\<close>). The automaton of the
  \<open>aho-corasick\<close> crate and the \<open>regex\<close> crate are parameters. The lemmas show what the resolution
  promises: the result is a sorted, overlap-free, maximal selection of the candidates in which
  every rejected candidate loses to a kept one that it overlaps.
\<close>

section \<open>Matches\<close>

datatype MatchKind = Exact nat | Pattern nat

record Match =
  m_start :: nat
  m_end :: nat
  m_kind :: MatchKind

definition match_len :: "Match \<Rightarrow> nat" where
  "match_len m = m_end m - m_start m"

definition match_is_empty :: "Match \<Rightarrow> bool" where
  "match_is_empty m \<longleftrightarrow> m_start m = m_end m"

datatype Confidence = High | Certain

text \<open>The derived \<open>Ord\<close>: declaration order.\<close>

instantiation Confidence :: linorder
begin

fun less_eq_Confidence :: "Confidence \<Rightarrow> Confidence \<Rightarrow> bool" where
  "less_eq_Confidence Certain High = False"
| "less_eq_Confidence _ _ = True"

definition less_Confidence :: "Confidence \<Rightarrow> Confidence \<Rightarrow> bool" where
  "less_Confidence a b \<longleftrightarrow> a = High \<and> b = Certain"

instance
proof
  fix x y z :: Confidence
  show "x < y \<longleftrightarrow> x \<le> y \<and> \<not> y \<le> x" by (cases x; cases y) (auto simp: less_Confidence_def)
  show "x \<le> x" by (cases x) auto
  show "x \<le> y \<Longrightarrow> y \<le> z \<Longrightarrow> x \<le> z" by (cases x; cases y; cases z) auto
  show "x \<le> y \<Longrightarrow> y \<le> x \<Longrightarrow> x = y" by (cases x; cases y) auto
  show "x \<le> y \<or> y \<le> x" by (cases x; cases y) auto
qed

end

definition confidence :: "MatchKind \<Rightarrow> Confidence" where
  "confidence k = (case k of Exact _ \<Rightarrow> Certain | Pattern _ \<Rightarrow> High)"

definition overlaps :: "Match \<Rightarrow> Match \<Rightarrow> bool" where
  "overlaps a b \<longleftrightarrow> m_start a < m_end b \<and> m_start b < m_end a"

section \<open>The exact matcher\<close>

record ExactMatcher =
  automaton :: "u8 list list option"

definition exact_build :: "crates \<Rightarrow> u8 list list \<Rightarrow> unit + ExactMatcher" where
  "exact_build c patterns =
     (if patterns = [] then Inr \<lparr>automaton = None\<rparr>
      else if ac_build c patterns then Inr \<lparr>automaton = Some patterns\<rparr>
      else Inl ())"

definition exact_scan :: "crates \<Rightarrow> ExactMatcher \<Rightarrow> string \<Rightarrow> Match list" where
  "exact_scan c m input =
     (case automaton m of
        None \<Rightarrow> []
      | Some ps \<Rightarrow>
          map (\<lambda>(a, b, v). \<lparr>m_start = a, m_end = b, m_kind = Exact v\<rparr>)
            (ac_find_iter c ps (as_bytes input)))"

section \<open>The pattern matcher\<close>

text \<open>
  The \<open>regex\<close> crate: compiling a set and a single rule (with the error it reports), the ascending
  indices of the rules of a set that match, and the spans of one rule.
\<close>

record regex_crate =
  regexset_new :: "string list \<Rightarrow> string + unit"
  regex_new :: "string \<Rightarrow> string + unit"
  regexset_matches :: "string list \<Rightarrow> string \<Rightarrow> nat list"
  regex_find_iter :: "string \<Rightarrow> string \<Rightarrow> (nat \<times> nat) list"

record PatternMatcher =
  rule_set :: "string list option"
  rules :: "string list"

definition pattern_build :: "regex_crate \<Rightarrow> string list \<Rightarrow> string + PatternMatcher" where
  "pattern_build rx rule_strs =
     (if rule_strs = [] then Inr \<lparr>rule_set = None, rules = []\<rparr>
      else bind_result (regexset_new rx rule_strs) (\<lambda>_.
        bind_result (collect_results (map (\<lambda>s. bind_result (regex_new rx s) (\<lambda>_. Inr s)) rule_strs))
          (\<lambda>rs. Inr \<lparr>rule_set = Some rule_strs, rules = rs\<rparr>)))"

text \<open>\<open>self.rules[rule_id]\<close> panics out of range.\<close>

definition rule_matches :: "regex_crate \<Rightarrow> PatternMatcher \<Rightarrow> string \<Rightarrow> nat \<Rightarrow> Match list run" where
  "rule_matches rx p input rule_id =
     (if rule_id < length (rules p) then
        Some (map (\<lambda>(a, b). \<lparr>m_start = a, m_end = b, m_kind = Pattern rule_id\<rparr>)
          (regex_find_iter rx (rules p ! rule_id) input))
      else panic)"

definition pattern_scan :: "regex_crate \<Rightarrow> PatternMatcher \<Rightarrow> string \<Rightarrow> Match list run" where
  "pattern_scan rx p input =
     (case rule_set p of
        None \<Rightarrow> Some []
      | Some st \<Rightarrow>
          let matched = regexset_matches rx st input in
          if matched = [] then Some []
          else do {
            result \<leftarrow> mapo (rule_matches rx p input) matched;
            Some (sort_key m_start (concat result))
          })"

section \<open>The detector\<close>

record Detector =
  d_exact :: ExactMatcher
  d_pattern :: PatternMatcher

definition detector_new :: "ExactMatcher \<Rightarrow> PatternMatcher \<Rightarrow> Detector" where
  "detector_new e p = \<lparr>d_exact = e, d_pattern = p\<rparr>"

text \<open>The comparator of \<open>all.sort_by\<close>: longest span, then highest confidence, then leftmost.\<close>

definition preferred :: "Match \<Rightarrow> Match \<Rightarrow> bool" where
  "preferred a b \<longleftrightarrow>
     match_len b < match_len a
     \<or> match_len a = match_len b
       \<and> (confidence (m_kind b) < confidence (m_kind a)
          \<or> confidence (m_kind a) = confidence (m_kind b) \<and> m_start a \<le> m_start b)"

text \<open>\<open>slice::sort_by\<close>: a stable sort for the comparator, as insertion sort.\<close>

fun insert_by :: "('a \<Rightarrow> 'a \<Rightarrow> bool) \<Rightarrow> 'a \<Rightarrow> 'a list \<Rightarrow> 'a list" where
  "insert_by le x [] = [x]"
| "insert_by le x (y # ys) = (if le x y then x # y # ys else y # insert_by le x ys)"

definition sort_by :: "('a \<Rightarrow> 'a \<Rightarrow> bool) \<Rightarrow> 'a list \<Rightarrow> 'a list" where
  "sort_by le xs = foldr (insert_by le) xs []"

fun greedy :: "Match list \<Rightarrow> Match list \<Rightarrow> Match list" where
  "greedy kept [] = kept"
| "greedy kept (cand # cands) =
     greedy (if list_ex (overlaps cand) kept then kept else kept @ [cand]) cands"

definition resolve :: "Match list \<Rightarrow> Match list" where
  "resolve all = sort_key m_start (greedy [] (sort_by preferred all))"

definition detector_scan :: "crates \<Rightarrow> regex_crate \<Rightarrow> Detector \<Rightarrow> string \<Rightarrow> Match list run" where
  "detector_scan c rx d input =
     do {
       ps \<leftarrow> pattern_scan rx (d_pattern d) input;
       Some (resolve (exact_scan c (d_exact d) input @ ps))
     }"

section \<open>Overlap resolution\<close>

lemma overlaps_sym: "overlaps a b \<longleftrightarrow> overlaps b a"
  by (auto simp: overlaps_def)

lemma preferred_refl: "preferred a a"
  by (simp add: preferred_def)

lemma preferred_trans: "preferred a b \<Longrightarrow> preferred b d \<Longrightarrow> preferred a d"
  by (auto simp: preferred_def)

lemma preferred_total: "preferred a b \<or> preferred b a"
  by (auto simp: preferred_def)

lemma mset_insert_by [simp]: "mset (insert_by le x ys) = add_mset x (mset ys)"
  by (induction ys) auto

lemma mset_sort_by [simp]: "mset (sort_by le xs) = mset xs"
  unfolding sort_by_def by (induction xs) auto

lemma set_sort_by [simp]: "set (sort_by le xs) = set xs"
  by (metis mset_sort_by set_mset_mset)

lemma sorted_insert_by:
  assumes "\<And>x y. le x y \<or> le y x" "\<And>x y z. le x y \<Longrightarrow> le y z \<Longrightarrow> le x z" "sorted_wrt le ys"
  shows "sorted_wrt le (insert_by le x ys)"
  using assms(3)
proof (induction ys)
  case (Cons y ys)
  have "set (insert_by le x ys) = insert x (set ys)"
    by (metis mset_insert_by set_mset_add_mset_insert set_mset_mset)
  with Cons assms(1) [of x y] show ?case by (auto intro: assms(2))
qed simp

lemma sorted_sort_by:
  assumes "\<And>x y. le x y \<or> le y x" "\<And>x y z. le x y \<Longrightarrow> le y z \<Longrightarrow> le x z"
  shows "sorted_wrt le (sort_by le xs)"
proof (induction xs)
  case (Cons x xs)
  then have "sorted_wrt le (foldr (insert_by le) xs [])" by (simp add: sort_by_def)
  from sorted_insert_by [of le, OF assms this] show ?case by (simp add: sort_by_def)
qed (simp add: sort_by_def)

lemmas sorted_preferred = sorted_sort_by [of preferred, OF preferred_total preferred_trans]

lemma greedy_mset: "mset (greedy kept cs) \<subseteq># mset kept + mset cs"
proof (induction kept cs rule: greedy.induct)
  case (2 kept c cs)
  then have "mset (greedy kept (c # cs)) \<subseteq>#
      mset (if list_ex (overlaps c) kept then kept else kept @ [c]) + mset cs"
    by simp
  also have "\<dots> \<subseteq># mset kept + mset (c # cs)" by simp
  finally show ?case .
qed simp

lemma greedy_keeps: "set kept \<subseteq> set (greedy kept cs)"
  by (induction kept cs rule: greedy.induct) (auto split: if_splits)

lemma greedy_apart:
  "sorted_wrt (\<lambda>a b. \<not> overlaps a b) kept \<Longrightarrow> sorted_wrt (\<lambda>a b. \<not> overlaps a b) (greedy kept cs)"
  by (induction kept cs rule: greedy.induct)
    (auto simp: sorted_wrt_append list_ex_iff overlaps_sym)

lemma greedy_maximal:
  assumes "sorted_wrt preferred cs" "\<forall>k \<in> set kept. \<forall>x \<in> set cs. preferred k x" "x \<in> set cs"
  shows "x \<in> set (greedy kept cs) \<or> (\<exists>k \<in> set (greedy kept cs). overlaps x k \<and> preferred k x)"
  using assms
proof (induction kept cs rule: greedy.induct)
  case (2 kept c cs)
  let ?kept = "if list_ex (overlaps c) kept then kept else kept @ [c]"
  have keep: "set ?kept \<subseteq> set (greedy ?kept cs)" by (rule greedy_keeps)
  show ?case
  proof (cases "x = c")
    case True
    show ?thesis
    proof (cases "list_ex (overlaps c) kept")
      case ov: True
      then obtain k where "k \<in> set kept" "overlaps c k" by (auto simp: list_ex_iff)
      with keep ov True "2.prems"(2) show ?thesis by auto
    qed (use keep True in auto)
  next
    case False
    with "2.prems" "2.IH" show ?thesis by (auto split: if_splits)
  qed
qed simp

lemma apart_mset:
  assumes "mset xs = mset ys" "sorted_wrt (\<lambda>a b. \<not> overlaps a b) xs"
  shows "sorted_wrt (\<lambda>a b. \<not> overlaps a b) ys"
proof -
  have iff: "sorted_wrt (\<lambda>a b. \<not> overlaps a b) zs \<longleftrightarrow>
      (\<forall>a b. {#a, b#} \<subseteq># mset zs \<longrightarrow> \<not> overlaps a b)" for zs
  proof (induction zs)
    case (Cons z zs)
    have "{#a, b#} \<subseteq># add_mset z (mset zs) \<longleftrightarrow>
        {#a, b#} \<subseteq># mset zs \<or> a = z \<and> b \<in># mset zs \<or> b = z \<and> a \<in># mset zs" for a b
      by (cases "a = z"; cases "b = z")
        (auto simp: insert_subset_eq_iff add_mset_commute dest: mset_subset_eqD)
    with Cons show ?case by (auto simp: overlaps_sym) 
  qed simp
  show ?thesis using assms by (simp add: iff)
qed

text \<open>What the resolution promises of any list of candidates.\<close>

lemma resolve_spec:
  "sorted (map m_start (resolve all))"
  "sorted_wrt (\<lambda>a b. \<not> overlaps a b) (resolve all)"
  "mset (resolve all) \<subseteq># mset all"
  "x \<in> set all \<Longrightarrow> x \<in> set (resolve all) \<or> (\<exists>k \<in> set (resolve all). overlaps x k \<and> preferred k x)"
proof -
  let ?g = "greedy [] (sort_by preferred all)"
  have m: "mset (resolve all) = mset ?g" by (simp add: resolve_def)
  show "sorted (map m_start (resolve all))" by (simp add: resolve_def)
  show "sorted_wrt (\<lambda>a b. \<not> overlaps a b) (resolve all)"
    by (rule apart_mset [OF m [symmetric] greedy_apart]) simp
  show "mset (resolve all) \<subseteq># mset all"
    using greedy_mset [of "[]" "sort_by preferred all"] m by simp
  assume "x \<in> set all"
  then have "x \<in> set ?g \<or> (\<exists>k \<in> set ?g. overlaps x k \<and> preferred k x)"
    by (intro greedy_maximal [OF sorted_preferred]) simp_all
  moreover have "set (resolve all) = set ?g" by (simp add: resolve_def)
  ultimately show "x \<in> set (resolve all) \<or> (\<exists>k \<in> set (resolve all). overlaps x k \<and> preferred k x)"
    by simp
qed

text \<open>Building keeps the rules parallel to the set.\<close>

lemma collect_results_rules:
  "collect_results (map (\<lambda>s. bind_result (f s) (\<lambda>_. Inr s)) xs) = Inr ys \<Longrightarrow> ys = xs"
proof (induction xs arbitrary: ys)
  case (Cons x xs)
  then show ?case
    by (cases "f x"; cases "collect_results (map (\<lambda>s. bind_result (f s) (\<lambda>_. Inr s)) xs)")
      (auto simp: bind_result_def)
qed simp

lemma pattern_build_rules:
  "pattern_build rx rs = Inr p \<Longrightarrow> rules p = rs \<and> rule_set p = (if rs = [] then None else Some rs)"
  by (auto simp: pattern_build_def dest: collect_results_rules split: if_splits sum.splits
      simp: bind_result_def [of "regexset_new rx rs"] bind_result_def [of "collect_results _"])

definition regex_contract :: "regex_crate \<Rightarrow> bool" where
  "regex_contract rx \<longleftrightarrow> (\<forall>rs s. \<forall>i \<in> set (regexset_matches rx rs s). i < length rs)"

lemma pattern_scan_total:
  assumes "regex_contract rx" "pattern_build rx rs = Inr p"
  shows "\<exists>ms. pattern_scan rx p input = Some ms"
proof -
  note b = pattern_build_rules [OF assms(2)]
  have "mapo (rule_matches rx p input) (regexset_matches rx rs input) \<noteq> None"
    using assms(1) b by (auto simp: mapo_None_iff rule_matches_def regex_contract_def)
  with b show ?thesis by (auto simp: pattern_scan_def Let_def)
qed

section \<open>Properties\<close>

text \<open>
  Property (C15). \<open>Detector::scan\<close> over a successfully built pattern matcher never panics. Its result
  is in source order, no two matches overlap, every match is one of the candidates of the two
  matchers, and every candidate left out overlaps a kept match that is preferred to it (longer,
  or as long and of higher confidence, or as long, as confident and no further right).
\<close>

theorem detector_scan_spec:
  assumes "regex_contract rx" "pattern_build rx rs = Inr p"
  shows "\<exists>ps ms. pattern_scan rx p input = Some ps
    \<and> detector_scan c rx (detector_new e p) input = Some ms
    \<and> sorted (map m_start ms) \<and> sorted_wrt (\<lambda>a b. \<not> overlaps a b) ms
    \<and> mset ms \<subseteq># mset (exact_scan c e input @ ps)
    \<and> (\<forall>x \<in> set (exact_scan c e input @ ps).
         x \<in> set ms \<or> (\<exists>k \<in> set ms. overlaps x k \<and> preferred k x))"
proof -
  obtain ps where ps: "pattern_scan rx p input = Some ps" using pattern_scan_total [OF assms] by blast
  let ?all = "exact_scan c e input @ ps"
  have "detector_scan c rx (detector_new e p) input = Some (resolve ?all)"
    using ps by (simp add: detector_scan_def detector_new_def)
  with ps resolve_spec(1-3) [of ?all] resolve_spec(4) [of _ ?all] show ?thesis by blast
qed

text \<open>A rule set with one rule that reports two spans, to instantiate the property with.\<close>

definition sample_regex :: regex_crate where
  "sample_regex = \<lparr>regexset_new = (\<lambda>rs. Inr ()), regex_new = (\<lambda>r. Inr ()),
     regexset_matches = (\<lambda>rs s. [0..<length rs]),
     regex_find_iter = (\<lambda>r s. [(0, 2), (1, 5)])\<rparr>"

lemma sample_regex_contract: "regex_contract sample_regex"
  by (simp add: regex_contract_def sample_regex_def)

theorem detector_scan_spec_witness:
  "\<exists>ms. detector_scan ref_crates sample_regex
      (detector_new \<lparr>automaton = None\<rparr> \<lparr>rule_set = Some [''r''], rules = [''r'']\<rparr>) ''abcde'' = Some ms
    \<and> sorted (map m_start ms) \<and> sorted_wrt (\<lambda>a b. \<not> overlaps a b) ms"
proof -
  have "pattern_build sample_regex [''r''] = Inr \<lparr>rule_set = Some [''r''], rules = [''r'']\<rparr>"
    by (simp add: pattern_build_def sample_regex_def result_simps)
  from detector_scan_spec [OF sample_regex_contract this, of "''abcde''" ref_crates "\<lparr>automaton = None\<rparr>"]
  show ?thesis by blast
qed

end
