(* ===== verification/SessionMap.thy ===== *)
theory SessionMap
  imports Prelude
begin

text \<open>
  \<open>crates/invisibool-engine/src/tokenizer/session.rs\<close>: the bounded two-way map between real values
  and fakes with TTL and LRU eviction. A \<open>HashMap\<close> is an association list with distinct keys;
  \<open>evict_lru\<close> and \<open>entries\<close> take the iteration order of the hash table as an argument \<open>ord\<close>, a
  function that permutes the entries. Instants and durations are natural numbers, so subtraction
  saturates as \<open>saturating_duration_since\<close> does. \<open>sm_weak\<close> is the invariant every operation keeps,
  \<open>sm_inv\<close> the bijection that every operation but an \<open>import\<close> of repeated values keeps; the locale
  \<open>session_store\<close> is what the engine relies on.
\<close>

section \<open>State\<close>

record Entry =
  real_of :: string
  last_touched :: instant

record SessionMap =
  max_entries :: nat
  ttl :: duration
  by_fake :: "(string \<times> Entry) list"
  by_real :: "(string \<times> string) list"

type_synonym order = "(string \<times> Entry) list \<Rightarrow> (string \<times> Entry) list"

section \<open>Operations\<close>

definition session_new :: "nat \<Rightarrow> duration \<Rightarrow> SessionMap" where
  "session_new n t = \<lparr>max_entries = n, ttl = t, by_fake = [], by_real = []\<rparr>"

definition wipe_by_real_key :: "(string \<times> string) list \<Rightarrow> string \<Rightarrow> (string \<times> string) list" where
  "wipe_by_real_key m r = AList.delete r m"

text \<open>Removing one entry in both directions, the body that \<open>prune\<close> and \<open>evict_lru\<close> share.\<close>

definition remove_fake :: "string \<Rightarrow> SessionMap \<Rightarrow> SessionMap" where
  "remove_fake fake m =
     (case map_of (by_fake m) fake of
        None \<Rightarrow> m
      | Some entry \<Rightarrow> m\<lparr>by_fake := AList.delete fake (by_fake m),
                        by_real := wipe_by_real_key (by_real m) (real_of entry)\<rparr>)"

definition expired :: "SessionMap \<Rightarrow> instant \<Rightarrow> Entry \<Rightarrow> bool" where
  "expired m now e \<longleftrightarrow> ttl m < now - last_touched e"

definition prune :: "SessionMap \<Rightarrow> instant \<Rightarrow> SessionMap" where
  "prune m now = fold remove_fake (map fst (filter (\<lambda>(k, e). expired m now e) (by_fake m))) m"

text \<open>\<open>Iterator::min_by_key\<close>: the first entry with the least key.\<close>

fun min_by_touched :: "(string \<times> Entry) list \<Rightarrow> (string \<times> Entry) option" where
  "min_by_touched [] = None"
| "min_by_touched (x # xs) =
     (case min_by_touched xs of
        None \<Rightarrow> Some x
      | Some y \<Rightarrow> if last_touched (snd y) < last_touched (snd x) then Some y else Some x)"

definition evict_lru :: "order \<Rightarrow> SessionMap \<Rightarrow> SessionMap" where
  "evict_lru ord m =
     (case min_by_touched (ord (by_fake m)) of
        None \<Rightarrow> m
      | Some (fake, _) \<Rightarrow> remove_fake fake m)"

text \<open>Overwriting \<open>by_fake[fake]\<close> and cleaning up after the entry it displaces.\<close>

definition insert_pair :: "string \<Rightarrow> string \<Rightarrow> instant \<Rightarrow> SessionMap \<Rightarrow> SessionMap" where
  "insert_pair fake r now m =
     (let cleaned = (case map_of (by_fake m) fake of
                       None \<Rightarrow> by_real m
                     | Some old \<Rightarrow> wipe_by_real_key (by_real m) (real_of old))
      in m\<lparr>by_fake := AList.update fake \<lparr>real_of = r, last_touched = now\<rparr> (by_fake m),
           by_real := AList.update r fake cleaned\<rparr>)"

definition touch :: "string \<Rightarrow> instant \<Rightarrow> SessionMap \<Rightarrow> SessionMap" where
  "touch fake now m =
     (case map_of (by_fake m) fake of
        None \<Rightarrow> m
      | Some e \<Rightarrow> m\<lparr>by_fake := AList.update fake (e\<lparr>last_touched := now\<rparr>) (by_fake m)\<rparr>)"

definition get_or_insert ::
  "order \<Rightarrow> SessionMap \<Rightarrow> string \<Rightarrow> instant \<Rightarrow> (unit \<Rightarrow> string) \<Rightarrow> SessionMap \<times> string" where
  "get_or_insert ord m0 r now make_fake =
     (let m = prune m0 now in
      case map_of (by_real m) r of
        Some fake \<Rightarrow> (touch fake now m, fake)
      | None \<Rightarrow>
          let m' = (if length (by_fake m) \<ge> max_entries m then evict_lru ord m else m);
              fake = make_fake ()
          in (insert_pair fake r now m', fake))"

definition session_restore :: "SessionMap \<Rightarrow> string \<Rightarrow> instant \<Rightarrow> SessionMap \<times> string option" where
  "session_restore m0 fake now =
     (let m = prune m0 now in
      case map_of (by_fake m) fake of
        None \<Rightarrow> (m, None)
      | Some e \<Rightarrow> (touch fake now m, Some (real_of e)))"

definition entries :: "order \<Rightarrow> SessionMap \<Rightarrow> (string \<times> string) list" where
  "entries ord m = map (\<lambda>(fake, e). (fake, real_of e)) (ord (by_fake m))"

definition import_pairs :: "(string \<times> string) list \<Rightarrow> instant \<Rightarrow> SessionMap \<Rightarrow> SessionMap" where
  "import_pairs pairs now m = fold (\<lambda>(fake, r). insert_pair fake r now) pairs m"

definition session_len :: "SessionMap \<Rightarrow> nat" where
  "session_len m = length (by_fake m)"

definition session_is_empty :: "SessionMap \<Rightarrow> bool" where
  "session_is_empty m \<longleftrightarrow> by_fake m = []"

definition session_clear :: "SessionMap \<Rightarrow> SessionMap" where
  "session_clear m = m\<lparr>by_fake := [], by_real := []\<rparr>"

section \<open>Invariants\<close>

definition real_at :: "SessionMap \<Rightarrow> string \<Rightarrow> string option" where
  "real_at m fake = map_option real_of (map_of (by_fake m) fake)"

definition fake_at :: "SessionMap \<Rightarrow> string \<Rightarrow> string option" where
  "fake_at m r = map_of (by_real m) r"

definition sm_weak :: "SessionMap \<Rightarrow> bool" where
  "sm_weak m \<longleftrightarrow> distinct (map fst (by_fake m)) \<and> distinct (map fst (by_real m))
     \<and> (\<forall>r fake. fake_at m r = Some fake \<longrightarrow> real_at m fake = Some r)"

definition sm_inv :: "SessionMap \<Rightarrow> bool" where
  "sm_inv m \<longleftrightarrow> sm_weak m \<and> (\<forall>fake r. real_at m fake = Some r \<longrightarrow> fake_at m r = Some fake)"

named_theorems session_simps \<open>how each operation changes the two directions of the map\<close>

lemma remove_fake_real_at [session_simps]: "real_at (remove_fake fake m) = (real_at m)(fake := None)"
  by (auto simp: remove_fake_def real_at_def split: option.splits)

lemma remove_fake_fake_at [session_simps]:
  "fake_at (remove_fake fake m) =
     (case real_at m fake of None \<Rightarrow> fake_at m | Some r \<Rightarrow> (fake_at m)(r := None))"
  by (auto simp: remove_fake_def real_at_def fake_at_def wipe_by_real_key_def split: option.splits)

lemma insert_pair_real_at [session_simps]:
  "real_at (insert_pair fake r now m) = (real_at m)(fake \<mapsto> r)"
  by (auto simp: insert_pair_def Let_def real_at_def)

lemma insert_pair_fake_at [session_simps]:
  "fake_at (insert_pair fake r now m) =
     (case real_at m fake of None \<Rightarrow> fake_at m | Some old \<Rightarrow> (fake_at m)(old := None))(r \<mapsto> fake)"
  by (auto simp: insert_pair_def Let_def real_at_def fake_at_def wipe_by_real_key_def
      split: option.splits)

lemma touch_real_at [session_simps]: "real_at (touch fake now m) = real_at m"
  by (auto simp: touch_def real_at_def split: option.splits)

lemma touch_fake_at [session_simps]: "fake_at (touch fake now m) = fake_at m"
  by (auto simp: touch_def fake_at_def split: option.splits)

definition distinct_keys :: "SessionMap \<Rightarrow> bool" where
  "distinct_keys m \<longleftrightarrow> distinct (map fst (by_fake m)) \<and> distinct (map fst (by_real m))"

lemma distinct_keys_ops [intro]:
  assumes "distinct_keys m"
  shows "distinct_keys (remove_fake fake m)" "distinct_keys (insert_pair fake r now m)"
    "distinct_keys (touch fake now m)"
  using assms
  by (auto simp: distinct_keys_def remove_fake_def insert_pair_def touch_def wipe_by_real_key_def
      Let_def distinct_update distinct_delete split: option.splits)

lemma sm_weak_alt:
  "sm_weak m \<longleftrightarrow> distinct_keys m \<and> (\<forall>r fake. fake_at m r = Some fake \<longrightarrow> real_at m fake = Some r)"
  by (auto simp: sm_weak_def distinct_keys_def)

lemma sm_inv_alt:
  "sm_inv m \<longleftrightarrow> distinct_keys m \<and> (\<forall>r fake. real_at m fake = Some r \<longleftrightarrow> fake_at m r = Some fake)"
  by (auto simp: sm_inv_def sm_weak_alt)

lemma sm_weakD: "sm_weak m \<Longrightarrow> fake_at m r = Some fake \<Longrightarrow> real_at m fake = Some r"
  by (simp add: sm_weak_alt)

lemma sm_invD: "sm_inv m \<Longrightarrow> real_at m fake = Some r \<longleftrightarrow> fake_at m r = Some fake"
  by (simp add: sm_inv_alt)

lemma sm_inv_weak: "sm_inv m \<Longrightarrow> sm_weak m"
  by (simp add: sm_inv_def)

lemma sm_weak_remove: "sm_weak m \<Longrightarrow> sm_weak (remove_fake fake m)"
  by (auto simp: sm_weak_alt session_simps split: option.splits if_splits)

lemma sm_inv_remove:
  assumes "sm_inv m"
  shows "sm_inv (remove_fake fake m)"
proof -
  have "real_at (remove_fake fake m) f = Some r \<longleftrightarrow> fake_at (remove_fake fake m) r = Some f" for f r
  proof (cases "real_at m fake")
    case None
    with sm_invD [OF assms, of f r] show ?thesis by (auto simp: session_simps)
  next
    case (Some r')
    with sm_invD [OF assms, of fake r'] sm_invD [OF assms, of f r] show ?thesis
      by (cases "f = fake"; cases "r = r'") (simp_all add: session_simps)
  qed
  moreover have "distinct_keys m" using assms by (simp add: sm_inv_alt)
  ultimately show ?thesis by (simp add: sm_inv_alt distinct_keys_ops)
qed

lemma sm_weak_insert: "sm_weak m \<Longrightarrow> sm_weak (insert_pair fake r now m)"
  by (auto simp: sm_weak_alt session_simps split: option.splits if_splits)

lemma sm_inv_insert:
  assumes "sm_inv m" "fake_at m r = None"
  shows "sm_inv (insert_pair fake r now m)"
proof -
  have "real_at (insert_pair fake r now m) f = Some s \<longleftrightarrow>
      fake_at (insert_pair fake r now m) s = Some f" for f s
  proof (cases "real_at m fake")
    case None
    with assms(2) sm_invD [OF assms(1), of f s] sm_invD [OF assms(1), of fake s] show ?thesis
      by (cases "f = fake"; cases "s = r") (auto simp: session_simps)
  next
    case (Some old)
    with assms(2) sm_invD [OF assms(1), of fake old] sm_invD [OF assms(1), of f s]
      sm_invD [OF assms(1), of fake s]
    show ?thesis
      by (cases "f = fake"; cases "s = r"; cases "s = old") (auto simp: session_simps)
  qed
  moreover have "distinct_keys m" using assms by (simp add: sm_inv_alt)
  ultimately show ?thesis by (simp add: sm_inv_alt distinct_keys_ops)
qed

lemma sm_weak_touch: "sm_weak m \<Longrightarrow> sm_weak (touch fake now m)"
  by (auto simp: sm_weak_alt session_simps)

lemma sm_inv_touch: "sm_inv m \<Longrightarrow> sm_inv (touch fake now m)"
  by (auto simp: sm_inv_alt session_simps)

lemmas sm_weak_ops = sm_weak_remove sm_weak_insert sm_weak_touch
lemmas sm_inv_ops = sm_inv_remove sm_inv_insert sm_inv_touch

section \<open>Pruning and eviction\<close>

lemma sm_weak_prune: "sm_weak m \<Longrightarrow> sm_weak (prune m now)"
proof -
  have "sm_weak (fold remove_fake fs m')" if "sm_weak m'" for fs m'
    using that by (induction fs arbitrary: m') (auto intro: sm_weak_ops)
  then show "sm_weak m \<Longrightarrow> sm_weak (prune m now)" by (simp add: prune_def)
qed

lemma sm_inv_prune: "sm_inv m \<Longrightarrow> sm_inv (prune m now)"
proof -
  have "sm_inv (fold remove_fake fs m')" if "sm_inv m'" for fs m'
    using that by (induction fs arbitrary: m') (auto intro: sm_inv_ops)
  then show "sm_inv m \<Longrightarrow> sm_inv (prune m now)" by (simp add: prune_def)
qed

lemma remove_fake_entries [simp]:
  "map_of (by_fake (remove_fake f m)) = (map_of (by_fake m))(f := None)"
  "max_entries (remove_fake f m) = max_entries m" "ttl (remove_fake f m) = ttl m"
  by (auto simp: remove_fake_def split: option.splits)

lemma length_delete_le: "length (AList.delete k xs) \<le> length xs"
  by (simp add: AList.delete_eq)

lemma fold_remove_entries:
  "map_of (by_fake (fold remove_fake fs m)) = map_of (by_fake m) |` (- set fs)"
  "max_entries (fold remove_fake fs m) = max_entries m" "ttl (fold remove_fake fs m) = ttl m"
  "length (by_fake (fold remove_fake fs m)) \<le> length (by_fake m)"
proof (induction fs arbitrary: m)
  case (Cons f fs)
  {
    case 1
    then show ?case using Cons(1) [of "remove_fake f m"] by (auto simp: restrict_map_def)
  next
    case 2
    then show ?case using Cons(2) [of "remove_fake f m"] by simp
  next
    case 3
    then show ?case using Cons(3) [of "remove_fake f m"] by simp
  next
    case 4
    have "length (by_fake (remove_fake f m)) \<le> length (by_fake m)"
      by (auto simp: remove_fake_def length_delete_le split: option.split)
    with Cons(4) [of "remove_fake f m"] show ?case by simp
  }
qed (auto simp: restrict_map_def)

text \<open>Pruning keeps exactly the entries that were touched within the TTL.\<close>

lemma prune_entries:
  assumes "distinct (map fst (by_fake m))"
  shows "map_of (by_fake (prune m now)) f =
    (case map_of (by_fake m) f of
       Some e \<Rightarrow> if expired m now e then None else Some e | None \<Rightarrow> None)"
proof -
  have "f \<in> set (map fst (filter (\<lambda>(k, e). expired m now e) (by_fake m))) \<longleftrightarrow>
      (\<exists>e. map_of (by_fake m) f = Some e \<and> expired m now e)"
    using assms by (force simp: map_of_eq_Some_iff)
  then show ?thesis
    by (auto simp: prune_def fold_remove_entries restrict_map_def split: option.splits)
qed

lemma prune_fields [simp]: "max_entries (prune m now) = max_entries m" "ttl (prune m now) = ttl m"
  by (simp_all add: prune_def fold_remove_entries)

lemma prune_length: "length (by_fake (prune m now)) \<le> length (by_fake m)"
  by (simp add: prune_def fold_remove_entries)

lemma min_by_touched_None [simp]: "min_by_touched xs = None \<longleftrightarrow> xs = []"
  by (induction xs) (auto split: option.splits)

lemma min_by_touched_Some:
  "min_by_touched xs = Some x \<Longrightarrow>
     x \<in> set xs \<and> (\<forall>y \<in> set xs. last_touched (snd x) \<le> last_touched (snd y))"
proof (induction xs arbitrary: x)
  case (Cons a xs)
  show ?case
  proof (cases "min_by_touched xs")
    case None
    with Cons.prems show ?thesis by simp
  next
    case (Some y)
    from Cons.IH [OF Some] Cons.prems Some show ?thesis by (auto split: if_splits)
  qed
qed simp

definition permutes_entries :: "order \<Rightarrow> bool" where
  "permutes_entries ord \<longleftrightarrow> (\<forall>xs. mset (ord xs) = mset xs)"

lemma permutes_entries_id: "permutes_entries (\<lambda>xs. xs)"
  by (simp add: permutes_entries_def)

lemma permutes_entries_set: "permutes_entries ord \<Longrightarrow> set (ord xs) = set xs"
  unfolding permutes_entries_def by (metis set_mset_mset)

text \<open>Eviction removes one entry, one that nobody was touched before.\<close>

lemma evict_lru_cases:
  assumes "permutes_entries ord" "distinct (map fst (by_fake m))" "by_fake m \<noteq> []"
  obtains f e where "evict_lru ord m = remove_fake f m" "map_of (by_fake m) f = Some e"
    "\<And>g e'. map_of (by_fake m) g = Some e' \<Longrightarrow> last_touched e \<le> last_touched e'"
proof -
  have set: "set (ord (by_fake m)) = set (by_fake m)" by (rule permutes_entries_set [OF assms(1)])
  then have "min_by_touched (ord (by_fake m)) \<noteq> None" using assms(3) by auto
  then obtain f e where fe: "min_by_touched (ord (by_fake m)) = Some (f, e)" by fastforce
  note least = min_by_touched_Some [OF fe]
  have "map_of (by_fake m) f = Some e" using least set assms(2) by simp
  moreover have "last_touched e \<le> last_touched e'" if "map_of (by_fake m) g = Some e'" for g e'
    using least set map_of_SomeD [OF that] by fastforce
  ultimately show thesis using that fe by (simp add: evict_lru_def)
qed

lemma length_delete_less:
  assumes "map_of xs k = Some v"
  shows "length (AList.delete k xs) < length xs"
proof -
  have "(k, v) \<in> set xs" using assms by (rule map_of_SomeD)
  then show ?thesis unfolding AList.delete_eq by (rule length_filter_less) simp
qed

lemma length_update:
  "length (AList.update k v xs) = (if map_of xs k = None then Suc (length xs) else length xs)"
  by (induction xs) auto

lemma remove_fake_length:
  "map_of (by_fake m) f = Some e \<Longrightarrow> length (by_fake (remove_fake f m)) < length (by_fake m)"
  by (simp add: remove_fake_def length_delete_less)

lemma touch_length [simp]: "length (by_fake (touch f now m)) = length (by_fake m)"
  by (simp add: touch_def length_update split: option.split)

lemma insert_pair_length: "length (by_fake (insert_pair f r now m)) \<le> Suc (length (by_fake m))"
  by (simp add: insert_pair_def Let_def length_update)

lemma sm_weak_evict: "sm_weak m \<Longrightarrow> sm_weak (evict_lru ord m)"
  by (auto simp: evict_lru_def intro: sm_weak_ops split: option.split)

lemma sm_inv_evict: "sm_inv m \<Longrightarrow> sm_inv (evict_lru ord m)"
  by (auto simp: evict_lru_def intro: sm_inv_ops split: option.split)

lemma evict_fields [simp]:
  "max_entries (evict_lru ord m) = max_entries m" "ttl (evict_lru ord m) = ttl m"
  by (auto simp: evict_lru_def split: option.split)

lemma evict_fake_at: "sm_weak m \<Longrightarrow> fake_at m r = None \<Longrightarrow> fake_at (evict_lru ord m) r = None"
  by (auto simp: evict_lru_def session_simps split: option.split)

lemma evict_length:
  assumes "permutes_entries ord" "distinct (map fst (by_fake m))"
  shows "length (by_fake (evict_lru ord m)) \<le> length (by_fake m) - 1"
proof (cases "by_fake m = []")
  case True
  then have "ord (by_fake m) = []" using permutes_entries_set [OF assms(1), of "[]"] by simp
  with True show ?thesis by (simp add: evict_lru_def)
next
  case False
  then show ?thesis
    by (rule evict_lru_cases [OF assms]) (auto dest!: remove_fake_length)
qed

section \<open>The public operations\<close>

text \<open>The two branches of \<open>get_or_insert\<close>.\<close>

lemma get_or_insert_hit:
  "fake_at (prune m now) r = Some f \<Longrightarrow>
     get_or_insert ord m r now mk = (touch f now (prune m now), f)"
  by (simp add: get_or_insert_def fake_at_def)

lemma get_or_insert_miss:
  assumes "fake_at (prune m now) r = None"
  obtains m' where "get_or_insert ord m r now mk = (insert_pair (mk ()) r now m', mk ())"
    "m' = prune m now \<or> m' = evict_lru ord (prune m now)"
    "max_entries m \<le> length (by_fake (prune m now)) \<longrightarrow> m' = evict_lru ord (prune m now)"
  using assms that by (auto simp: get_or_insert_def fake_at_def Let_def)

lemma get_or_insert_weak: "sm_weak m \<Longrightarrow> sm_weak (fst (get_or_insert ord m r now mk))"
  by (auto simp: get_or_insert_def Let_def intro: sm_weak_ops sm_weak_prune sm_weak_evict
      split: option.split)

lemma get_or_insert_inv: "sm_inv m \<Longrightarrow> sm_inv (fst (get_or_insert ord m r now mk))"
proof (cases "fake_at (prune m now) r")
  case None
  assume inv: "sm_inv m"
  obtain m' where m': "get_or_insert ord m r now mk = (insert_pair (mk ()) r now m', mk ())"
      "m' = prune m now \<or> m' = evict_lru ord (prune m now)"
    by (rule get_or_insert_miss [OF None])
  have p: "sm_inv (prune m now)" using inv by (rule sm_inv_prune)
  have "sm_inv m' \<and> fake_at m' r = None"
    using m'(2) p None by (auto intro: sm_inv_evict evict_fake_at sm_inv_weak)
  with m'(1) show ?thesis by (simp add: sm_inv_insert)
next
  case (Some f)
  assume "sm_inv m"
  with Some show ?thesis by (simp add: get_or_insert_hit sm_inv_touch sm_inv_prune)
qed

lemma session_restore_weak: "sm_weak m \<Longrightarrow> sm_weak (fst (session_restore m f now))"
  by (auto simp: session_restore_def Let_def intro: sm_weak_ops sm_weak_prune split: option.split)

lemma session_restore_inv: "sm_inv m \<Longrightarrow> sm_inv (fst (session_restore m f now))"
  by (auto simp: session_restore_def Let_def intro: sm_inv_ops sm_inv_prune split: option.split)

text \<open>The real value behind a fake at an instant: absent entries and expired ones have none.\<close>

definition live_real :: "SessionMap \<Rightarrow> instant \<Rightarrow> string \<Rightarrow> string option" where
  "live_real m now f =
     (case map_of (by_fake m) f of
        None \<Rightarrow> None
      | Some e \<Rightarrow> if expired m now e then None else Some (real_of e))"

lemma prune_real_at: "sm_weak m \<Longrightarrow> real_at (prune m now) f = live_real m now f"
  by (simp add: real_at_def live_real_def prune_entries sm_weak_def split: option.split)

lemma session_restore_result: "sm_weak m \<Longrightarrow> snd (session_restore m f now) = live_real m now f"
  using prune_real_at [of m now f]
  by (auto simp: session_restore_def Let_def real_at_def split: option.splits)

lemma touch_live:
  "real_at m f = Some r \<Longrightarrow> now' - now \<le> ttl m \<Longrightarrow> live_real (touch f now m) now' f = Some r"
  by (auto simp: touch_def live_real_def real_at_def expired_def)

lemma insert_pair_live:
  "now' - now \<le> ttl m \<Longrightarrow> live_real (insert_pair f r now m) now' f = Some r"
  by (simp add: insert_pair_def Let_def live_real_def expired_def)

lemma get_or_insert_live:
  assumes "sm_weak m" "get_or_insert ord m r now mk = (m', f)" "now' - now \<le> ttl m"
  shows "live_real m' now' f = Some r"
proof (cases "fake_at (prune m now) r")
  case None
  obtain m0 where "get_or_insert ord m r now mk = (insert_pair (mk ()) r now m0, mk ())"
      "m0 = prune m now \<or> m0 = evict_lru ord (prune m now)"
    by (rule get_or_insert_miss [OF None])
  with assms(2,3) show ?thesis by (auto intro!: insert_pair_live)
next
  case (Some g)
  have "real_at (prune m now) g = Some r" by (rule sm_weakD [OF sm_weak_prune [OF assms(1)] Some])
  with Some assms(2,3) show ?thesis by (auto simp: get_or_insert_hit intro!: touch_live)
qed

lemma get_or_insert_stable:
  assumes "sm_inv m" "live_real m now f = Some r"
  shows "snd (get_or_insert ord m r now mk) = f"
proof -
  have "real_at (prune m now) f = Some r"
    using assms by (simp add: prune_real_at sm_inv_weak)
  then have "fake_at (prune m now) r = Some f"
    using sm_invD [OF sm_inv_prune [OF assms(1)]] by blast
  then show ?thesis by (simp add: get_or_insert_hit)
qed

lemma session_restore_keeps:
  assumes "sm_weak m" "live_real m now g = Some r"
  shows "live_real (fst (session_restore m f now)) now g = Some r"
proof -
  obtain e where e: "map_of (by_fake m) g = Some e" "\<not> expired m now e" "real_of e = r"
    using assms(2) by (auto simp: live_real_def split: option.splits if_splits)
  then have "map_of (by_fake (prune m now)) g = Some e"
    using assms(1) by (simp add: prune_entries sm_weak_def)
  with e show ?thesis
    by (auto simp: session_restore_def Let_def touch_def live_real_def expired_def split: option.split)
qed

section \<open>The interface of the session store\<close>

text \<open>
  What a client of a session store may rely on, at one instant: what was put is live under the
  fake it got, a live value keeps its fake, and reading keeps everything live.
\<close>

locale session_store =
  fixes put :: "'s \<Rightarrow> string \<Rightarrow> instant \<Rightarrow> (unit \<Rightarrow> string) \<Rightarrow> 's \<times> string"
    and get :: "'s \<Rightarrow> string \<Rightarrow> instant \<Rightarrow> 's \<times> string option"
    and live :: "'s \<Rightarrow> instant \<Rightarrow> string \<Rightarrow> string option"
    and inv :: "'s \<Rightarrow> bool"
  assumes put_inv: "inv s \<Longrightarrow> inv (fst (put s r now mk))"
    and get_inv: "inv s \<Longrightarrow> inv (fst (get s f now))"
    and put_live: "inv s \<Longrightarrow> put s r now mk = (s', f) \<Longrightarrow> live s' now f = Some r"
    and put_stable: "inv s \<Longrightarrow> live s now f = Some r \<Longrightarrow> snd (put s r now mk) = f"
    and get_live: "inv s \<Longrightarrow> snd (get s f now) = live s now f"
    and get_keeps: "inv s \<Longrightarrow> live s now g = Some r \<Longrightarrow> live (fst (get s f now)) now g = Some r"
begin

lemma put_get:
  assumes "inv s"
  shows "snd (get (fst (put s r now mk)) (snd (put s r now mk)) now) = Some r"
  using assms put_inv [of s r now mk] put_live [of s r now mk]
  by (cases "put s r now mk") (simp add: get_live)

lemma put_twice:
  assumes "inv s"
  shows "snd (put (fst (put s r now mk)) r now mk') = snd (put s r now mk)"
  using assms put_inv [of s r now mk] put_live [of s r now mk]
  by (cases "put s r now mk") (simp add: put_stable)

text \<open>Reading any number of fakes first changes neither the invariant nor what a fake stands for.\<close>

lemma gets_keep:
  "inv s \<Longrightarrow> live s now g = Some r \<Longrightarrow>
     inv (fold (\<lambda>f s. fst (get s f now)) fs s)
     \<and> live (fold (\<lambda>f s. fst (get s f now)) fs s) now g = Some r"
  by (induction fs arbitrary: s) (auto simp: get_inv get_keeps)

lemma put_reads_get:
  assumes "inv s"
  shows "snd (get (fold (\<lambda>f s. fst (get s f now)) fs (fst (put s r now mk)))
    (snd (put s r now mk)) now) = Some r"
  using assms gets_keep put_inv [of s r now mk] put_live [of s r now mk]
  by (cases "put s r now mk") (simp add: get_live)

end

interpretation sess: session_store "get_or_insert ord" session_restore live_real sm_inv for ord
proof unfold_locales
  fix m r now mk m' f
  assume "sm_inv m" "get_or_insert ord m r now mk = (m', f)"
  then show "live_real m' now f = Some r" by (intro get_or_insert_live [of m]) (auto intro: sm_inv_weak)
qed (auto intro: get_or_insert_inv session_restore_inv get_or_insert_stable
    simp: session_restore_result session_restore_keeps sm_inv_weak)

section \<open>Import and export\<close>

lemma import_weak: "sm_weak m \<Longrightarrow> sm_weak (import_pairs ps now m)"
  unfolding import_pairs_def by (induction ps arbitrary: m) (auto intro: sm_weak_ops)

text \<open>
  An import keeps the bijection when no real value repeats and none is held under another fake. Fakes
  may repeat and may be taken: the last pair of a fake stays.
\<close>

definition one_to_one :: "(string \<times> string) list \<Rightarrow> SessionMap \<Rightarrow> bool" where
  "one_to_one ps m \<longleftrightarrow> distinct (map snd ps)
     \<and> (\<forall>(f, r) \<in> set ps. fake_at m r = None \<or> fake_at m r = Some f)"

lemma sm_inv_reinsert:
  assumes "sm_inv m" "fake_at m r = Some f"
  shows "sm_inv (insert_pair f r now m)"
proof -
  have "real_at m f = Some r" using assms by (simp add: sm_invD)
  then have "real_at (insert_pair f r now m) = real_at m" "fake_at (insert_pair f r now m) = fake_at m"
    using assms(2) by (auto simp: session_simps)
  then show ?thesis using assms(1) by (auto simp: sm_inv_alt)
qed

lemma import_inv:
  assumes "sm_inv m" "one_to_one ps m"
  shows "sm_inv (import_pairs ps now m)"
  using assms unfolding import_pairs_def
proof (induction ps arbitrary: m)
  case (Cons p ps)
  obtain f r where p: "p = (f, r)" by (cases p)
  have r: "fake_at m r = None \<or> fake_at m r = Some f" using Cons.prems(2) p by (simp add: one_to_one_def)
  have inv: "sm_inv (insert_pair f r now m)"
    using r Cons.prems(1) by (auto intro: sm_inv_insert sm_inv_reinsert)
  have other: "fake_at (insert_pair f r now m) s \<in> {None, fake_at m s}" if "s \<noteq> r" for s
    using that by (simp add: session_simps split: option.split)
  have "one_to_one ps (insert_pair f r now m)"
    unfolding one_to_one_def
  proof (intro conjI ballI, unfold split_paired_all prod.case)
    show "distinct (map snd ps)" using Cons.prems(2) by (simp add: one_to_one_def)
    fix g s assume gs: "(g, s) \<in> set ps"
    then have "s \<in> set (map snd ps)" by force
    moreover have "r \<notin> set (map snd ps)" using Cons.prems(2) p by (simp add: one_to_one_def)
    ultimately have "s \<noteq> r" by metis
    moreover have "fake_at m s = None \<or> fake_at m s = Some g" using Cons.prems(2) gs by (auto simp: one_to_one_def)
    ultimately show "fake_at (insert_pair f r now m) s = None \<or> fake_at (insert_pair f r now m) s = Some g"
      using other [of s] by auto
  qed
  with inv show ?case using Cons.IH p by simp
qed simp

lemma import_length: "length (by_fake (import_pairs ps now m)) \<le> length (by_fake m) + length ps"
  unfolding import_pairs_def
proof (induction ps arbitrary: m)
  case (Cons p ps)
  obtain f r where p: "p = (f, r)" by (cases p)
  from Cons.IH [of "insert_pair f r now m"] insert_pair_length [of f r now m] p show ?case
    by simp
qed simp

lemma import_fields [simp]:
  "max_entries (import_pairs ps now m) = max_entries m" "ttl (import_pairs ps now m) = ttl m"
  unfolding import_pairs_def by (induction ps arbitrary: m) (auto simp: insert_pair_def Let_def)

lemma import_fresh:
  assumes "sm_inv m" "distinct (map fst ps)" "distinct (map snd ps)"
    and "\<And>r. r \<in> snd ` set ps \<Longrightarrow> fake_at m r = None" "\<And>f. f \<in> fst ` set ps \<Longrightarrow> real_at m f = None"
  shows "sm_inv (import_pairs ps now m) \<and> real_at (import_pairs ps now m) = real_at m ++ map_of ps"
  using assms unfolding import_pairs_def
proof (induction ps arbitrary: m)
  case (Cons p ps)
  obtain f r where p: "p = (f, r)" by (cases p)
  let ?m = "insert_pair f r now m"
  have "sm_inv ?m" using Cons.prems(1,4) p by (simp add: sm_inv_insert)
  moreover have "fake_at ?m s = None" if "s \<in> snd ` set ps" for s
    using that Cons.prems(3) Cons.prems(4) [of s] Cons.prems(5) p by (auto simp: session_simps)
  moreover have "real_at ?m g = None" if "g \<in> fst ` set ps" for g
    using that Cons.prems(2) Cons.prems(5) [of g] p by (auto simp: session_simps)
  ultimately have "sm_inv (fold (\<lambda>(f, r). insert_pair f r now) ps ?m) \<and>
      real_at (fold (\<lambda>(f, r). insert_pair f r now) ps ?m) = real_at ?m ++ map_of ps"
    using Cons.prems(2,3) p by (intro Cons.IH) auto
  moreover have "real_at ?m ++ map_of ps = real_at m ++ map_of (p # ps)"
  proof -
    have "map_of ps f = None" using Cons.prems(2) p by (simp add: map_of_eq_None_iff)
    with p show ?thesis by (auto simp: session_simps map_add_def fun_eq_iff split: option.splits)
  qed
  ultimately show ?case by (simp only: fold_simps p prod.case)
qed simp

lemma session_new_inv [simp]: "sm_inv (session_new n t)"
  by (simp add: session_new_def sm_inv_alt distinct_keys_def real_at_def fake_at_def)

lemma session_new_at [simp]:
  "real_at (session_new n t) = Map.empty" "fake_at (session_new n t) = Map.empty"
  by (auto simp: session_new_def real_at_def fake_at_def)

lemma entries_pairs:
  assumes "permutes_entries ord" "sm_inv m"
  shows "distinct (map fst (entries ord m))" "distinct (map snd (entries ord m))"
    "map_of (entries ord m) = real_at m"
proof -
  have d: "distinct (map fst (by_fake m))" using assms(2) by (simp add: sm_inv_alt distinct_keys_def)
  have "mset (map fst (ord (by_fake m))) = mset (map fst (by_fake m))"
    using assms(1) by (simp add: permutes_entries_def)
  then have d': "distinct (map fst (ord (by_fake m)))" using d by (rule mset_eq_imp_distinct_iff [THEN iffD2])
  show df: "distinct (map fst (entries ord m))"
    using d' by (simp add: entries_def comp_def case_prod_beta)
  show e: "map_of (entries ord m) = real_at m"
  proof
    fix f
    have "map_of (ord (by_fake m)) f = map_of (by_fake m) f"
      using d d' permutes_entries_set [OF assms(1)]
      by (metis map_of_inject_set)
    then show "map_of (entries ord m) f = real_at m f"
      by (simp add: entries_def real_at_def map_of_map)
  qed
  have "inj_on snd (set (entries ord m))"
  proof (rule inj_onI)
    fix p q assume "p \<in> set (entries ord m)" "q \<in> set (entries ord m)" "snd p = snd q"
    then have "real_at m (fst p) = Some (snd p)" "real_at m (fst q) = Some (snd p)"
      using df by (metis e map_of_eq_Some_iff prod.collapse)+
    then have "fst p = fst q" using sm_invD [OF assms(2)] by (metis option.inject)
    with \<open>snd p = snd q\<close> show "p = q" by (simp add: prod_eq_iff)
  qed
  then show "distinct (map snd (entries ord m))"
    using df by (simp add: distinct_map)
qed

section \<open>Properties\<close>

text \<open>
  The states that a process reaches through the public interface, \<open>import\<close> of any pairs included.
  The index \<open>k\<close> counts the pairs that were imported, and the index \<open>b\<close> says whether all imports were
  one-to-one.
\<close>

inductive session_reach :: "nat \<Rightarrow> duration \<Rightarrow> nat \<Rightarrow> bool \<Rightarrow> SessionMap \<Rightarrow> bool" for n t where
  reach_new: "session_reach n t 0 True (session_new n t)"
| reach_get_or_insert: "session_reach n t k b m \<Longrightarrow> permutes_entries ord \<Longrightarrow>
    session_reach n t k b (fst (get_or_insert ord m r now mk))"
| reach_restore: "session_reach n t k b m \<Longrightarrow> session_reach n t k b (fst (session_restore m f now))"
| reach_import: "session_reach n t k b m \<Longrightarrow>
    session_reach n t (k + length ps) (b \<and> one_to_one ps m) (import_pairs ps now m)"
| reach_clear: "session_reach n t k b m \<Longrightarrow> session_reach n t 0 True (session_clear m)"

lemma get_or_insert_fields [simp]:
  "max_entries (fst (get_or_insert ord m r now mk)) = max_entries m"
  "ttl (fst (get_or_insert ord m r now mk)) = ttl m"
  by (auto simp: get_or_insert_def Let_def touch_def insert_pair_def split: option.split)

lemma session_restore_fields [simp]:
  "max_entries (fst (session_restore m f now)) = max_entries m"
  "ttl (fst (session_restore m f now)) = ttl m"
  by (auto simp: session_restore_def Let_def touch_def split: option.split)

lemma get_or_insert_length:
  assumes "permutes_entries ord" "sm_weak m" "length (by_fake m) \<le> max 1 (max_entries m) + k"
  shows "length (by_fake (fst (get_or_insert ord m r now mk))) \<le> max 1 (max_entries m) + k"
proof (cases "fake_at (prune m now) r")
  case None
  have le: "length (by_fake (prune m now)) \<le> max 1 (max_entries m) + k"
    using prune_length [of m now] assms(3) by simp
  obtain m' where m': "get_or_insert ord m r now mk = (insert_pair (mk ()) r now m', mk ())"
      "m' = prune m now \<or> m' = evict_lru ord (prune m now)"
      "max_entries m \<le> length (by_fake (prune m now)) \<longrightarrow> m' = evict_lru ord (prune m now)"
    by (rule get_or_insert_miss [OF None])
  have "distinct (map fst (by_fake (prune m now)))"
    using sm_weak_prune [OF assms(2)] by (simp add: sm_weak_def)
  from evict_length [OF assms(1) this] m'(2,3) le
  have "Suc (length (by_fake m')) \<le> max 1 (max_entries m) + k" by (auto simp: not_le)
  with m'(1) insert_pair_length [of "mk ()" r now m'] show ?thesis by simp
next
  case (Some f)
  with prune_length [of m now] assms(3) show ?thesis by (simp add: get_or_insert_hit)
qed

lemma session_restore_length: "length (by_fake (fst (session_restore m f now))) \<le> length (by_fake m)"
  by (simp add: session_restore_def Let_def prune_length split: option.split)

text \<open>
  Property (C10). Every state reached through the public operations, with any hash order, any instants, any fake
  generator and any imports: no fake and no real value has two entries, and every real value that the
  map knows has a fake that stands for it. As long as every import since the map was new or cleared was
  one-to-one, the map is a bijection between live fakes and real values. It holds at most \<open>max_entries\<close>
  entries (one when \<open>max_entries\<close> is 0) and one more for each imported pair, because an import does not
  look at the capacity.
\<close>

theorem session_reach_invariant:
  assumes "session_reach n t k b m"
  shows "sm_weak m \<and> (b \<longrightarrow> sm_inv m) \<and> session_len m \<le> max 1 n + k \<and> max_entries m = n \<and> ttl m = t"
  using assms unfolding session_len_def
proof (induction rule: session_reach.induct)
  case (reach_get_or_insert k b m ord r now mk)
  then have "length (by_fake m) \<le> max 1 (max_entries m) + k" by simp
  with reach_get_or_insert show ?case
    using get_or_insert_length [of ord m k r now mk] by (simp add: get_or_insert_inv get_or_insert_weak)
next
  case (reach_restore k b m f now)
  then show ?case
    using session_restore_length [of m f now] by (auto intro: session_restore_inv session_restore_weak)
next
  case (reach_import k b m ps now)
  then show ?case
    using import_length [of ps now m] by (auto intro: import_weak import_inv)
next
  case (reach_clear k b m)
  then show ?case
    by (simp add: session_clear_def sm_weak_alt sm_inv_alt distinct_keys_def real_at_def fake_at_def)
qed (auto simp: session_new_def [of n t] sm_weak_alt sm_inv_alt distinct_keys_def real_at_def fake_at_def)

theorem session_reach_invariant_witness:
  "sm_inv (fst (get_or_insert (\<lambda>xs. xs) (import_pairs [(''f'', ''r'')] 2 (session_new 0 5)) ''real'' 3 (\<lambda>_. ''fake'')))
   \<and> session_len (fst (get_or_insert (\<lambda>xs. xs) (import_pairs [(''f'', ''r'')] 2 (session_new 0 5)) ''real'' 3
       (\<lambda>_. ''fake''))) \<le> 2"
proof -
  have "one_to_one [(''f'', ''r'')] (session_new 0 5)" by (simp add: one_to_one_def)
  then have "session_reach 0 5 1 True (import_pairs [(''f'', ''r'')] 2 (session_new 0 5))"
    using reach_import [OF reach_new, of 0 5 "[(''f'', ''r'')]" 2] by simp
  from session_reach_invariant [OF reach_get_or_insert [OF this permutes_entries_id], of "''real''" 3 "\<lambda>_. ''fake''"]
  show ?thesis by simp
qed

text \<open>
  What \<open>get_or_insert\<close> returned for a value within the TTL is what \<open>restore\<close> maps back
  to that value, and a second \<open>get_or_insert\<close> for it returns the same fake and ignores its
  generator.
\<close>

theorem session_round_trip:
  assumes "sm_inv m" "get_or_insert ord m r now mk = (m', f)" "now' - now \<le> ttl m"
  shows "snd (session_restore m' f now') = Some r \<and> snd (get_or_insert ord' m' r now' mk') = f"
proof -
  have "sm_inv m'" using get_or_insert_inv [OF assms(1), of ord r now mk] assms(2) by simp
  moreover have "live_real m' now' f = Some r"
    by (rule get_or_insert_live [OF sm_inv_weak [OF assms(1)] assms(2,3)])
  ultimately show ?thesis
    by (simp add: session_restore_result sm_inv_weak get_or_insert_stable)
qed

theorem session_round_trip_witness:
  "snd (session_restore (fst (get_or_insert (\<lambda>xs. xs) (session_new 2 10) ''real'' 3 (\<lambda>_. ''fake'')))
     ''fake'' 13) = Some ''real''"
  using session_round_trip [OF session_new_inv [of 2 10], of "\<lambda>xs. xs" "''real''" 3 "\<lambda>_. ''fake''" _
      "''fake''" 13]
  by (simp add: get_or_insert_def Let_def prune_def session_new_def)

text \<open>
  Property (C13). A miss at capacity evicts exactly one entry, and one that is least recently
  touched among the unexpired entries; every other unexpired entry that the new fake does not
  overwrite survives with its timestamp.
\<close>

theorem session_lru:
  assumes "sm_weak m" "permutes_entries ord" "fake_at (prune m now) r = None"
    and "max_entries m \<le> length (by_fake (prune m now))" "by_fake (prune m now) \<noteq> []"
  shows "\<exists>victim e. map_of (by_fake (prune m now)) victim = Some e
    \<and> (\<forall>g e'. map_of (by_fake (prune m now)) g = Some e' \<longrightarrow> last_touched e \<le> last_touched e')
    \<and> map_of (by_fake (fst (get_or_insert ord m r now mk))) =
        (map_of (by_fake (prune m now)))(victim := None, mk () \<mapsto> \<lparr>real_of = r, last_touched = now\<rparr>)"
proof -
  have d: "distinct (map fst (by_fake (prune m now)))"
    using sm_weak_prune [OF assms(1)] by (simp add: sm_weak_def)
  obtain f e where ev: "evict_lru ord (prune m now) = remove_fake f (prune m now)"
      "map_of (by_fake (prune m now)) f = Some e"
      "\<And>g e'. map_of (by_fake (prune m now)) g = Some e' \<Longrightarrow> last_touched e \<le> last_touched e'"
    by (rule evict_lru_cases [OF assms(2) d assms(5)]) metis
  have "fst (get_or_insert ord m r now mk) = insert_pair (mk ()) r now (remove_fake f (prune m now))"
    using assms(3,4) ev(1) by (simp add: get_or_insert_def fake_at_def Let_def)
  then have "map_of (by_fake (fst (get_or_insert ord m r now mk))) =
      (map_of (by_fake (prune m now)))(f := None, mk () \<mapsto> \<lparr>real_of = r, last_touched = now\<rparr>)"
    by (simp add: insert_pair_def Let_def)
  with ev(2,3) show ?thesis by blast
qed

definition one_entry :: SessionMap where
  "one_entry = insert_pair ''fake'' ''real'' 1 (session_new 1 10)"

lemma one_entry_inv: "sm_inv one_entry"
  by (simp add: one_entry_def sm_inv_insert)

lemma one_entry_prune: "prune one_entry 2 = one_entry"
  by (simp add: one_entry_def prune_def insert_pair_def session_new_def expired_def)

theorem session_lru_witness:
  "map_of (by_fake (fst (get_or_insert (\<lambda>xs. xs) one_entry ''other'' 2 (\<lambda>_. ''new'')))) =
     [''new'' \<mapsto> \<lparr>real_of = ''other'', last_touched = 2\<rparr>]"
proof -
  have e: "by_fake one_entry = [(''fake'', \<lparr>real_of = ''real'', last_touched = 1\<rparr>)]"
    and f: "fake_at one_entry ''other'' = None" and n: "max_entries one_entry = 1"
    by (simp_all add: one_entry_def insert_pair_def session_new_def fake_at_def)
  have "\<exists>victim e. map_of (by_fake (prune one_entry 2)) victim = Some e
    \<and> (\<forall>g e'. map_of (by_fake (prune one_entry 2)) g = Some e' \<longrightarrow> last_touched e \<le> last_touched e')
    \<and> map_of (by_fake (fst (get_or_insert (\<lambda>xs. xs) one_entry ''other'' 2 (\<lambda>_. ''new'')))) =
        (map_of (by_fake (prune one_entry 2)))(victim := None,
           ''new'' \<mapsto> \<lparr>real_of = ''other'', last_touched = 2\<rparr>)"
    by (rule session_lru [OF sm_inv_weak [OF one_entry_inv] permutes_entries_id])
      (simp_all add: one_entry_prune e f n)
  then show ?thesis by (auto simp: one_entry_prune e split: if_splits)
qed

text \<open>
  \<open>restore\<close> honours the TTL exactly: it returns the value of a present entry whose age
  is at most the TTL and nothing otherwise, restarts the clock of the entry it returned, keeps
  every other unexpired entry as it was and drops the expired ones.
\<close>

theorem session_restore_ttl:
  assumes "sm_weak m"
  shows "snd (session_restore m f now) =
      (case map_of (by_fake m) f of
         Some e \<Rightarrow> if now - last_touched e \<le> ttl m then Some (real_of e) else None
       | None \<Rightarrow> None)
    \<and> map_of (by_fake (fst (session_restore m f now))) g =
      (case map_of (by_fake m) g of
         Some e \<Rightarrow> if ttl m < now - last_touched e then None
                   else if g = f then Some (e\<lparr>last_touched := now\<rparr>) else Some e
       | None \<Rightarrow> None)"
proof
  have d: "distinct (map fst (by_fake m))" using assms by (simp add: sm_weak_def)
  show "snd (session_restore m f now) =
      (case map_of (by_fake m) f of
         Some e \<Rightarrow> if now - last_touched e \<le> ttl m then Some (real_of e) else None
       | None \<Rightarrow> None)"
    by (auto simp: session_restore_result [OF assms] live_real_def expired_def split: option.split)
  show "map_of (by_fake (fst (session_restore m f now))) g =
      (case map_of (by_fake m) g of
         Some e \<Rightarrow> if ttl m < now - last_touched e then None
                   else if g = f then Some (e\<lparr>last_touched := now\<rparr>) else Some e
       | None \<Rightarrow> None)"
    by (auto simp: session_restore_def Let_def touch_def prune_entries [OF d] expired_def
        split: option.splits if_splits)
qed

theorem session_restore_ttl_witness:
  "snd (session_restore one_entry ''fake'' 11) = Some ''real''
   \<and> snd (session_restore one_entry ''fake'' 12) = None"
  using session_restore_ttl [OF sm_inv_weak [OF one_entry_inv], of "''fake''" 11]
    session_restore_ttl [OF sm_inv_weak [OF one_entry_inv], of "''fake''" 12]
  by (simp add: one_entry_def insert_pair_def session_new_def)

text \<open>
  Exporting a session with \<open>entries\<close>, in any iteration order, and importing the pairs
  into an empty map of any capacity gives the same map in both directions, and again a bijection.
\<close>

theorem session_export_import:
  assumes "permutes_entries ord" "sm_inv m"
  shows "sm_inv (import_pairs (entries ord m) now (session_new n t))
    \<and> real_at (import_pairs (entries ord m) now (session_new n t)) = real_at m
    \<and> fake_at (import_pairs (entries ord m) now (session_new n t)) = fake_at m"
proof -
  let ?m = "import_pairs (entries ord m) now (session_new n t)"
  have imp: "sm_inv ?m \<and> real_at ?m = real_at (session_new n t) ++ map_of (entries ord m)"
    by (rule import_fresh) (simp_all add: entries_pairs [OF assms])
  then have r: "real_at ?m = real_at m" by (simp add: entries_pairs [OF assms])
  moreover have "fake_at ?m = fake_at m"
  proof
    fix s
    have "fake_at ?m s = Some f \<longleftrightarrow> fake_at m s = Some f" for f
      using sm_invD [of ?m f s] sm_invD [OF assms(2), of f s] imp r by auto
    then show "fake_at ?m s = fake_at m s" by (metis option.exhaust)
  qed
  ultimately show ?thesis using imp by blast
qed

theorem session_export_import_witness:
  "real_at (import_pairs (entries (\<lambda>xs. xs) one_entry) 7 (session_new 0 1)) ''fake'' = Some ''real''"
  using session_export_import [OF permutes_entries_id one_entry_inv, of 7 0 1]
  by (simp add: one_entry_def session_simps)

text \<open>
  \<open>import\<close> does not look at the capacity, and a repeated real value leaves an entry that only the
  fake-to-real direction knows.
\<close>

lemma import_ignores_capacity:
  "session_len (import_pairs [(''f1'', ''r1''), (''f2'', ''r2'')] 0 (session_new 1 t)) = 2"
  by (simp add: import_pairs_def insert_pair_def session_new_def session_len_def)

lemma import_repeated_real:
  "\<not> sm_inv (import_pairs [(''f1'', ''r''), (''f2'', ''r'')] 0 (session_new 2 t))"
proof
  let ?m = "import_pairs [(''f1'', ''r''), (''f2'', ''r'')] 0 (session_new 2 t)"
  assume inv: "sm_inv ?m"
  have "real_at ?m ''f1'' = Some ''r''" "fake_at ?m ''r'' = Some ''f2''"
    by (simp_all add: import_pairs_def session_simps)
  with sm_invD [OF inv, of "''f1''" "''r''"] show False by simp
qed

end
