(* ===== verification/Engine.thy ===== *)
theory Engine
  imports Idempotence Detection SessionMap "HOL-Library.Product_Lexorder"
begin

text \<open>
  \<open>crates/invisibool-engine/src/engine.rs\<close>: the engine over a snapshot of the vault. Scrubbing walks
  the exact matches and replaces each by a fake (or fails closed with a placeholder), with or
  without a session map; restoring collects the spans that fit the profile of an FF1 registration
  and trial-decrypts them, after replacing the fakes of a session. The loops are translated with
  their state in a record, every slice of the input through \<open>str_slice\<close>, which panics as Rust does.
\<close>

section \<open>State\<close>

datatype RegistrationRef = RefFpe nat | RefSession nat

record Engine =
  eng_fpe :: FpeTokenizer
  eng_fpe_registered :: "FpeRegistration list"
  eng_session_registered :: "SessionRegistration list"
  eng_retired :: "FpeRegistration list"
  eng_exact_matcher :: ExactMatcher
  eng_session_mac_key :: "u8 list"
  eng_value_id_to_ref :: "RegistrationRef list"

datatype SessionStore = NoStore | MapStore SessionMap instant

datatype BuildError = ExactMatcherError

definition REDACTION_PLACEHOLDER :: string where
  "REDACTION_PLACEHOLDER = ''[INVISIBOOL_UNRESTORABLE]''"

datatype ScrubNotice =
    SessionMappedUnrestorable string SessionFakeKind
  | RedactedFormatless string
  | RedactedInternalFailure string string

record EngineScrubResult =
  sc_output :: string
  scrubbed_count :: nat
  notices :: "ScrubNotice list"

record EngineRestoreResult =
  rs_output :: string
  restored_count :: nat

section \<open>Construction\<close>

text \<open>One iteration of the loop that splits the registered values over the two vectors.\<close>

definition add_registered ::
  "RegisteredValue \<Rightarrow> FpeRegistration list \<times> SessionRegistration list \<times> RegistrationRef list \<times> string list
   \<Rightarrow> FpeRegistration list \<times> SessionRegistration list \<times> RegistrationRef list \<times> string list" where
  "add_registered r st =
     (case st of (fs, ss, refs, vs) \<Rightarrow>
        (case r of
           Fpe f \<Rightarrow> (fs @ [f], ss, refs @ [RefFpe (length fs)], vs @ [fr_value f])
         | SessionMapped s \<Rightarrow> (fs, ss @ [s], refs @ [RefSession (length ss)], vs @ [sr_value s])))"

definition engine_new ::
  "crates \<Rightarrow> InMemoryKeyProvider \<Rightarrow> RegisteredValue list \<Rightarrow> FpeRegistration list \<Rightarrow> u8 list
   \<Rightarrow> (BuildError + Engine) run" where
  "engine_new c key_provider registered retired session_mac_key =
     (case fold add_registered registered ([], [], [], []) of (fs, ss, refs, vs) \<Rightarrow>
        (case exact_build c (map as_bytes vs) of
           Inl _ \<Rightarrow> Some (Inl ExactMatcherError)
         | Inr em \<Rightarrow>
             do {
               fpe \<leftarrow> fpe_new c key_provider;
               Some (Inr \<lparr>eng_fpe = fpe, eng_fpe_registered = fs, eng_session_registered = ss,
                          eng_retired = retired, eng_exact_matcher = em,
                          eng_session_mac_key = session_mac_key, eng_value_id_to_ref = refs\<rparr>)
             }))"

section \<open>Scrubbing\<close>

text \<open>\<open>SessionStore::store\<close>.\<close>

definition store_pair :: "order \<Rightarrow> SessionStore \<Rightarrow> string \<Rightarrow> string \<Rightarrow> SessionStore \<times> bool" where
  "store_pair ord st r fake =
     (case st of
        NoStore \<Rightarrow> (NoStore, False)
      | MapStore session now \<Rightarrow>
          (MapStore (fst (get_or_insert ord session r now (\<lambda>_. fake))) now, True))"

definition session_fake :: "crates \<Rightarrow> u8 list \<Rightarrow> SessionRegistration \<Rightarrow> string option run" where
  "session_fake c mac_key reg =
     (case sr_kind reg of
        Pii Email \<Rightarrow> Some (Some (fake_email c (as_bytes (sr_value reg))))
      | Pii Ipv4 \<Rightarrow> Some (Some (fake_ipv4 c (as_bytes (sr_value reg))))
      | Pii Phone \<Rightarrow> Some (Some (fake_phone c (as_bytes (sr_value reg))))
      | Card \<Rightarrow> fake_card_visa16 c (as_bytes (sr_value reg)) (sr_value reg)
      | Formatless \<Rightarrow> make_macfake c mac_key (sr_value reg) BASE62)"

definition ff1_failed :: string where
  "ff1_failed = ''FF1 scrub failed at runtime; eligibility was supposed to be validated at registration''"

definition generator_failed :: string where
  "generator_failed =
     ''session-mapped fake generator returned None (likely a format mismatch in the registered value)''"

text \<open>The loop variables of \<open>scrub_impl\<close>.\<close>

record ScrubState =
  st_output :: string
  st_notices :: "ScrubNotice list"
  st_count :: nat
  st_cursor :: nat
  st_store :: SessionStore

definition emit :: "string \<Rightarrow> ScrubNotice list \<Rightarrow> ScrubState \<Rightarrow> ScrubState" where
  "emit s ns st =
     st\<lparr>st_output := st_output st @ s, st_notices := st_notices st @ ns, st_count := Suc (st_count st)\<rparr>"

definition scrub_fpe ::
  "crates \<Rightarrow> Engine \<Rightarrow> string \<Rightarrow> FpeRegistration \<Rightarrow> ScrubState \<Rightarrow> ScrubState run" where
  "scrub_fpe c e candidate reg st =
     do {
       decision \<leftarrow> classify c \<lparr>ic_registered = eng_fpe_registered e, ic_retired = eng_retired e,
           ic_fpe_tokenizer = eng_fpe e, ic_session_mac_key = eng_session_mac_key e\<rparr>
         candidate (fr_alphabet reg);
       case decision of
         NoOp _ \<Rightarrow> Some (st\<lparr>st_output := st_output st @ candidate\<rparr>)
       | Scrub \<Rightarrow>
           do {
             r \<leftarrow> fpe_scrub c (eng_fpe e) reg;
             Some (case r of
                     Inr fake \<Rightarrow> emit fake [] st
                   | Inl _ \<Rightarrow> emit REDACTION_PLACEHOLDER
                       [RedactedInternalFailure (fr_label reg) ff1_failed] st)
           }
     }"

definition scrub_session ::
  "crates \<Rightarrow> order \<Rightarrow> Engine \<Rightarrow> SessionRegistration \<Rightarrow> ScrubState \<Rightarrow> ScrubState run" where
  "scrub_session c ord e reg st =
     do {
       fake \<leftarrow> session_fake c (eng_session_mac_key e) reg;
       Some (case fake of
               Some f \<Rightarrow>
                 (case store_pair ord (st_store st) (sr_value reg) f of (store, stored) \<Rightarrow>
                    emit f (if stored then []
                            else [SessionMappedUnrestorable (sr_label reg) (sr_kind reg)])
                      (st\<lparr>st_store := store\<rparr>))
             | None \<Rightarrow>
                 emit REDACTION_PLACEHOLDER
                   (if sr_kind reg = Formatless then [RedactedFormatless (sr_label reg)]
                    else [RedactedInternalFailure (sr_label reg) generator_failed]) st)
     }"

text \<open>One iteration of the loop over the matches; the vector accesses panic out of range.\<close>

definition scrub_step ::
  "crates \<Rightarrow> order \<Rightarrow> Engine \<Rightarrow> string \<Rightarrow> Match \<Rightarrow> ScrubState \<Rightarrow> ScrubState run" where
  "scrub_step c ord e input m st0 =
     do {
       gap \<leftarrow> str_slice input (st_cursor st0) (m_start m);
       candidate \<leftarrow> str_slice input (m_start m) (m_end m);
       let st = st0\<lparr>st_output := st_output st0 @ gap, st_cursor := m_end m\<rparr> in
       (case m_kind m of
          Pattern _ \<Rightarrow> Some (st\<lparr>st_output := st_output st @ candidate\<rparr>)
        | Exact value_id \<Rightarrow>
            if value_id \<ge> length (eng_value_id_to_ref e) then panic
            else case eng_value_id_to_ref e ! value_id of
              RefFpe idx \<Rightarrow>
                if idx \<ge> length (eng_fpe_registered e) then panic
                else scrub_fpe c e candidate (eng_fpe_registered e ! idx) st
            | RefSession idx \<Rightarrow>
                if idx \<ge> length (eng_session_registered e) then panic
                else scrub_session c ord e (eng_session_registered e ! idx) st)
     }"

fun scrub_loop ::
  "crates \<Rightarrow> order \<Rightarrow> Engine \<Rightarrow> string \<Rightarrow> Match list \<Rightarrow> ScrubState \<Rightarrow> ScrubState run" where
  "scrub_loop c ord e input [] st = Some st"
| "scrub_loop c ord e input (m # ms) st =
     do { st' \<leftarrow> scrub_step c ord e input m st; scrub_loop c ord e input ms st' }"

definition scrub_impl ::
  "crates \<Rightarrow> order \<Rightarrow> Engine \<Rightarrow> string \<Rightarrow> SessionStore \<Rightarrow> (EngineScrubResult \<times> SessionStore) run" where
  "scrub_impl c ord e input store =
     do {
       st \<leftarrow> scrub_loop c ord e input (exact_scan c (eng_exact_matcher e) input)
         \<lparr>st_output = [], st_notices = [], st_count = 0, st_cursor = 0, st_store = store\<rparr>;
       rest \<leftarrow> str_slice_from input (st_cursor st);
       Some (\<lparr>sc_output = st_output st @ rest, scrubbed_count = st_count st,
              notices = st_notices st\<rparr>, st_store st)
     }"

definition engine_scrub :: "crates \<Rightarrow> Engine \<Rightarrow> string \<Rightarrow> EngineScrubResult run" where
  "engine_scrub c e input = map_option fst (scrub_impl c (\<lambda>xs. xs) e input NoStore)"

definition scrub_with_session ::
  "crates \<Rightarrow> order \<Rightarrow> Engine \<Rightarrow> string \<Rightarrow> SessionMap \<Rightarrow> instant \<Rightarrow> (EngineScrubResult \<times> SessionMap) run" where
  "scrub_with_session c ord e input session now =
     map_option (\<lambda>(r, st). (r, case st of MapStore s _ \<Rightarrow> s | NoStore \<Rightarrow> session))
       (scrub_impl c ord e input (MapStore session now))"

section \<open>Restoring\<close>

text \<open>
  The search for spans of one registration's profile: prefix, length and alphabet. The caller
  skips registrations with an empty body, so the value is never empty here.
\<close>

function profile_spans :: "string \<Rightarrow> FpeRegistration \<Rightarrow> nat \<Rightarrow> (nat \<times> nat) list run" where
  "profile_spans input reg search_start =
     (case str_slice_from input search_start of
        None \<Rightarrow> panic
      | Some hay \<Rightarrow>
          (case str_find hay (fr_prefix reg) of
             None \<Rightarrow> Some []
           | Some pos \<Rightarrow>
               let start = search_start + pos; stop = start + length (fr_value reg) in
               if stop > length input \<or> fr_value reg = [] then Some []
               else case str_slice input (start + length (fr_prefix reg)) stop of
                 None \<Rightarrow> panic
               | Some body \<Rightarrow>
                   map_option
                     (\<lambda>rest. if length body = length (fr_value reg) - length (fr_prefix reg)
                                \<and> list_all (contains (fr_alphabet reg)) (str_chars body)
                             then (start, stop) # rest else rest)
                     (profile_spans input reg (start + 1))))"
  by pat_completeness auto
termination
proof (relation "measure (\<lambda>(input, reg, i). length input - i)", simp)
  fix input reg i hay pos start stop body
  assume "str_slice_from input i = Some hay" "str_find hay (fr_prefix reg) = Some pos"
    and "start = i + pos" "stop = start + length (fr_value reg)"
    and "\<not> (length input < stop \<or> fr_value reg = [])"
  then have "i < length input" by (cases "fr_value reg") auto
  with \<open>start = i + pos\<close>
  show "((input, reg, start + 1), input, reg, i) \<in> measure (\<lambda>(input, reg, i). length input - i)"
    by auto
qed

declare profile_spans.simps [simp del]

text \<open>\<open>if total_len <= reg.prefix.len() { continue; }\<close> comes before the search.\<close>

definition reg_spans :: "string \<Rightarrow> FpeRegistration \<Rightarrow> (nat \<times> nat) list run" where
  "reg_spans input reg =
     (if length (fr_value reg) \<le> length (fr_prefix reg) then Some [] else profile_spans input reg 0)"

fun restore_loop ::
  "crates \<Rightarrow> Engine \<Rightarrow> string \<Rightarrow> (nat \<times> nat) list \<Rightarrow> string \<times> nat \<times> nat \<Rightarrow> (string \<times> nat \<times> nat) run" where
  "restore_loop c e input [] st = Some st"
| "restore_loop c e input ((start, stop) # spans) (output, cursor, n) =
     (if start < cursor then restore_loop c e input spans (output, cursor, n)
      else do {
        gap \<leftarrow> str_slice input cursor start;
        candidate \<leftarrow> str_slice input start stop;
        r \<leftarrow> fpe_try_restore c (eng_fpe e) candidate (eng_fpe_registered e);
        case r of
          Some restored \<Rightarrow> restore_loop c e input spans (output @ gap @ restored, stop, Suc n)
        | None \<Rightarrow> restore_loop c e input spans (output @ gap @ candidate, stop, n)
      })"

definition engine_restore :: "crates \<Rightarrow> Engine \<Rightarrow> string \<Rightarrow> EngineRestoreResult run" where
  "engine_restore c e input =
     do {
       spans \<leftarrow> mapo (reg_spans input) (eng_fpe_registered e);
       (output, cursor, n) \<leftarrow> restore_loop c e input (remdups_adj (sort (concat spans))) ([], 0, 0);
       rest \<leftarrow> str_slice_from input cursor;
       Some \<lparr>rs_output = output @ rest, restored_count = n\<rparr>
     }"

fun session_pass ::
  "string list \<Rightarrow> instant \<Rightarrow> string \<times> nat \<times> SessionMap \<Rightarrow> string \<times> nat \<times> SessionMap" where
  "session_pass [] now st = st"
| "session_pass (fake # fakes) now (working, n, session) =
     (case session_restore session fake now of (session', r) \<Rightarrow>
        session_pass fakes now
          (case r of
             None \<Rightarrow> (working, n, session')
           | Some r' \<Rightarrow>
               let k = str_matches_count working fake in
               if k > 0 then (str_replace working fake r', n + k, session')
               else (working, n, session')))"

definition restore_with_session ::
  "crates \<Rightarrow> order \<Rightarrow> Engine \<Rightarrow> string \<Rightarrow> SessionMap \<Rightarrow> instant
   \<Rightarrow> (EngineRestoreResult \<times> SessionMap) run" where
  "restore_with_session c ord e input session now =
     (let candidate_fakes = filter (str_contains input) (map fst (entries ord session)) in
      case session_pass candidate_fakes now (input, 0, session) of (working, n, session') \<Rightarrow>
        do {
          ff1 \<leftarrow> engine_restore c e working;
          Some (\<lparr>rs_output = rs_output ff1, restored_count = n + restored_count ff1\<rparr>, session')
        })"

section \<open>The engine over its registered values\<close>

definition rv_value :: "RegisteredValue \<Rightarrow> string" where
  "rv_value rv = (case rv of Fpe f \<Rightarrow> fr_value f | SessionMapped s \<Rightarrow> sr_value s)"

definition fpe_regs :: "RegisteredValue list \<Rightarrow> FpeRegistration list" where
  "fpe_regs rvs = concat (map (\<lambda>rv. case rv of Fpe f \<Rightarrow> [f] | SessionMapped _ \<Rightarrow> []) rvs)"

definition ref_value ::
  "FpeRegistration list \<Rightarrow> SessionRegistration list \<Rightarrow> RegistrationRef \<Rightarrow> RegisteredValue option" where
  "ref_value fs ss ref =
     (case ref of
        RefFpe i \<Rightarrow> if i < length fs then Some (Fpe (fs ! i)) else None
      | RefSession i \<Rightarrow> if i < length ss then Some (SessionMapped (ss ! i)) else None)"

lemma fpe_regs_simps [simp]:
  "fpe_regs [] = []" "fpe_regs (Fpe f # rvs) = f # fpe_regs rvs"
  "fpe_regs (SessionMapped s # rvs) = fpe_regs rvs"
  by (simp_all add: fpe_regs_def)

lemma fpe_regs_set: "set (fpe_regs rvs) = {f. Fpe f \<in> set rvs}"
  by (auto simp: fpe_regs_def split: RegisteredValue.splits)

lemma add_registered_simps [simp]:
  "add_registered (Fpe f) (fs, ss, refs, vs) =
     (fs @ [f], ss, refs @ [RefFpe (length fs)], vs @ [fr_value f])"
  "add_registered (SessionMapped s) (fs, ss, refs, vs) =
     (fs, ss @ [s], refs @ [RefSession (length ss)], vs @ [sr_value s])"
  by (simp_all add: add_registered_def)

lemma fold_add_registered:
  "fold add_registered rvs (fs, ss, refs, vs) = (fs', ss', refs', vs') \<Longrightarrow>
     \<exists>sx rx. fs' = fs @ fpe_regs rvs \<and> ss' = ss @ sx \<and> refs' = refs @ rx
       \<and> map (ref_value fs' ss') rx = map Some rvs \<and> vs' = vs @ map rv_value rvs"
proof (induction rvs arbitrary: fs ss refs vs)
  case (Cons rv rvs)
  show ?case
  proof (cases rv)
    case (Fpe f)
    with Cons.prems have "fold add_registered rvs
        (fs @ [f], ss, refs @ [RefFpe (length fs)], vs @ [fr_value f]) = (fs', ss', refs', vs')"
      by simp
    from Cons.IH [OF this] obtain sx rx where
        "fs' = (fs @ [f]) @ fpe_regs rvs" "ss' = ss @ sx" "refs' = (refs @ [RefFpe (length fs)]) @ rx"
        "map (ref_value fs' ss') rx = map Some rvs" "vs' = (vs @ [fr_value f]) @ map rv_value rvs"
      by blast
    with Fpe show ?thesis
      by (intro exI [of _ "sx"] exI [of _ "RefFpe (length fs) # rx"]) (simp add: ref_value_def [of _ _ "RefFpe (length fs)"] rv_value_def)
  next
    case (SessionMapped s)
    with Cons.prems have "fold add_registered rvs
        (fs, ss @ [s], refs @ [RefSession (length ss)], vs @ [sr_value s]) = (fs', ss', refs', vs')"
      by simp
    from Cons.IH [OF this] obtain sx rx where
        "fs' = fs @ fpe_regs rvs" "ss' = (ss @ [s]) @ sx" "refs' = (refs @ [RefSession (length ss)]) @ rx"
        "map (ref_value fs' ss') rx = map Some rvs" "vs' = (vs @ [sr_value s]) @ map rv_value rvs"
      by blast
    with SessionMapped show ?thesis
      by (intro exI [of _ "s # sx"] exI [of _ "RefSession (length ss) # rx"]) (simp add: ref_value_def [of _ _ "RefSession (length ss)"] rv_value_def)
  qed
qed simp

text \<open>What the constructor establishes, in terms of the registered values themselves.\<close>

definition engine_of :: "crates \<Rightarrow> RegisteredValue list \<Rightarrow> Engine \<Rightarrow> bool" where
  "engine_of c rvs e \<longleftrightarrow>
     map (ref_value (eng_fpe_registered e) (eng_session_registered e)) (eng_value_id_to_ref e)
       = map Some rvs
     \<and> eng_fpe_registered e = fpe_regs rvs
     \<and> length (ff1_key (eng_fpe e)) = 32
     \<and> automaton (eng_exact_matcher e)
       = (if rvs = [] then None else Some (map (\<lambda>rv. as_bytes (rv_value rv)) rvs))
     \<and> (rvs \<noteq> [] \<longrightarrow> ac_build c (map (\<lambda>rv. as_bytes (rv_value rv)) rvs))"

lemma engine_new_of:
  assumes "hkdf_contract c" "engine_new c kp rvs retired key = Some (Inr e)"
  shows "engine_of c rvs e \<and> eng_session_mac_key e = key \<and> eng_retired e = retired"
proof -
  obtain fs ss refs vs where f: "fold add_registered rvs ([], [], [], []) = (fs, ss, refs, vs)"
    by (metis prod_cases4)
  from fold_add_registered [OF this] have t: "fs = fpe_regs rvs"
      "map (ref_value fs ss) refs = map Some rvs" "vs = map rv_value rvs"
    by auto
  obtain t where "fpe_new c kp = Some t" "length (ff1_key t) = 32"
    using fpe_new_key [OF assms(1)] by blast
  with assms(2) t f show ?thesis
    by (auto simp: engine_new_def engine_of_def exact_build_def comp_def split: if_splits)
qed

lemma engine_of_ref:
  assumes "engine_of c rvs e" "v < length rvs"
  shows "v < length (eng_value_id_to_ref e)"
    "ref_value (eng_fpe_registered e) (eng_session_registered e) (eng_value_id_to_ref e ! v) = Some (rvs ! v)"
proof -
  have eq: "map (ref_value (eng_fpe_registered e) (eng_session_registered e)) (eng_value_id_to_ref e)
      = map Some rvs"
    using assms(1) unfolding engine_of_def by blast
  then have len: "length (eng_value_id_to_ref e) = length rvs" by (metis length_map)
  with assms(2) show "v < length (eng_value_id_to_ref e)" by simp
  with eq assms(2) show "ref_value (eng_fpe_registered e) (eng_session_registered e)
      (eng_value_id_to_ref e ! v) = Some (rvs ! v)"
    by (metis nth_map)
qed

section \<open>What each match becomes\<close>

definition replacement ::
  "crates \<Rightarrow> Engine \<Rightarrow> bool \<Rightarrow> RegisteredValue \<Rightarrow> string \<times> ScrubNotice list" where
  "replacement c e stored rv =
     (case rv of
        Fpe r \<Rightarrow>
          (case fpe_scrub c (eng_fpe e) r of
             Some (Inr fake) \<Rightarrow> (fake, [])
           | _ \<Rightarrow> (REDACTION_PLACEHOLDER, [RedactedInternalFailure (fr_label r) ff1_failed]))
      | SessionMapped s \<Rightarrow>
          (case session_fake c (eng_session_mac_key e) s of
             Some (Some fake) \<Rightarrow>
               (fake, if stored then [] else [SessionMappedUnrestorable (sr_label s) (sr_kind s)])
           | _ \<Rightarrow> (REDACTION_PLACEHOLDER,
                if sr_kind s = Formatless then [RedactedFormatless (sr_label s)]
                else [RedactedInternalFailure (sr_label s) generator_failed])))"

definition store_after ::
  "crates \<Rightarrow> order \<Rightarrow> Engine \<Rightarrow> RegisteredValue \<Rightarrow> SessionStore \<Rightarrow> SessionStore" where
  "store_after c ord e rv store =
     (case rv of
        Fpe _ \<Rightarrow> store
      | SessionMapped s \<Rightarrow>
          (case session_fake c (eng_session_mac_key e) s of
             Some (Some fake) \<Rightarrow> fst (store_pair ord store (sr_value s) fake)
           | _ \<Rightarrow> store))"

text \<open>
  What the registration of a value is checked for: it is not empty and, with FF1, its alphabet is
  well-formed. Nothing checks its length, so a formatless value may lie above the HKDF ceiling, where
  its generator panics.
\<close>

definition registrable :: "RegisteredValue \<Rightarrow> bool" where
  "registrable rv \<longleftrightarrow> is_utf8 (rv_value rv) \<and> rv_value rv \<noteq> []
     \<and> (case rv of Fpe r \<Rightarrow> wf_registration r | SessionMapped _ \<Rightarrow> True)"

definition oversized :: "RegisteredValue \<Rightarrow> bool" where
  "oversized rv \<longleftrightarrow>
     (case rv of
        Fpe _ \<Rightarrow> False
      | SessionMapped s \<Rightarrow> sr_kind s = Formatless \<and> 6 + hkdf_max_len < length (sr_value s))"

text \<open>The values for which no generator panics.\<close>

definition scrubbable :: "RegisteredValue \<Rightarrow> bool" where
  "scrubbable rv \<longleftrightarrow> is_utf8 (rv_value rv) \<and> rv_value rv \<noteq> []
     \<and> (case rv of
          Fpe r \<Rightarrow> wf_registration r
        | SessionMapped s \<Rightarrow> sr_kind s = Formatless \<longrightarrow> length (sr_value s) \<le> 6 + hkdf_max_len)"

lemma scrubbable_iff: "scrubbable rv \<longleftrightarrow> registrable rv \<and> \<not> oversized rv"
  by (cases rv) (auto simp: scrubbable_def registrable_def oversized_def)

lemma all_registrable: "\<forall>rv \<in> set rvs. scrubbable rv \<Longrightarrow> \<forall>rv \<in> set rvs. registrable rv"
  by (simp add: scrubbable_iff)

lemma none_oversized: "\<forall>rv \<in> set rvs. scrubbable rv \<Longrightarrow> v < length rvs \<Longrightarrow> \<not> oversized (rvs ! v)"
  by (simp add: scrubbable_iff)

definition crates_ok :: "crates \<Rightarrow> bool" where
  "crates_ok c \<longleftrightarrow> ff1_contract c \<and> sha2_contract c \<and> hkdf_contract c \<and> aho_corasick_contract c"

lemma ref_crates_ok: "crates_ok ref_crates"
  by (simp add: crates_ok_def ref_contracts)

lemma fpe_scrub_total:
  assumes "ff1_contract c" "length (ff1_key t) = 32" "wf_registration reg"
  obtains r where "fpe_scrub c t reg = Some r"
proof (cases "eligible reg")
  case True
  then show thesis using that by (rule fpe_scrub_eligible [OF assms]) blast
next
  case False
  then show thesis using that fpe_scrub_ineligible [of reg c t] by blast
qed

lemma session_fake_total:
  assumes "sha2_contract c" "hkdf_contract c" "scrubbable (SessionMapped s)"
  shows "session_fake c key s \<noteq> None"
proof (cases "sr_kind s")
  case Card
  show ?thesis
  proof (cases "length (filter is_ascii_digit (str_chars (sr_value s))) = 16")
    case True
    have "is_utf8 (sr_value s)" using assms(3) by (simp add: scrubbable_def rv_value_def)
    then obtain f where "fake_card_visa16 c (as_bytes (sr_value s)) (sr_value s) = Some (Some f)"
      using True by (rule fake_card_full [OF assms(1)])
    with Card show ?thesis by (simp add: session_fake_def)
  qed (simp add: Card session_fake_def fake_card_visa16_def CARD_VISA_DIGIT_COUNT_def)
next
  case (Pii k)
  then show ?thesis by (cases k) (simp_all add: session_fake_def)
next
  case Formatless
  show ?thesis
  proof (cases "length (sr_value s) \<le> 6")
    case True
    with Formatless show ?thesis by (simp add: session_fake_def make_macfake_short BASE62_tail)
  next
    case False
    have "mac_tail_len BASE62 < length (sr_value s)"
      "length (sr_value s) \<le> mac_tail_len BASE62 + hkdf_max_len"
      using False Formatless assms(3) by (simp_all add: BASE62_tail scrubbable_def)
    then obtain f where "make_macfake c key (sr_value s) BASE62 = Some (Some f)"
      by (rule make_macfake_ok [OF named_constants_wf(1) assms(2)])
    with Formatless show ?thesis by (simp add: session_fake_def)
  qed
qed

lemma session_fake_oversized:
  assumes "hkdf_contract c" "oversized (SessionMapped s)"
  shows "session_fake c key s = None"
  using assms(2) make_macfake_long [OF assms(1), of BASE62 "sr_value s" key]
  by (simp add: oversized_def session_fake_def BASE62_tail)

lemma scrub_fpe_registered:
  assumes "crates_ok c" "engine_of c rvs e" "Fpe r \<in> set rvs" "scrubbable (Fpe r)"
  shows "scrub_fpe c e (fr_value r) r st =
    Some (case replacement c e b (Fpe r) of (s, ns) \<Rightarrow> emit s ns st)"
proof -
  have "r \<in> set (eng_fpe_registered e)" and key: "length (ff1_key (eng_fpe e)) = 32"
    using assms(2,3) by (auto simp: engine_of_def fpe_regs_set)
  then have "classify c \<lparr>ic_registered = eng_fpe_registered e, ic_retired = eng_retired e,
      ic_fpe_tokenizer = eng_fpe e, ic_session_mac_key = eng_session_mac_key e\<rparr>
      (fr_value r) (fr_alphabet r) = Some Scrub"
    by (auto simp: classify_def list_ex_iff)
  moreover have "wf_registration r" using assms(4) by (simp add: scrubbable_def)
  then obtain x where "fpe_scrub c (eng_fpe e) r = Some x"
    using assms(1) key by (auto simp: crates_ok_def elim: fpe_scrub_total)
  ultimately show ?thesis
    by (cases x) (auto simp: scrub_fpe_def replacement_def)
qed

lemma scrub_session_registered:
  assumes "crates_ok c" "scrubbable (SessionMapped s)"
  shows "scrub_session c ord e s st =
    Some (case replacement c e (st_store st \<noteq> NoStore) (SessionMapped s) of (x, ns) \<Rightarrow>
      emit x ns (st\<lparr>st_store := store_after c ord e (SessionMapped s) (st_store st)\<rparr>))"
proof -
  obtain f where "session_fake c (eng_session_mac_key e) s = Some f"
    using session_fake_total [OF _ _ assms(2)] assms(1) by (auto simp: crates_ok_def)
  then show ?thesis
    by (cases f; cases "st_store st")
      (auto simp: scrub_session_def replacement_def store_after_def store_pair_def emit_def)
qed

lemma scrub_step_spec:
  assumes "crates_ok c" "engine_of c rvs e" "scrubbable (rvs ! v)" "v < length rvs"
    and "str_slice input (st_cursor st) a = Some gap" "str_slice input a b = Some (rv_value (rvs ! v))"
  shows "scrub_step c ord e input \<lparr>m_start = a, m_end = b, m_kind = Exact v\<rparr> st =
    Some (case replacement c e (st_store st \<noteq> NoStore) (rvs ! v) of (x, ns) \<Rightarrow>
      emit x ns (st\<lparr>st_output := st_output st @ gap, st_cursor := b,
        st_store := store_after c ord e (rvs ! v) (st_store st)\<rparr>))"
proof -
  note ref = engine_of_ref [OF assms(2,4)]
  have mem: "rvs ! v \<in> set rvs" using assms(4) by simp
  note ok = assms(3)
  show ?thesis
  proof (cases "rvs ! v")
    case (Fpe r)
    obtain i where i: "eng_value_id_to_ref e ! v = RefFpe i" "i < length (eng_fpe_registered e)"
        "eng_fpe_registered e ! i = r"
      using ref(2) Fpe by (auto simp: ref_value_def split: RegistrationRef.splits if_splits)
    have "scrub_fpe c e (fr_value r) r st' =
        Some (case replacement c e b' (Fpe r) of (s, ns) \<Rightarrow> emit s ns st')" for st' b'
      using scrub_fpe_registered [OF assms(1,2)] mem ok Fpe by simp
    with assms(5,6) ref(1) i Fpe show ?thesis
      by (simp add: scrub_step_def rv_value_def store_after_def)
  next
    case (SessionMapped s)
    obtain i where i: "eng_value_id_to_ref e ! v = RefSession i"
        "i < length (eng_session_registered e)" "eng_session_registered e ! i = s"
      using ref(2) SessionMapped by (auto simp: ref_value_def split: RegistrationRef.splits if_splits)
    with assms(5,6) ref(1) ok SessionMapped show ?thesis
      by (simp add: scrub_step_def scrub_session_registered [OF assms(1)])
  qed
qed

text \<open>At a formatless value above the ceiling the iteration panics.\<close>

lemma scrub_step_oversized:
  assumes "crates_ok c" "engine_of c rvs e" "oversized (rvs ! v)" "v < length rvs"
  shows "scrub_step c ord e input \<lparr>m_start = a, m_end = b, m_kind = Exact v\<rparr> st = panic"
proof -
  note ref = engine_of_ref [OF assms(2,4)]
  obtain s where s: "rvs ! v = SessionMapped s" using assms(3) by (cases "rvs ! v") (auto simp: oversized_def)
  obtain i where "eng_value_id_to_ref e ! v = RefSession i" "i < length (eng_session_registered e)"
      "eng_session_registered e ! i = s"
    using ref(2) s by (auto simp: ref_value_def split: RegistrationRef.splits if_splits)
  moreover have "session_fake c key s = None" for key
    using assms(1,3) s by (simp add: crates_ok_def session_fake_oversized)
  ultimately show ?thesis
    using ref(1) by (simp add: scrub_step_def scrub_session_def Let_def split: Option.bind_split)
qed

text \<open>The text with each match replaced and everything between the matches kept.\<close>

fun splice_matches :: "string \<Rightarrow> nat \<Rightarrow> (nat \<times> nat \<times> nat) list \<Rightarrow> (nat \<Rightarrow> string) \<Rightarrow> string" where
  "splice_matches s i [] rep = drop i s"
| "splice_matches s i ((a, b, v) # ms) rep = take (a - i) (drop i s) @ rep v @ splice_matches s b ms rep"

text \<open>The matches are occurrences of the registered values, from position \<open>i\<close> on.\<close>

definition good_matches :: "string \<Rightarrow> RegisteredValue list \<Rightarrow> nat \<Rightarrow> (nat \<times> nat \<times> nat) list \<Rightarrow> bool" where
  "good_matches input rvs i ms \<longleftrightarrow> matches_from i ms
     \<and> (\<forall>(a, b, v) \<in> set ms. v < length rvs \<and> str_slice input a b = Some (rv_value (rvs ! v))
          \<and> is_char_boundary input a \<and> is_char_boundary input b)"

lemma slice_between:
  "is_char_boundary s i \<Longrightarrow> is_char_boundary s j \<Longrightarrow> i \<le> j \<Longrightarrow> j \<le> length s \<Longrightarrow>
     str_slice s i j = Some (take (j - i) (drop i s))"
  by (simp add: str_slice_def)

lemma store_after_kind [simp]: "store_after c ord e rv store = NoStore \<longleftrightarrow> store = NoStore"
  by (auto simp: store_after_def store_pair_def
      split: RegisteredValue.splits option.splits SessionStore.splits)

lemma scrub_loop_spec:
  assumes "crates_ok c" "engine_of c rvs e" "\<forall>(a, b, v) \<in> set ms. scrubbable (rvs ! v)"
    and "good_matches input rvs (st_cursor st) ms" "is_char_boundary input (st_cursor st)"
    and "st_cursor st \<le> length input"
  shows "\<exists>st'. scrub_loop c ord e input
        (map (\<lambda>(a, b, v). \<lparr>m_start = a, m_end = b, m_kind = Exact v\<rparr>) ms) st = Some st'
    \<and> st_output st' @ drop (st_cursor st') input = st_output st @ splice_matches input (st_cursor st) ms
        (\<lambda>v. fst (replacement c e (st_store st \<noteq> NoStore) (rvs ! v)))
    \<and> st_count st' = st_count st + length ms
    \<and> st_notices st' = st_notices st
        @ concat (map (\<lambda>(a, b, v). snd (replacement c e (st_store st \<noteq> NoStore) (rvs ! v))) ms)
    \<and> st_store st' = fold (\<lambda>(a, b, v). store_after c ord e (rvs ! v)) ms (st_store st)
    \<and> is_char_boundary input (st_cursor st') \<and> st_cursor st' \<le> length input"
  using assms(3-6)
proof (induction ms arbitrary: st)
  case (Cons m ms)
  obtain a b v where m: "m = (a, b, v)" by (cases m)
  have g: "st_cursor st \<le> a" "a < b" "matches_from b ms" "v < length rvs"
      "str_slice input a b = Some (rv_value (rvs ! v))" "is_char_boundary input a"
      "is_char_boundary input b"
    using Cons.prems(2) m by (auto simp: good_matches_def)
  then have ab: "b \<le> length input" by (simp add: str_slice_SomeD)
  then have gap: "str_slice input (st_cursor st) a =
      Some (take (a - st_cursor st) (drop (st_cursor st) input))"
    using g Cons.prems(3) by (intro slice_between) auto
  let ?rep = "replacement c e (st_store st \<noteq> NoStore) (rvs ! v)"
  let ?st = "emit (fst ?rep) (snd ?rep) (st\<lparr>st_output := st_output st
      @ take (a - st_cursor st) (drop (st_cursor st) input), st_cursor := b,
      st_store := store_after c ord e (rvs ! v) (st_store st)\<rparr>)"
  have step: "scrub_step c ord e input \<lparr>m_start = a, m_end = b, m_kind = Exact v\<rparr> st = Some ?st"
    using scrub_step_spec [OF assms(1,2) _ g(4) gap g(5)] Cons.prems(1) m by (simp add: case_prod_beta)
  have "\<forall>(a, b, v) \<in> set ms. scrubbable (rvs ! v)" using Cons.prems(1) by simp
  moreover have "good_matches input rvs (st_cursor ?st) ms"
    using Cons.prems(2) m g(3) by (simp add: good_matches_def emit_def)
  moreover have "is_char_boundary input (st_cursor ?st)" "st_cursor ?st \<le> length input"
    using g(7) ab by (simp_all add: emit_def)
  ultimately have ih: "\<exists>st'. scrub_loop c ord e input
        (map (\<lambda>(a, b, v). \<lparr>m_start = a, m_end = b, m_kind = Exact v\<rparr>) ms) ?st = Some st'
    \<and> st_output st' @ drop (st_cursor st') input = st_output ?st @ splice_matches input (st_cursor ?st) ms
        (\<lambda>v. fst (replacement c e (st_store ?st \<noteq> NoStore) (rvs ! v)))
    \<and> st_count st' = st_count ?st + length ms
    \<and> st_notices st' = st_notices ?st
        @ concat (map (\<lambda>(a, b, v). snd (replacement c e (st_store ?st \<noteq> NoStore) (rvs ! v))) ms)
    \<and> st_store st' = fold (\<lambda>(a, b, v). store_after c ord e (rvs ! v)) ms (st_store ?st)
    \<and> is_char_boundary input (st_cursor st') \<and> st_cursor st' \<le> length input"
    by (rule Cons.IH)
  have kind: "st_store ?st \<noteq> NoStore \<longleftrightarrow> st_store st \<noteq> NoStore" by (simp add: emit_def)
  from ih show ?case
    unfolding kind by (simp add: m step) (simp add: emit_def)
qed simp

text \<open>With an oversized value among the matches the loop panics, wherever it stands.\<close>

lemma scrub_loop_oversized:
  assumes "crates_ok c" "engine_of c rvs e" "\<forall>rv \<in> set rvs. registrable rv"
    and "good_matches input rvs (st_cursor st) ms" "\<exists>(a, b, v) \<in> set ms. oversized (rvs ! v)"
  shows "scrub_loop c ord e input
    (map (\<lambda>(a, b, v). \<lparr>m_start = a, m_end = b, m_kind = Exact v\<rparr>) ms) st = panic"
  using assms(4,5)
proof (induction ms arbitrary: st)
  case (Cons m ms)
  obtain a b v where m: "m = (a, b, v)" by (cases m)
  have g: "matches_from b ms" "v < length rvs" "str_slice input a b = Some (rv_value (rvs ! v))"
    using Cons.prems(1) m by (auto simp: good_matches_def)
  show ?case
  proof (cases "oversized (rvs ! v)")
    case True
    then show ?thesis using scrub_step_oversized [OF assms(1,2) True g(2)] m by simp
  next
    case False
    with g(2) assms(3) have scr: "scrubbable (rvs ! v)" by (simp add: scrubbable_iff)
    show ?thesis
    proof (cases "str_slice input (st_cursor st) a")
      case None
      then show ?thesis using m by (simp add: scrub_step_def)
    next
      case (Some gap)
      obtain x ns where "replacement c e (st_store st \<noteq> NoStore) (rvs ! v) = (x, ns)" by fastforce
      then have "scrub_step c ord e input \<lparr>m_start = a, m_end = b, m_kind = Exact v\<rparr> st =
          Some (emit x ns (st\<lparr>st_output := st_output st @ gap, st_cursor := b,
            st_store := store_after c ord e (rvs ! v) (st_store st)\<rparr>))" (is "_ = Some ?st")
        using scrub_step_spec [OF assms(1,2) scr g(2) Some g(3)] by simp
      moreover have "good_matches input rvs (st_cursor ?st) ms"
        using Cons.prems(1) m g(1) by (simp add: good_matches_def emit_def)
      moreover have "\<exists>(a, b, v) \<in> set ms. oversized (rvs ! v)" using Cons.prems(2) m False by auto
      ultimately show ?thesis using Cons.IH [of ?st] m by simp
    qed
  qed
qed simp

section \<open>The matches\<close>

definition engine_matches :: "crates \<Rightarrow> RegisteredValue list \<Rightarrow> string \<Rightarrow> (nat \<times> nat \<times> nat) list" where
  "engine_matches c rvs input =
     (if rvs = [] then []
      else ac_find_iter c (map (\<lambda>rv. as_bytes (rv_value rv)) rvs) (as_bytes input))"

lemma occurs_at_bytes:
  "occurs_at (as_bytes p) (as_bytes s) i \<longleftrightarrow>
     i + length p \<le> length s \<and> take (length p) (drop i s) = p"
  by (simp add: occurs_at_def as_bytes_take_drop)

lemma exact_scan_matches:
  "engine_of c rvs e \<Longrightarrow> exact_scan c (eng_exact_matcher e) input =
     map (\<lambda>(a, b, v). \<lparr>m_start = a, m_end = b, m_kind = Exact v\<rparr>) (engine_matches c rvs input)"
  by (simp add: exact_scan_def engine_matches_def engine_of_def)

lemma registered_matches_leftmost:
  assumes "crates_ok c" "engine_of c rvs e" "\<forall>rv \<in> set rvs. registrable rv"
  shows "leftmost_longest (map (\<lambda>rv. as_bytes (rv_value rv)) rvs) (as_bytes input)
    (engine_matches c rvs input)"
proof (cases "rvs = []")
  case True
  then show ?thesis by (simp add: engine_matches_def leftmost_longest_def)
next
  case False
  have "ac_build c (map (\<lambda>rv. as_bytes (rv_value rv)) rvs)"
    using assms(2) False by (simp add: engine_of_def)
  moreover have "\<forall>rv \<in> set rvs. as_bytes (rv_value rv) \<noteq> []"
    using assms(3) by (simp add: registrable_def)
  then have "[] \<notin> set (map (\<lambda>rv. as_bytes (rv_value rv)) rvs)" by (metis imageE list.set_map)
  ultimately show ?thesis
    using assms(1) False by (simp add: crates_ok_def aho_corasick_contract_def engine_matches_def)
qed

lemma registered_matches_good:
  assumes "crates_ok c" "engine_of c rvs e" "\<forall>rv \<in> set rvs. registrable rv" "is_utf8 input"
  shows "good_matches input rvs 0 (engine_matches c rvs input)"
proof -
  note ll = registered_matches_leftmost [OF assms(1-3), of input, unfolded leftmost_longest_def]
  have "v < length rvs \<and> str_slice input a b = Some (rv_value (rvs ! v))
      \<and> is_char_boundary input a \<and> is_char_boundary input b"
    if "(a, b, v) \<in> set (engine_matches c rvs input)" for a b v
  proof -
    let ?p = "rv_value (rvs ! v)"
    have v: "v < length rvs" and occ: "occurs_at (as_bytes ?p) (as_bytes input) a"
      and b: "b = a + length ?p"
      using ll that by fastforce+
    have p: "is_utf8 ?p" "?p \<noteq> []" using assms(3) v by (auto simp: registrable_def)
    have o: "a + length ?p \<le> length input" "take (length ?p) (drop a input) = ?p"
      using occ by (auto simp: occurs_at_bytes)
    note bd = occurrence_boundaries [OF assms(4) p o]
    have "str_slice input a b = Some ?p" using bd o b by (simp add: str_slice_def)
    with v bd b show ?thesis by simp
  qed
  with ll show ?thesis by (auto simp: good_matches_def)
qed

lemmas engine_matches_leftmost = registered_matches_leftmost [OF _ _ all_registrable]
lemmas engine_matches_good = registered_matches_good [OF _ _ all_registrable]

text \<open>The pieces of the input that no match covers.\<close>

fun gaps :: "string \<Rightarrow> nat \<Rightarrow> (nat \<times> nat \<times> nat) list \<Rightarrow> string list" where
  "gaps s i [] = [drop i s]"
| "gaps s i ((a, b, v) # ms) = take (a - i) (drop i s) # gaps s b ms"

lemma splice_id:
  assumes "matches_from i ms" "\<forall>(a, b, v) \<in> set ms. b \<le> length s \<and> take (b - a) (drop a s) = rep v"
  shows "splice_matches s i ms rep = drop i s"
  using assms
proof (induction ms arbitrary: i)
  case (Cons m ms)
  obtain a b v where m: "m = (a, b, v)" by (cases m)
  have f: "i \<le> a" "a < b" "matches_from b ms" "b \<le> length s" "take (b - a) (drop a s) = rep v"
    using Cons.prems m by auto
  have "take (a - i) (drop i s) @ rep v @ drop b s = drop i s"
  proof -
    have "rep v @ drop b s = drop a s"
      using f(2,5) append_take_drop_id [of "b - a" "drop a s"] by simp
    then show ?thesis using f(1) append_take_drop_id [of "a - i" "drop i s"] by simp
  qed
  with m Cons.IH [OF f(3)] Cons.prems(2) show ?case by simp
qed simp

text \<open>Copied pieces and replacements alternate in the spliced text.\<close>

lemma splice_pieces:
  assumes "matches_from i ms"
  shows "\<exists>ps rest. map snd ps = map (\<lambda>(a, b, v). v) ms \<and> gaps s i ms = map fst ps @ [rest]
    \<and> (\<forall>rep. splice_matches s i ms rep = concat (map (\<lambda>(g, v). g @ rep v) ps) @ rest)"
  using assms
proof (induction ms arbitrary: i)
  case Nil
  show ?case by (intro exI [of _ "[]"] exI [of _ "drop i s"]) simp
next
  case (Cons m ms)
  obtain a b v where m: "m = (a, b, v)" by (cases m)
  have "matches_from b ms" using Cons.prems m by simp
  from Cons.IH [OF this] obtain ps rest where "map snd ps = map (\<lambda>(a, b, v). v) ms"
      "gaps s b ms = map fst ps @ [rest]"
      "\<forall>rep. splice_matches s b ms rep = concat (map (\<lambda>(g, v). g @ rep v) ps) @ rest"
    by blast
  with m show ?case
    by (intro exI [of _ "(take (a - i) (drop i s), v) # ps"] exI [of _ rest]) simp
qed

lemma gap_occurrence:
  assumes "g \<in> set (gaps s i ms)" "matches_from i ms" "k + length p \<le> length g"
    and "take (length p) (drop k g) = p" "p \<noteq> []"
  shows "\<exists>pos. pos + length p \<le> length s \<and> take (length p) (drop pos s) = p \<and> i \<le> pos
    \<and> (\<forall>(a, b, v) \<in> set ms. b \<le> pos \<or> pos + length p \<le> a)"
  using assms
proof (induction ms arbitrary: i)
  case Nil
  moreover have "0 < length p" "k + length p \<le> length s - i" using Nil.prems by simp_all
  then have "i + k + length p \<le> length s" by linarith
  ultimately show ?case
    by (intro exI [of _ "i + k"]) (auto simp: add.commute)
next
  case (Cons m ms)
  obtain a b v where m: "m = (a, b, v)" by (cases m)
  show ?case
  proof (cases "g = take (a - i) (drop i s)")
    case True
    have ge: "a \<le> a'" if "(a', b', v') \<in> set ms" for a' b' v'
      using matches_from_ge [of b ms a' b' v'] Cons.prems(2) m that by simp
    have len: "k + length p \<le> a - i" "k + length p \<le> length s - i" "0 < length p"
      using Cons.prems(3,5) True by simp_all
    then have "length p \<le> a - (i + k)" by linarith
    then have "take (length p) (drop k (take (a - i) (drop i s))) = take (length p) (drop (i + k) s)"
      by (simp add: drop_take min_absorb1 add.commute)
    moreover have "i + k + length p \<le> a" "i + k + length p \<le> length s" using len by linarith+
    ultimately show ?thesis
      using True m ge Cons.prems(4) by (intro exI [of _ "i + k"]) force
  next
    case False
    then have "g \<in> set (gaps s b ms)" "matches_from b ms" "i \<le> a" "a < b"
      using Cons.prems(1,2) m by auto
    from Cons.IH [OF this(1,2) Cons.prems(3,4,5)] this(3,4) m show ?thesis by auto
  qed
qed

lemma gaps_clean:
  assumes "leftmost_longest (map (\<lambda>rv. as_bytes (rv_value rv)) rvs) (as_bytes input) ms"
    and "g \<in> set (gaps input 0 ms)" "rv \<in> set rvs" "rv_value rv \<noteq> []"
  shows "\<not> str_contains g (rv_value rv)"
proof
  let ?p = "rv_value rv"
  assume "str_contains g ?p"
  then obtain k where "str_find g ?p = Some k" by (auto simp: str_contains_def)
  then have k: "k + length ?p \<le> length g" "take (length ?p) (drop k g) = ?p"
    using str_find_Some by blast+
  have "matches_from 0 ms" using assms(1) by (simp add: leftmost_longest_def)
  from gap_occurrence [OF assms(2) this k assms(4)] obtain pos where pos:
      "pos + length ?p \<le> length input" "take (length ?p) (drop pos input) = ?p"
      "\<forall>(a, b, v) \<in> set ms. b \<le> pos \<or> pos + length ?p \<le> a"
    by blast
  then have "occurs_at (as_bytes ?p) (as_bytes input) pos" by (simp add: occurs_at_bytes)
  then have "\<exists>(a, b, v) \<in> set ms. a < pos + length ?p \<and> pos < b"
    using assms(1,3) unfolding leftmost_longest_def by fastforce
  with pos(3) show False by fastforce
qed

lemma scrub_impl_fits:
  assumes "crates_ok c" "engine_of c rvs e" "\<forall>rv \<in> set rvs. registrable rv" "is_utf8 input"
    and "\<forall>(a, b, v) \<in> set (engine_matches c rvs input). \<not> oversized (rvs ! v)"
  shows "scrub_impl c ord e input store =
    Some (\<lparr>sc_output = splice_matches input 0 (engine_matches c rvs input)
             (\<lambda>v. fst (replacement c e (store \<noteq> NoStore) (rvs ! v))),
           scrubbed_count = length (engine_matches c rvs input),
           notices = concat (map (\<lambda>(a, b, v). snd (replacement c e (store \<noteq> NoStore) (rvs ! v)))
             (engine_matches c rvs input))\<rparr>,
          fold (\<lambda>(a, b, v). store_after c ord e (rvs ! v)) (engine_matches c rvs input) store)"
proof -
  let ?st = "\<lparr>st_output = [], st_notices = [], st_count = 0, st_cursor = 0, st_store = store\<rparr>"
  have good: "good_matches input rvs 0 (engine_matches c rvs input)"
    by (rule registered_matches_good [OF assms(1-4)])
  then have "\<forall>(a, b, v) \<in> set (engine_matches c rvs input). scrubbable (rvs ! v)"
    using assms(3,5) by (fastforce simp: good_matches_def scrubbable_iff)
  moreover have "good_matches input rvs (st_cursor ?st) (engine_matches c rvs input)" using good by simp
  ultimately obtain st' where st':
      "scrub_loop c ord e input (map (\<lambda>(a, b, v). \<lparr>m_start = a, m_end = b, m_kind = Exact v\<rparr>)
         (engine_matches c rvs input)) ?st = Some st'"
      "st_output st' @ drop (st_cursor st') input = splice_matches input 0 (engine_matches c rvs input)
        (\<lambda>v. fst (replacement c e (store \<noteq> NoStore) (rvs ! v)))"
      "st_count st' = length (engine_matches c rvs input)"
      "st_notices st' = concat (map (\<lambda>(a, b, v). snd (replacement c e (store \<noteq> NoStore) (rvs ! v)))
        (engine_matches c rvs input))"
      "st_store st' = fold (\<lambda>(a, b, v). store_after c ord e (rvs ! v)) (engine_matches c rvs input) store"
      "is_char_boundary input (st_cursor st')" "st_cursor st' \<le> length input"
    using scrub_loop_spec [OF assms(1,2), of "engine_matches c rvs input" input ?st ord]
    by (auto simp: is_char_boundary_def [of input 0])
  have "str_slice_from input (st_cursor st') = Some (drop (st_cursor st') input)"
    using st'(6,7) by (simp add: str_slice_def is_char_boundary_def)
  with st' show ?thesis
    by (simp add: scrub_impl_def exact_scan_matches [OF assms(2)])
qed

lemma scrub_impl_oversized:
  assumes "crates_ok c" "engine_of c rvs e" "\<forall>rv \<in> set rvs. registrable rv" "is_utf8 input"
    and "\<exists>(a, b, v) \<in> set (engine_matches c rvs input). oversized (rvs ! v)"
  shows "scrub_impl c ord e input store = panic"
proof -
  have "scrub_loop c ord e input (map (\<lambda>(a, b, v). \<lparr>m_start = a, m_end = b, m_kind = Exact v\<rparr>)
      (engine_matches c rvs input))
      \<lparr>st_output = [], st_notices = [], st_count = 0, st_cursor = 0, st_store = store\<rparr> = panic"
    using registered_matches_good [OF assms(1-4)] assms(5)
    by (intro scrub_loop_oversized [OF assms(1-3)]) simp_all
  then show ?thesis by (simp add: scrub_impl_def exact_scan_matches [OF assms(2)])
qed

lemma scrub_impl_spec:
  assumes "crates_ok c" "engine_of c rvs e" "\<forall>rv \<in> set rvs. scrubbable rv" "is_utf8 input"
  shows "scrub_impl c ord e input store =
    Some (\<lparr>sc_output = splice_matches input 0 (engine_matches c rvs input)
             (\<lambda>v. fst (replacement c e (store \<noteq> NoStore) (rvs ! v))),
           scrubbed_count = length (engine_matches c rvs input),
           notices = concat (map (\<lambda>(a, b, v). snd (replacement c e (store \<noteq> NoStore) (rvs ! v)))
             (engine_matches c rvs input))\<rparr>,
          fold (\<lambda>(a, b, v). store_after c ord e (rvs ! v)) (engine_matches c rvs input) store)"
proof (rule scrub_impl_fits [OF assms(1,2) all_registrable [OF assms(3)] assms(4)])
  show "\<forall>(a, b, v) \<in> set (engine_matches c rvs input). \<not> oversized (rvs ! v)"
    using engine_matches_good [OF assms] none_oversized [OF assms(3)] by (fastforce simp: good_matches_def)
qed

section \<open>Sessions\<close>

lemma store_pair_map:
  "fst (store_pair ord (MapStore s now) r fake) = MapStore (fst (get_or_insert ord s r now (\<lambda>_. fake))) now"
  by (simp add: store_pair_def)

text \<open>Threading a session map through a scrub keeps its invariant.\<close>

lemma store_after_inv:
  assumes "sm_inv s"
  obtains s' where "store_after c ord e rv (MapStore s now) = MapStore s' now" "sm_inv s'"
proof -
  have "\<exists>s'. store_after c ord e rv (MapStore s now) = MapStore s' now \<and> sm_inv s'"
    using assms get_or_insert_inv [OF assms]
    by (auto simp: store_after_def store_pair_map split: RegisteredValue.split option.split)
  with that show thesis by blast
qed

lemma store_fold_inv:
  "sm_inv s \<Longrightarrow> \<exists>s'. fold (\<lambda>(a, b, v). store_after c ord e (rvs ! v)) ms (MapStore s now) = MapStore s' now
     \<and> sm_inv s'"
proof (induction ms arbitrary: s)
  case (Cons m ms)
  obtain a b v where m: "m = (a, b, v)" by (cases m)
  obtain s1 where "store_after c ord e (rvs ! v) (MapStore s now) = MapStore s1 now" "sm_inv s1"
    by (rule store_after_inv [OF Cons.prems])
  with Cons.IH [of s1] m show ?case by simp
qed simp

lemma replacement_text: "fst (replacement c e b rv) = fst (replacement c e b' rv)"
  by (auto simp: replacement_def split: RegisteredValue.splits option.splits sum.splits)

lemma replacement_stored_notices:
  "SessionMappedUnrestorable l k \<notin> set (snd (replacement c e True rv))"
  by (auto simp: replacement_def split: RegisteredValue.splits option.splits sum.splits)

lemma engine_scrub_of:
  assumes "crates_ok c" "engine_new c kp rvs retired key = Some (Inr e)"
    and "\<forall>rv \<in> set rvs. scrubbable rv" "is_utf8 input"
  shows "engine_scrub c e input =
    Some \<lparr>sc_output = splice_matches input 0 (engine_matches c rvs input)
            (\<lambda>v. fst (replacement c e False (rvs ! v))),
          scrubbed_count = length (engine_matches c rvs input),
          notices = concat (map (\<lambda>(a, b, v). snd (replacement c e False (rvs ! v)))
            (engine_matches c rvs input))\<rparr>"
proof -
  have "engine_of c rvs e" using engine_new_of assms(1,2) by (simp add: crates_ok_def)
  from scrub_impl_spec [OF assms(1) this assms(3,4)] show ?thesis by (simp add: engine_scrub_def)
qed

section \<open>A sample engine\<close>

definition sample_engine :: Engine where
  "sample_engine = \<lparr>eng_fpe = sample_tokenizer, eng_fpe_registered = [sample_reg],
     eng_session_registered = [], eng_retired = [],
     eng_exact_matcher = \<lparr>automaton = Some [as_bytes (fr_value sample_reg)]\<rparr>,
     eng_session_mac_key = [], eng_value_id_to_ref = [RefFpe 0]\<rparr>"

definition sample_input :: string where
  "sample_input = ''key sk-123456 end''"

lemma sample_engine_new:
  "engine_new ref_crates \<lparr>provider_key = replicate 32 1\<rparr> [Fpe sample_reg] [] [] = Some (Inr sample_engine)"
  by (simp add: engine_new_def exact_build_def fpe_new_def vault_key_def FF1_KEY_LEN_def ref_crates_def
      hkdf_max_len_def sample_engine_def sample_tokenizer_def)

lemma sample_scrubbable: "\<forall>rv \<in> set [Fpe sample_reg]. scrubbable rv"
  using sample_facts(1) by (simp add: scrubbable_def rv_value_def) (simp add: sample_reg_def)

lemma sample_matches: "engine_matches ref_crates [Fpe sample_reg] sample_input = [(4, 13, 0)]"
  by (simp add: engine_matches_def rv_value_def sample_reg_def sample_input_def as_bytes_def
      ref_crates_def)

section \<open>Properties\<close>

text \<open>
  Property (C1). \<open>Engine::scrub\<close> on an engine built by \<open>Engine::new\<close> over registrable values, on UTF-8 text.
  It panics exactly when a formatless value above the HKDF ceiling (8166 bytes) is among the matches.
  Otherwise its output is the input with every exact match of a registered value replaced (by the fake
  of its registration, or by the redaction placeholder where no fake can be made) and every other byte
  kept, the count is the number of matches, and the notices are those of the replacements in order.
\<close>

theorem engine_scrub_spec:
  assumes "crates_ok c" "engine_new c kp rvs retired key = Some (Inr e)"
    and "\<forall>rv \<in> set rvs. registrable rv" "is_utf8 input"
  shows "engine_scrub c e input =
    (if \<exists>(a, b, v) \<in> set (engine_matches c rvs input). oversized (rvs ! v) then panic
     else Some \<lparr>sc_output = splice_matches input 0 (engine_matches c rvs input)
                  (\<lambda>v. fst (replacement c e False (rvs ! v))),
                scrubbed_count = length (engine_matches c rvs input),
                notices = concat (map (\<lambda>(a, b, v). snd (replacement c e False (rvs ! v)))
                  (engine_matches c rvs input))\<rparr>)"
proof -
  have e: "engine_of c rvs e" using engine_new_of assms(1,2) by (simp add: crates_ok_def)
  show ?thesis
  proof (cases "\<exists>(a, b, v) \<in> set (engine_matches c rvs input). oversized (rvs ! v)")
    case True
    then show ?thesis
      using scrub_impl_oversized [OF assms(1) e assms(3,4) True, of "\<lambda>xs. xs" NoStore]
      by (simp add: engine_scrub_def)
  next
    case False
    then have "\<forall>(a, b, v) \<in> set (engine_matches c rvs input). \<not> oversized (rvs ! v)" by blast
    from scrub_impl_fits [OF assms(1) e assms(3,4) this, of "\<lambda>xs. xs" NoStore] False
    show ?thesis by (simp only: engine_scrub_def if_False) simp
  qed
qed

theorem engine_scrub_spec_witness:
  "engine_scrub ref_crates sample_engine sample_input =
     Some \<lparr>sc_output = ''key sk-234567 end'', scrubbed_count = 1, notices = []\<rparr>"
proof -
  have "is_utf8 sample_input" by (simp add: sample_input_def)
  moreover have "replacement ref_crates sample_engine False (Fpe sample_reg) = (''sk-234567'', [])"
    by (simp add: replacement_def sample_engine_def sample_scrub)
  moreover have "\<not> oversized (Fpe sample_reg)" by (simp add: oversized_def)
  ultimately show ?thesis
    using engine_scrub_spec [OF ref_crates_ok sample_engine_new all_registrable [OF sample_scrubbable],
        of sample_input]
    by (simp add: sample_matches) (simp add: sample_input_def)
qed

text \<open>
  Property (C5). When \<open>Engine::scrub\<close> on registrable values and UTF-8 text returns, its output is the input
  with some pieces exchanged: the input is a sequence of copied pieces with a registered value between
  any two, the output has the same copied pieces in the same places with a replacement instead of
  each value, there are as many as the count says, and no copied piece contains a registered value.
\<close>

theorem scrub_leaves_no_value:
  assumes "crates_ok c" "engine_new c kp rvs retired key = Some (Inr e)"
    and "\<forall>rv \<in> set rvs. registrable rv" "is_utf8 input" "engine_scrub c e input = Some r"
  shows "\<exists>ps rest. input = concat (map (\<lambda>(g, rv). g @ rv_value rv) ps) @ rest
    \<and> sc_output r = concat (map (\<lambda>(g, rv). g @ fst (replacement c e False rv)) ps) @ rest
    \<and> scrubbed_count r = length ps \<and> snd ` set ps \<subseteq> set rvs
    \<and> (\<forall>g \<in> insert rest (fst ` set ps). \<forall>rv \<in> set rvs. \<not> str_contains g (rv_value rv))"
proof -
  have e: "engine_of c rvs e" using engine_new_of assms(1,2) by (simp add: crates_ok_def)
  let ?ms = "engine_matches c rvs input" and ?val = "\<lambda>v. rv_value (rvs ! v)"
  let ?rep = "\<lambda>v. fst (replacement c e False (rvs ! v))"
  have good: "good_matches input rvs 0 ?ms" by (rule registered_matches_good [OF assms(1) e assms(3,4)])
  then have mf: "matches_from 0 ?ms" by (simp add: good_matches_def)
  obtain ps rest where ps: "map snd ps = map (\<lambda>(a, b, v). v) ?ms" "gaps input 0 ?ms = map fst ps @ [rest]"
      "\<And>rep. splice_matches input 0 ?ms rep = concat (map (\<lambda>(g, v). g @ rep v) ps) @ rest"
    using splice_pieces [OF mf, of input] by metis
  have no_panic: "\<forall>(a, b, v) \<in> set ?ms. \<not> oversized (rvs ! v)"
  proof (rule ccontr)
    assume "\<not> ?thesis"
    then have "\<exists>(a, b, v) \<in> set ?ms. oversized (rvs ! v)" by blast
    from scrub_impl_oversized [OF assms(1) e assms(3,4) this, of "\<lambda>xs. xs" NoStore] assms(5)
    show False by (simp add: engine_scrub_def)
  qed
  have r: "sc_output r = splice_matches input 0 ?ms ?rep" "scrubbed_count r = length ?ms"
    using scrub_impl_fits [OF assms(1) e assms(3,4) no_panic, of "\<lambda>xs. xs" NoStore] assms(5)
    by (auto simp: engine_scrub_def)
  have "splice_matches input 0 ?ms ?val = drop 0 input"
  proof (rule splice_id [OF mf])
    show "\<forall>(a, b, v) \<in> set ?ms. b \<le> length input \<and> take (b - a) (drop a input) = ?val v"
      using good str_slice_SomeD by (fastforce simp: good_matches_def)
  qed
  then have "input = concat (map (\<lambda>(g, v). g @ ?val v) ps) @ rest" using ps(3) by simp
  moreover have "\<forall>rv \<in> set rvs. rv_value rv \<noteq> []" using assms(3) by (simp add: registrable_def)
  then have "\<forall>g \<in> insert rest (fst ` set ps). \<forall>rv \<in> set rvs. \<not> str_contains g (rv_value rv)"
    using gaps_clean [OF registered_matches_leftmost [OF assms(1) e assms(3)], of _ input] ps(2) by simp
  moreover have "snd ` set ps = set (map (\<lambda>(a, b, v). v) ?ms)" by (simp only: ps(1) [symmetric] set_map)
  then have "\<forall>v \<in> snd ` set ps. v < length rvs" using good by (auto simp: good_matches_def)
  moreover have "length ps = length ?ms" using ps(1) by (metis length_map)
  moreover have "map (\<lambda>(g, rv). g @ f rv) (map (\<lambda>(g, v). (g, rvs ! v)) ps) = map (\<lambda>(g, v). g @ f (rvs ! v)) ps"
    for f :: "RegisteredValue \<Rightarrow> string"
    by (simp add: case_prod_beta)
  moreover have "fst ` set (map (\<lambda>(g, v). (g, rvs ! v)) ps) = fst ` set ps" by force
  moreover have "snd ` set (map (\<lambda>(g, v). (g, rvs ! v)) ps) = (!) rvs ` snd ` set ps" by force
  ultimately show ?thesis
    unfolding r ps(3)
    by (intro exI [of _ "map (\<lambda>(g, v). (g, rvs ! v)) ps"] exI [of _ rest] conjI; (simp only:)?) auto
qed

theorem scrub_leaves_no_value_witness:
  "\<exists>r ps rest. engine_scrub ref_crates sample_engine sample_input = Some r
    \<and> sc_output r = concat (map (\<lambda>(g, rv). g @ fst (replacement ref_crates sample_engine False rv)) ps) @ rest
    \<and> \<not> str_contains rest ''sk-123456''"
proof -
  have utf: "is_utf8 sample_input" by (simp add: sample_input_def)
  obtain r where r: "engine_scrub ref_crates sample_engine sample_input = Some r"
    using engine_scrub_of [OF ref_crates_ok sample_engine_new sample_scrubbable utf] by blast
  have "rv_value (Fpe sample_reg) = ''sk-123456''" by (simp add: rv_value_def sample_reg_def)
  with scrub_leaves_no_value [OF ref_crates_ok sample_engine_new all_registrable [OF sample_scrubbable] utf r] r
  show ?thesis by (metis insertI1 list.set_intros(1))
qed

text \<open>
  Property (C14). \<open>Engine::scrub_with_session\<close> writes the same text and the same count as \<open>Engine::scrub\<close>,
  raises no \<open>SessionMappedUnrestorable\<close> notice, and hands the session map back as a bijection again.
\<close>

theorem scrub_with_session_spec:
  assumes "crates_ok c" "engine_new c kp rvs retired key = Some (Inr e)"
    and "\<forall>rv \<in> set rvs. scrubbable rv" "is_utf8 input" "sm_inv session"
  shows "\<exists>r r' session'. engine_scrub c e input = Some r
    \<and> scrub_with_session c ord e input session now = Some (r', session')
    \<and> sc_output r' = sc_output r \<and> scrubbed_count r' = scrubbed_count r
    \<and> (\<forall>l k. SessionMappedUnrestorable l k \<notin> set (notices r')) \<and> sm_inv session'"
proof -
  have e: "engine_of c rvs e" using engine_new_of assms(1,2) by (simp add: crates_ok_def)
  let ?ms = "engine_matches c rvs input"
  obtain s' where s': "fold (\<lambda>(a, b, v). store_after c ord e (rvs ! v)) ?ms (MapStore session now)
      = MapStore s' now" "sm_inv s'"
    using store_fold_inv [OF assms(5)] by blast
  have same: "(\<lambda>v. fst (replacement c e True (rvs ! v))) = (\<lambda>v. fst (replacement c e False (rvs ! v)))"
    by (rule ext) (rule replacement_text)
  show ?thesis
    using s' scrub_impl_spec [OF assms(1) e assms(3,4), of "\<lambda>xs. xs" NoStore]
      scrub_impl_spec [OF assms(1) e assms(3,4), of ord "MapStore session now"]
    by (auto simp: engine_scrub_def scrub_with_session_def same replacement_stored_notices)
qed

theorem scrub_with_session_spec_witness:
  "\<exists>r' session'. scrub_with_session ref_crates (\<lambda>xs. xs) sample_engine sample_input (session_new 5 9) 0
     = Some (r', session') \<and> sm_inv session'"
proof -
  have "is_utf8 sample_input" by (simp add: sample_input_def)
  from scrub_with_session_spec [OF ref_crates_ok sample_engine_new sample_scrubbable this
      session_new_inv [of 5 9], of "\<lambda>xs. xs" 0]
  show ?thesis by blast
qed

end
