(* ===== verification/Restoring.thy ===== *)
theory Restoring
  imports Engine
begin

text \<open>
  Correctness of the restore half of \<open>engine.rs\<close>: what the profile search finds in ASCII text, and the
  round trip of \<open>scrub\<close> and \<open>restore\<close> with the side conditions it needs.
\<close>

section \<open>The profile search\<close>

definition in_profile :: "string \<Rightarrow> FpeRegistration \<Rightarrow> nat \<Rightarrow> bool" where
  "in_profile input reg i \<longleftrightarrow>
     i + length (fr_value reg) \<le> length input
     \<and> take (length (fr_prefix reg)) (drop i input) = fr_prefix reg
     \<and> list_all (contains (fr_alphabet reg))
         (str_chars (take (length (fr_value reg) - length (fr_prefix reg))
            (drop (i + length (fr_prefix reg)) input)))"

lemma profile_spans_ascii:
  assumes "is_ascii input" "length (fr_prefix reg) < length (fr_value reg)" "k \<le> length input"
  shows "\<exists>xs. profile_spans input reg k = Some xs
    \<and> set xs = {(i, i + length (fr_value reg)) | i. k \<le> i \<and> in_profile input reg i}"
  using assms
proof (induction input reg k rule: profile_spans.induct)
  case (1 input reg k)
  let ?n = "length (fr_value reg)" and ?p = "fr_prefix reg"
  have hay: "str_slice_from input k = Some (drop k input)"
    using "1.prems"(1,3) by (simp add: str_simps)
  have nonempty: "fr_value reg \<noteq> []" using "1.prems"(2) by auto
  show ?case
  proof (cases "str_find (drop k input) ?p")
    case None
    have "\<not> in_profile input reg i" if ki: "k \<le> i" for i
    proof -
      obtain j where "i = k + j" using le_Suc_ex [OF ki] by blast
      with None show ?thesis
        by (auto simp: in_profile_def str_find_None add.commute)
    qed
    with None hay show ?thesis by (subst profile_spans.simps) auto
  next
    case (Some pos)
    have before: "\<not> in_profile input reg i" if ki: "k \<le> i" "i < k + pos" for i
    proof -
      obtain j where "i = k + j" using le_Suc_ex [OF ki(1)] by blast
      moreover from this ki(2) have "j < pos" by simp
      ultimately show ?thesis using str_find_before [OF Some] by (auto simp: in_profile_def add.commute)
    qed
    have at: "take (length ?p) (drop (k + pos) input) = ?p"
      using str_find_Some [OF Some] by (simp add: add.commute)
    show ?thesis
    proof (cases "k + pos + ?n > length input")
      case True
      have "\<not> in_profile input reg i" if "k \<le> i" for i
        using before [OF that] True by (cases "i < k + pos") (auto simp: in_profile_def)
      with Some True hay show ?thesis by (subst profile_spans.simps) (auto simp: Let_def)
    next
      case False
      let ?body = "take (?n - length ?p) (drop (k + pos + length ?p) input)"
      have body: "str_slice input (k + pos + length ?p) (k + pos + ?n) = Some ?body"
        using "1.prems"(1,2) False by (simp add: str_simps)
      have lenb: "length ?body = ?n - length ?p" using False by simp
      have "k + pos + 1 \<le> length input" using False "1.prems"(2) by simp
      then obtain xs where xs: "profile_spans input reg (k + pos + 1) = Some xs"
          "set xs = {(i, i + ?n) | i. k + pos + 1 \<le> i \<and> in_profile input reg i}"
        using "1.IH" [OF hay Some refl refl _ body] False nonempty "1.prems"(1,2) by auto
      have prof: "in_profile input reg (k + pos) \<longleftrightarrow> list_all (contains (fr_alphabet reg)) (str_chars ?body)"
        using at False by (simp add: in_profile_def)
      have split: "{(i, i + ?n) | i. k \<le> i \<and> in_profile input reg i} =
          (if in_profile input reg (k + pos) then {(k + pos, k + pos + ?n)} else {})
          \<union> {(i, i + ?n) | i. k + pos + 1 \<le> i \<and> in_profile input reg i}"
        using before by (auto simp: not_less Suc_le_eq) (metis le_neq_implies_less not_less)+
      have "profile_spans input reg k =
          Some (if in_profile input reg (k + pos) then (k + pos, k + pos + ?n) # xs else xs)"
        by (subst profile_spans.simps) (use hay Some False nonempty body lenb xs(1) prof in \<open>simp add: Let_def\<close>)
      with xs(2) show ?thesis unfolding split by auto
    qed
  qed
qed

lemma reg_spans_ascii:
  assumes "is_ascii input"
  shows "\<exists>xs. reg_spans input reg = Some xs
    \<and> set xs = (if length (fr_value reg) \<le> length (fr_prefix reg) then {}
        else {(i, i + length (fr_value reg)) | i. in_profile input reg i})"
  using profile_spans_ascii [OF assms, of reg 0] by (auto simp: reg_spans_def not_le)

section \<open>All the spans of a text\<close>

lemma mapo_reg_spans_ascii:
  assumes "is_ascii input"
  obtains xss where "mapo (reg_spans input) regs = Some xss"
    "set (concat xss) = (\<Union>r \<in> set regs. if length (fr_value r) \<le> length (fr_prefix r) then {}
        else {(i, i + length (fr_value r)) | i. in_profile input r i})"
proof -
  have "\<exists>xss. mapo (reg_spans input) regs = Some xss \<and> set (concat xss) =
      (\<Union>r \<in> set regs. if length (fr_value r) \<le> length (fr_prefix r) then {}
        else {(i, i + length (fr_value r)) | i. in_profile input r i})"
  proof (induction regs)
    case (Cons r regs)
    obtain xs where "reg_spans input r = Some xs"
        "set xs = (if length (fr_value r) \<le> length (fr_prefix r) then {}
          else {(i, i + length (fr_value r)) | i. in_profile input r i})"
      using reg_spans_ascii [OF assms] by blast
    with Cons show ?case by auto
  qed simp
  with that show thesis by blast
qed

section \<open>Splicing back\<close>

text \<open>Spans of a text in order, each of the length its replacement has.\<close>

definition fitting :: "nat \<Rightarrow> (nat \<times> nat \<times> nat) list \<Rightarrow> (nat \<Rightarrow> string) \<Rightarrow> bool" where
  "fitting n ms rep \<longleftrightarrow> (\<forall>(a, b, v) \<in> set ms. b \<le> n \<and> length (rep v) = b - a)"

lemma fitting_Cons [simp]:
  "fitting n ((a, b, v) # ms) rep \<longleftrightarrow> b \<le> n \<and> length (rep v) = b - a \<and> fitting n ms rep"
  by (auto simp: fitting_def)

lemma length_splice:
  "matches_from i ms \<Longrightarrow> fitting (length s) ms rep \<Longrightarrow> i \<le> length s \<Longrightarrow>
     i + length (splice_matches s i ms rep) = length s"
proof (induction ms arbitrary: i)
  case (Cons m ms)
  obtain a b v where m: "m = (a, b, v)" by (cases m)
  have f: "i \<le> a" "a < b" "b \<le> length s" "length (rep v) = b - a"
      "b + length (splice_matches s b ms rep) = length s"
    using Cons.prems Cons.IH [of b] m by auto
  then have "length (take (a - i) (drop i s)) = a - i" by simp
  with f m show ?case by simp
qed simp

lemma splice_again:
  assumes "matches_from i ms" "fitting (length s) ms rep" "i \<le> length s" "length pre = i"
  shows "splice_matches (pre @ splice_matches s i ms rep) i ms rep' = splice_matches s i ms rep'"
  using assms
proof (induction ms arbitrary: i pre)
  case (Cons m ms)
  obtain a b v where m: "m = (a, b, v)" by (cases m)
  let ?gap = "take (a - i) (drop i s)"
  have f: "i \<le> a" "a < b" "matches_from b ms" "b \<le> length s" "length (rep v) = b - a"
      "fitting (length s) ms rep"
    using Cons.prems m by auto
  have len: "length (pre @ ?gap @ rep v) = b" "length ?gap = a - i"
    using f Cons.prems(3,4) by simp_all
  have "splice_matches ((pre @ ?gap @ rep v) @ splice_matches s b ms rep) b ms rep' = splice_matches s b ms rep'"
    by (rule Cons.IH [OF f(3,6,4) len(1)])
  with m len(2) Cons.prems(4) show ?case by simp
qed simp

lemma splice_at:
  assumes "matches_from i ms" "fitting (length s) ms rep" "i \<le> length s" "length pre = i"
    and "(a, b, v) \<in> set ms"
  shows "take (b - a) (drop a (pre @ splice_matches s i ms rep)) = rep v"
  using assms
proof (induction ms arbitrary: i pre)
  case (Cons m ms)
  obtain a' b' v' where m: "m = (a', b', v')" by (cases m)
  let ?gap = "take (a' - i) (drop i s)"
  have f: "i \<le> a'" "a' < b'" "matches_from b' ms" "b' \<le> length s" "length (rep v') = b' - a'"
      "fitting (length s) ms rep"
    using Cons.prems m by auto
  have len: "length (pre @ ?gap @ rep v') = b'" "length ?gap = a' - i"
    using f Cons.prems(3,4) by simp_all
  show ?case
  proof (cases "(a, b, v) = (a', b', v')")
    case True
    with m len f Cons.prems(4) show ?thesis by simp
  next
    case False
    then have "(a, b, v) \<in> set ms" using Cons.prems(5) m by auto
    from Cons.IH [OF f(3,6,4) len(1) this] m show ?thesis by simp
  qed
qed simp

lemma is_ascii_splice:
  "is_ascii s \<Longrightarrow> \<forall>(a, b, v) \<in> set ms. is_ascii (rep v) \<Longrightarrow> is_ascii (splice_matches s i ms rep)"
  by (induction s i ms rep rule: splice_matches.induct) (auto simp: is_ascii_take is_ascii_drop)

section \<open>Restoring spans that are all fakes\<close>

lemma restore_loop_fakes:
  assumes "is_ascii out" "matches_from cursor ms" "cursor \<le> length out"
    and "\<forall>(a, b, v) \<in> set ms. b \<le> length out
      \<and> fpe_try_restore c (eng_fpe e) (take (b - a) (drop a out)) (eng_fpe_registered e) = Some (Some (val v))"
  shows "\<exists>acc' cursor'. restore_loop c e out (map (\<lambda>(a, b, v). (a, b)) ms) (acc, cursor, n)
      = Some (acc', cursor', n + length ms)
    \<and> cursor' \<le> length out \<and> acc' @ drop cursor' out = acc @ splice_matches out cursor ms val"
  using assms(2-4)
proof (induction ms arbitrary: acc cursor n)
  case (Cons m ms)
  obtain a b v where m: "m = (a, b, v)" by (cases m)
  have f: "cursor \<le> a" "a < b" "matches_from b ms" "b \<le> length out"
      "fpe_try_restore c (eng_fpe e) (take (b - a) (drop a out)) (eng_fpe_registered e) = Some (Some (val v))"
    using Cons.prems m by auto
  have sl: "str_slice out cursor a = Some (take (a - cursor) (drop cursor out))"
    "str_slice out a b = Some (take (b - a) (drop a out))"
    using f(1,2,4) assms(1) by (simp_all add: str_simps)
  obtain acc' cursor' where "restore_loop c e out (map (\<lambda>(a, b, v). (a, b)) ms)
        (acc @ take (a - cursor) (drop cursor out) @ val v, b, Suc n) = Some (acc', cursor', Suc n + length ms)"
      "cursor' \<le> length out"
      "acc' @ drop cursor' out = (acc @ take (a - cursor) (drop cursor out) @ val v) @ splice_matches out b ms val"
    using Cons.IH [OF f(3,4), of "acc @ take (a - cursor) (drop cursor out) @ val v" "Suc n"]
      Cons.prems(3) by auto
  with m f sl show ?case by simp
qed simp

lemma spans_sorted:
  "matches_from i ms \<Longrightarrow> sorted (map (\<lambda>(a, b, v). (a, b)) ms) \<and> distinct (map (\<lambda>(a, b, v). (a, b)) ms)"
proof (induction i ms rule: matches_from.induct)
  case (2 i a b v ms)
  have later: "a < a'" if "(a', b', v') \<in> set ms" for a' b' v'
    using matches_from_ge [of b ms a' b' v'] 2(2) that by simp
  then have "\<forall>q \<in> set (map (\<lambda>(a, b, v). (a, b)) ms). (a, b) < q"
    by (auto simp: less_prod_def)
  moreover have "sorted (map (\<lambda>(a, b, v). (a, b)) ms) \<and> distinct (map (\<lambda>(a, b, v). (a, b)) ms)"
    using 2 by simp
  ultimately show ?case by (auto simp del: set_map simp: less_imp_le)
qed simp

lemma sorted_remdups_adj_distinct: "sorted xs \<Longrightarrow> distinct (remdups_adj xs)"
proof (induction xs rule: remdups_adj.induct)
  case (3 x y xs)
  then show ?case by (cases "x = y") (auto simp: order_antisym)
qed simp_all

lemma sort_dedup_unique:
  fixes xs ys :: "(nat \<times> nat) list"
  assumes "set xs = set ys" "sorted ys" "distinct ys"
  shows "remdups_adj (sort xs) = ys"
proof (rule sorted_distinct_set_unique)
  show "sorted (remdups_adj (sort xs))" by (simp add: sorted_remdups_adj)
  show "distinct (remdups_adj (sort xs))" by (simp add: sorted_remdups_adj_distinct)
qed (use assms in auto)

section \<open>Round trip\<close>

lemma eligible_longer: "eligible r \<Longrightarrow> length (fr_prefix r) < length (fr_value r)"
  using eligible_body [of r] by (cases "reg_body r") auto

lemma fake_in_profile:
  assumes "ff1_contract c" "length (ff1_key t) = 32" "wf_registration r" "eligible r"
    and "fpe_scrub c t r = Some (Inr fake)" "take (length fake) (drop i s) = fake" "i + length fake \<le> length s"
  shows "in_profile s r i" "length fake = length (fr_value r)"
proof -
  obtain body where b: "fpe_scrub c t r = Some (Inr (fr_prefix r @ body))" "is_ascii body"
      "length body = length (reg_body r)" "\<forall>x \<in> set (str_chars body). contains (fr_alphabet r) x"
    by (rule fpe_scrub_eligible [OF assms(1-4)])
  then have f: "fake = fr_prefix r @ body" using assms(5) by simp
  have v: "fr_value r = fr_prefix r @ reg_body r" by (rule eligible_body(1) [OF assms(4)])
  show len: "length fake = length (fr_value r)" using f v b(3) by (metis length_append)
  have "take (length (fr_prefix r)) (drop i s) = fr_prefix r"
    using assms(6) f by (metis append_eq_conv_conj length_append min.absorb1 le_add1 take_take)
  moreover have "take (length (fr_value r) - length (fr_prefix r)) (drop (i + length (fr_prefix r)) s) = body"
  proof -
    have "drop (length (fr_prefix r)) (take (length fake) (drop i s)) = body"
      using assms(6) f by simp
    then show ?thesis by (simp add: len drop_take add.commute)
  qed
  ultimately show "in_profile s r i"
    using assms(7) b(4) len by (simp add: in_profile_def list_all_iff)
qed

text \<open>The scrubbed text has no other profile spans than its fakes.\<close>

definition only_fakes :: "string \<Rightarrow> FpeRegistration list \<Rightarrow> (nat \<times> nat \<times> nat) list \<Rightarrow> bool" where
  "only_fakes out regs ms \<longleftrightarrow>
     (\<forall>r \<in> set regs. \<forall>i. in_profile out r i \<longrightarrow> (\<exists>v. (i, i + length (fr_value r), v) \<in> set ms))"

lemma engine_restore_fakes:
  assumes "is_ascii out" "matches_from 0 ms" "only_fakes out (eng_fpe_registered e) ms"
    and "\<forall>r \<in> set (eng_fpe_registered e). length (fr_prefix r) < length (fr_value r)"
    and "\<forall>(a, b, v) \<in> set ms. b \<le> length out
      \<and> (\<exists>r \<in> set (eng_fpe_registered e). in_profile out r a \<and> b = a + length (fr_value r))
      \<and> fpe_try_restore c (eng_fpe e) (take (b - a) (drop a out)) (eng_fpe_registered e) = Some (Some (val v))"
  shows "engine_restore c e out =
    Some \<lparr>rs_output = splice_matches out 0 ms val, restored_count = length ms\<rparr>"
proof -
  obtain xss where xss: "mapo (reg_spans out) (eng_fpe_registered e) = Some xss"
      "set (concat xss) = (\<Union>r \<in> set (eng_fpe_registered e).
        if length (fr_value r) \<le> length (fr_prefix r) then {}
        else {(i, i + length (fr_value r)) | i. in_profile out r i})"
    by (rule mapo_reg_spans_ascii [OF assms(1)])
  have "set (concat xss) = set (map (\<lambda>(a, b, v). (a, b)) ms)"
  proof (intro equalityI subsetI)
    fix q assume "q \<in> set (concat xss)"
    then obtain r i where "r \<in> set (eng_fpe_registered e)" "in_profile out r i"
        "q = (i, i + length (fr_value r))"
      unfolding xss(2) by (auto split: if_splits)
    with assms(3) show "q \<in> set (map (\<lambda>(a, b, v). (a, b)) ms)"
      unfolding only_fakes_def by force
  next
    fix q assume "q \<in> set (map (\<lambda>(a, b, v). (a, b)) ms)"
    then obtain a b v where "(a, b, v) \<in> set ms" "q = (a, b)" by auto
    with assms(4,5) show "q \<in> set (concat xss)" unfolding xss(2) by fastforce
  qed
  then have spans: "remdups_adj (sort (concat xss)) = map (\<lambda>(a, b, v). (a, b)) ms"
    using spans_sorted [OF assms(2)] by (intro sort_dedup_unique) auto
  have vals: "\<forall>(a, b, v) \<in> set ms. b \<le> length out
      \<and> fpe_try_restore c (eng_fpe e) (take (b - a) (drop a out)) (eng_fpe_registered e) = Some (Some (val v))"
    using assms(5) by blast
  obtain acc cursor where "restore_loop c e out (map (\<lambda>(a, b, v). (a, b)) ms) ([], 0, 0)
      = Some (acc, cursor, length ms)" "cursor \<le> length out"
      "acc @ drop cursor out = splice_matches out 0 ms val"
    using restore_loop_fakes [OF assms(1,2) _ vals, of "[]" 0] by auto
  with xss(1) spans assms(1) show ?thesis
    by (simp add: engine_restore_def str_simps)
qed

text \<open>The facts of a scrubbed FF1 match: its fake, of the same length and in ASCII.\<close>

lemma match_fake:
  assumes "ff1_contract c" "engine_of c rvs e" "\<forall>r \<in> set (fpe_regs rvs). wf_registration r \<and> eligible r"
    and "is_ascii input" "v < length rvs" "str_slice input a b = Some (rv_value (rvs ! v))"
    and "rvs ! v = Fpe r"
  shows "r \<in> set (fpe_regs rvs)"
    "fpe_scrub c (eng_fpe e) r = Some (Inr (fst (replacement c e False (rvs ! v))))"
    "length (fst (replacement c e False (rvs ! v))) = b - a" "b \<le> length input"
    "take (b - a) (drop a input) = fr_value r" "is_ascii (fst (replacement c e False (rvs ! v)))"
proof -
  have "rvs ! v \<in> set rvs" using assms(5) by simp
  then show mem: "r \<in> set (fpe_regs rvs)" using assms(7) by (simp add: fpe_regs_set)
  then have wr: "wf_registration r" "eligible r" using assms(3) by auto
  have key: "length (ff1_key (eng_fpe e)) = 32" using assms(2) by (simp add: engine_of_def)
  obtain body where b: "fpe_scrub c (eng_fpe e) r = Some (Inr (fr_prefix r @ body))" "is_ascii body"
      "length body = length (reg_body r)"
    by (rule fpe_scrub_eligible [OF assms(1) key wr])
  then have rep: "fst (replacement c e False (rvs ! v)) = fr_prefix r @ body"
    using assms(7) by (simp add: replacement_def)
  with b show "fpe_scrub c (eng_fpe e) r = Some (Inr (fst (replacement c e False (rvs ! v))))" by simp
  have sl: "fr_value r = take (b - a) (drop a input)" "a \<le> b" "b \<le> length input"
    using str_slice_SomeD [OF assms(6)] assms(7) by (auto simp: rv_value_def)
  then show "take (b - a) (drop a input) = fr_value r" "b \<le> length input" by simp_all
  have v: "fr_value r = fr_prefix r @ reg_body r" by (rule eligible_body(1) [OF wr(2)])
  have "length (fr_prefix r @ body) = length (fr_prefix r @ reg_body r)" using b(3) by simp
  also have "\<dots> = b - a" unfolding v [symmetric] using sl by simp
  finally show "length (fst (replacement c e False (rvs ! v))) = b - a" by (simp only: rep)
  have "is_ascii (fr_value r)" unfolding sl(1) using assms(4) by (intro is_ascii_take is_ascii_drop)
  then have "is_ascii (fr_prefix r)" unfolding v by simp
  with b(2) show "is_ascii (fst (replacement c e False (rvs ! v)))" by (simp add: rep)
qed

text \<open>A fake that only registrations of one value share is restored to that value.\<close>

lemma fake_restored:
  assumes "ff1_contract c" "length (ff1_key t) = 32" "\<forall>r \<in> set regs. wf_registration r \<and> eligible r"
    and "r \<in> set regs" "fpe_scrub c t r = Some (Inr fake)" "is_ascii fake"
    and "\<forall>q \<in> set regs. fpe_scrub c t q = Some (Inr fake) \<longrightarrow> fr_value q = fr_value r"
  shows "fpe_try_restore c t fake regs = Some (Some (fr_value r))"
proof -
  let ?P = "\<lambda>q. fpe_scrub c t q = Some (Inr fake)"
  obtain q where q: "List.find ?P regs = Some q"
    using assms(4,5) find_None_iff [of ?P regs] by (cases "List.find ?P regs") auto
  then have "q \<in> set regs" "?P q" by (auto simp: find_Some_iff)
  with assms(6,7) q show ?thesis by (simp add: fpe_try_restore_find [OF assms(1-3)])
qed

text \<open>Some FF1 matches of a text are replaced by their fakes: restoring gives the text back.\<close>

lemma engine_restores_spliced:
  assumes "crates_ok c" "engine_of c rvs e"
    and "\<forall>rv \<in> set rvs. scrubbable rv" "\<forall>r. Fpe r \<in> set rvs \<longrightarrow> eligible r" "is_ascii input"
    and "\<forall>(a, b, v) \<in> set ms. \<exists>r. rvs ! v = Fpe r"
    and "\<forall>r r' f. Fpe r \<in> set rvs \<and> Fpe r' \<in> set rvs \<and> fpe_scrub c (eng_fpe e) r = Some (Inr f)
      \<and> fpe_scrub c (eng_fpe e) r' = Some (Inr f) \<longrightarrow> fr_value r = fr_value r'"
    and "good_matches input rvs 0 ms"
    and "only_fakes (splice_matches input 0 ms (\<lambda>v. fst (replacement c e False (rvs ! v)))) (fpe_regs rvs) ms"
  shows "engine_restore c e (splice_matches input 0 ms (\<lambda>v. fst (replacement c e False (rvs ! v)))) =
    Some \<lparr>rs_output = input, restored_count = length ms\<rparr>"
proof -
  let ?rep = "\<lambda>v. fst (replacement c e False (rvs ! v))" and ?val = "\<lambda>v. rv_value (rvs ! v)"
  let ?out = "splice_matches input 0 ms ?rep"
  note e = assms(2) and good = assms(8)
  have cr: "ff1_contract c" "hkdf_contract c" using assms(1) by (simp_all add: crates_ok_def)
  have key: "length (ff1_key (eng_fpe e)) = 32" and regs: "eng_fpe_registered e = fpe_regs rvs"
    using e by (simp_all add: engine_of_def)
  have wf: "\<forall>r \<in> set (fpe_regs rvs). wf_registration r \<and> eligible r"
    using assms(3,4) by (auto simp: fpe_regs_set scrubbable_def)
  have mf: "matches_from 0 ms" using good by (simp add: good_matches_def)
  have fake: "\<exists>r. rvs ! v = Fpe r \<and> v < length rvs \<and> str_slice input a b = Some (?val v)"
    if "(a, b, v) \<in> set ms" for a b v
    using that good assms(6) unfolding good_matches_def by blast
  note mfake = match_fake [OF cr(1) e wf assms(5)]
  have fit: "fitting (length input) ms ?rep"
    unfolding fitting_def using fake mfake(3,4) by blast
  have asc: "is_ascii ?out" using fake mfake(6) assms(5) by (intro is_ascii_splice) blast+
  have lenout: "length ?out = length input" using length_splice [OF mf fit] by simp
  have cand: "b \<le> length ?out \<and> (\<exists>r \<in> set (fpe_regs rvs). in_profile ?out r a \<and> b = a + length (fr_value r))
      \<and> fpe_try_restore c (eng_fpe e) (take (b - a) (drop a ?out)) (fpe_regs rvs) = Some (Some (?val v))"
    if m: "(a, b, v) \<in> set ms" for a b v
  proof -
    obtain r where r: "rvs ! v = Fpe r" "v < length rvs" "str_slice input a b = Some (?val v)"
      using fake [OF m] by blast
    note f = mfake [OF r(2,3,1)]
    have ab: "a < b" using matches_from_ge [OF mf m] by simp
    have at: "take (b - a) (drop a ?out) = ?rep v" using splice_at [OF mf fit _ _ m, of "[]"] by simp
    have wr: "wf_registration r" "eligible r" using wf f(1) by auto
    have "in_profile ?out r a" "length (?rep v) = length (fr_value r)"
      using fake_in_profile [OF cr(1) key wr f(2), of a ?out] at f(3,4) ab lenout by simp_all
    moreover have "fpe_try_restore c (eng_fpe e) (?rep v) (fpe_regs rvs) = Some (Some (fr_value r))"
    proof (intro fake_restored [OF cr(1) key wf f(1,2,6)] ballI impI)
      fix q assume "q \<in> set (fpe_regs rvs)" "fpe_scrub c (eng_fpe e) q = Some (Inr (?rep v))"
      with f(1,2) show "fr_value q = fr_value r"
        using assms(7) [rule_format, of q r "?rep v"] by (simp add: fpe_regs_set)
    qed
    ultimately show ?thesis using at f(1,3,4) ab lenout r(1) by (auto simp: rv_value_def)
  qed
  have "engine_restore c e ?out = Some \<lparr>rs_output = splice_matches ?out 0 ms ?val,
      restored_count = length ms\<rparr>"
  proof (rule engine_restore_fakes [OF asc mf])
    show "only_fakes ?out (eng_fpe_registered e) ms" using assms(9) by (simp add: regs)
    show "\<forall>r \<in> set (eng_fpe_registered e). length (fr_prefix r) < length (fr_value r)"
      using wf by (simp add: regs eligible_longer)
  qed (use cand in \<open>unfold regs, blast\<close>)
  also have "splice_matches ?out 0 ms ?val = splice_matches input 0 ms ?val"
    using splice_again [OF mf fit, of "[]" ?val] by simp
  also have "\<dots> = input"
  proof -
    have "b \<le> length input \<and> take (b - a) (drop a input) = ?val v" if "(a, b, v) \<in> set ms" for a b v
      using fake [OF that] str_slice_SomeD [of input a b "?val v"] by auto
    then show ?thesis using splice_id [OF mf, of input ?val] by fastforce
  qed
  finally show ?thesis .
qed

lemma engine_restores_scrubbed:
  assumes "crates_ok c" "engine_new c kp rvs retired key = Some (Inr e)"
    and "\<forall>rv \<in> set rvs. scrubbable rv" "\<forall>r. Fpe r \<in> set rvs \<longrightarrow> eligible r" "is_ascii input"
    and "\<forall>(a, b, v) \<in> set (engine_matches c rvs input). \<exists>r. rvs ! v = Fpe r"
    and "\<forall>r r' f. Fpe r \<in> set rvs \<and> Fpe r' \<in> set rvs \<and> fpe_scrub c (eng_fpe e) r = Some (Inr f)
      \<and> fpe_scrub c (eng_fpe e) r' = Some (Inr f) \<longrightarrow> fr_value r = fr_value r'"
    and "engine_scrub c e input = Some res"
    and "only_fakes (sc_output res) (fpe_regs rvs) (engine_matches c rvs input)"
  shows "engine_restore c e (sc_output res) =
    Some \<lparr>rs_output = input, restored_count = length (engine_matches c rvs input)\<rparr>"
proof -
  have e: "engine_of c rvs e" using engine_new_of assms(1,2) by (simp add: crates_ok_def)
  have "sc_output res = splice_matches input 0 (engine_matches c rvs input)
      (\<lambda>v. fst (replacement c e False (rvs ! v)))"
    using assms(8) scrub_impl_spec [OF assms(1) e assms(3), of input "\<lambda>xs. xs" NoStore] assms(5)
    by (auto simp: engine_scrub_def)
  moreover have "good_matches input rvs 0 (engine_matches c rvs input)"
    using engine_matches_good [OF assms(1) e assms(3)] assms(5) by simp
  ultimately show ?thesis
    using assms(9) engine_restores_spliced [OF assms(1) e assms(3-7)] by simp
qed

section \<open>Properties\<close>

text \<open>
  Property (C2). Restoring undoes scrubbing, under these conditions: the text is ASCII, every match in
  it is an FF1 registration, the registrations are eligible and the formatless values at most 8166
  bytes long, no two registrations of different value share a fake, and the scrubbed text has no
  profile span besides the fakes. Then \<open>Engine::restore\<close> of the output of \<open>Engine::scrub\<close> is the input,
  and it restores every match.
\<close>

theorem engine_round_trip:
  assumes "crates_ok c" "engine_new c kp rvs retired key = Some (Inr e)"
    and "\<forall>rv \<in> set rvs. scrubbable rv" "\<forall>r. Fpe r \<in> set rvs \<longrightarrow> eligible r" "is_ascii input"
    and "\<forall>(a, b, v) \<in> set (engine_matches c rvs input). \<exists>r. rvs ! v = Fpe r"
    and "\<forall>r r' f. Fpe r \<in> set rvs \<and> Fpe r' \<in> set rvs \<and> fpe_scrub c (eng_fpe e) r = Some (Inr f)
      \<and> fpe_scrub c (eng_fpe e) r' = Some (Inr f) \<longrightarrow> fr_value r = fr_value r'"
    and "engine_scrub c e input = Some res"
    and "only_fakes (sc_output res) (fpe_regs rvs) (engine_matches c rvs input)"
  shows "engine_restore c e (sc_output res) =
    Some \<lparr>rs_output = input, restored_count = length (engine_matches c rvs input)\<rparr>"
  using assms by (rule engine_restores_scrubbed)

lemma sample_profile: "in_profile ''key sk-234567 end'' sample_reg i \<longleftrightarrow> i = 4"
proof -
  let ?s = "''key sk-234567 end''"
  have p: "fr_prefix sample_reg = ''sk-''" "length (fr_value sample_reg) = 9"
      "fr_alphabet sample_reg = DIGITS"
    by (simp_all add: sample_reg_def)
  have "i < 9" if "in_profile ?s sample_reg i"
    using that p by (simp add: in_profile_def)
  moreover have "\<not> in_profile ?s sample_reg i" if "i \<noteq> 4" "i < 9"
    using that p by (auto simp: in_profile_def less_Suc_eq numeral_eq_Suc)
  moreover have "in_profile ?s sample_reg 4"
    by (rule fake_in_profile(1) [OF ref_ff1 sample_facts(3,1,2) sample_scrub]) simp_all
  ultimately show ?thesis by blast
qed

theorem engine_round_trip_witness:
  "engine_restore ref_crates sample_engine ''key sk-234567 end'' =
     Some \<lparr>rs_output = sample_input, restored_count = 1\<rparr>"
proof -
  have "replacement ref_crates sample_engine False (Fpe sample_reg) = (''sk-234567'', [])"
    by (simp add: replacement_def sample_engine_def sample_scrub)
  then have scrub: "engine_scrub ref_crates sample_engine sample_input =
      Some \<lparr>sc_output = ''key sk-234567 end'', scrubbed_count = 1, notices = []\<rparr>"
    using engine_scrub_of [OF ref_crates_ok sample_engine_new sample_scrubbable, of sample_input]
    by (simp add: sample_matches) (simp add: sample_input_def)
  have len: "length (fr_value sample_reg) = 9" by (simp add: sample_reg_def)
  show ?thesis
    using engine_round_trip [OF ref_crates_ok sample_engine_new sample_scrubbable _ _ _ _ scrub]
    by (simp add: sample_facts sample_matches only_fakes_def sample_profile len)
      (simp add: sample_input_def)
qed

end
