(* ===== verification/Keychain.thy ===== *)
theory Keychain
  imports Prelude
begin

text \<open>
  \<open>crates/invisibool-engine/src/keychain\<close>: the backend trait with \<open>fetch_or_create\<close> (\<open>mod.rs\<close>), the
  in-memory backend (\<open>in_memory.rs\<close>) and the OS backend over the \<open>keyring\<close> crate (\<open>os.rs\<close>). A trait
  object is a record of its methods over an explicit backend state. The locale
  \<open>keychain_backend\<close> states what \<open>fetch_or_create\<close> relies on and proves its crash-safety contract
  once; both backends interpret it, the OS one through the contract of the \<open>keyring\<close> crate.
\<close>

section \<open>The trait\<close>

definition KEY_LEN :: nat where
  "KEY_LEN = 32"

datatype KeychainSlot = VaultKey

datatype KeychainError = Backend string | MalformedKey nat nat

type_synonym key = "u8 list"

record 's KeychainBackend =
  kb_fetch :: "'s \<Rightarrow> KeychainSlot \<Rightarrow> KeychainError + key option"
  kb_store :: "'s \<Rightarrow> KeychainSlot \<Rightarrow> key \<Rightarrow> 's \<times> (KeychainError + unit)"
  kb_delete :: "'s \<Rightarrow> KeychainSlot \<Rightarrow> 's \<times> (KeychainError + unit)"

text \<open>
  \<open>generate\<close> is the result of the closure, evaluated only on the empty-slot branch; it panics when
  the CSPRNG fails.
\<close>

definition fetch_or_create ::
  "'s KeychainBackend \<Rightarrow> 's \<Rightarrow> KeychainSlot \<Rightarrow> key run \<Rightarrow> ('s \<times> (KeychainError + key)) run" where
  "fetch_or_create backend s slot generate =
     (case kb_fetch backend s slot of
        Inl e \<Rightarrow> Some (s, Inl e)
      | Inr (Some existing) \<Rightarrow> Some (s, Inr existing)
      | Inr None \<Rightarrow>
          do {
            new_key \<leftarrow> generate;
            Some (case kb_store backend s slot new_key of
                    (s', Inl e) \<Rightarrow> (s', Inl e)
                  | (s', Inr _) \<Rightarrow> (s', Inr new_key))
          })"

section \<open>The in-memory backend\<close>

record InMemoryKeychain =
  slots :: "(KeychainSlot \<times> key) list"

definition mem_new :: InMemoryKeychain where
  "mem_new = \<lparr>slots = []\<rparr>"

definition mem_preloaded :: "KeychainSlot \<Rightarrow> key \<Rightarrow> InMemoryKeychain" where
  "mem_preloaded slot k = \<lparr>slots = AList.update slot k []\<rparr>"

definition mem_fetch :: "InMemoryKeychain \<Rightarrow> KeychainSlot \<Rightarrow> KeychainError + key option" where
  "mem_fetch m slot = Inr (map_of (slots m) slot)"

definition mem_store ::
  "InMemoryKeychain \<Rightarrow> KeychainSlot \<Rightarrow> key \<Rightarrow> InMemoryKeychain \<times> (KeychainError + unit)" where
  "mem_store m slot k = (m\<lparr>slots := AList.update slot k (slots m)\<rparr>, Inr ())"

definition mem_delete ::
  "InMemoryKeychain \<Rightarrow> KeychainSlot \<Rightarrow> InMemoryKeychain \<times> (KeychainError + unit)" where
  "mem_delete m slot = (m\<lparr>slots := AList.delete slot (slots m)\<rparr>, Inr ())"

definition mem_backend :: "InMemoryKeychain KeychainBackend" where
  "mem_backend = \<lparr>kb_fetch = mem_fetch, kb_store = mem_store, kb_delete = mem_delete\<rparr>"

section \<open>The OS backend\<close>

text \<open>
  The \<open>keyring\<close> crate: its documented error variants (those that carry another error carry its
  text), a catch-all for the variants of later versions, and the operations of an entry over the
  state of the credential store.
\<close>

datatype KeyringError =
    NoEntry
  | PlatformFailure string
  | NoStorageAccess string
  | BadEncoding "u8 list"
  | TooLong string nat
  | Invalid string string
  | Ambiguous nat
  | OtherKeyringError string

record 'w keyring_crate =
  kr_entry_new :: "string \<Rightarrow> string \<Rightarrow> KeyringError option"
  kr_get_secret :: "'w \<Rightarrow> string \<Rightarrow> string \<Rightarrow> KeyringError + u8 list"
  kr_set_secret :: "'w \<Rightarrow> string \<Rightarrow> string \<Rightarrow> u8 list \<Rightarrow> 'w \<times> (KeyringError + unit)"
  kr_delete_credential :: "'w \<Rightarrow> string \<Rightarrow> string \<Rightarrow> 'w \<times> (KeyringError + unit)"

definition SERVICE :: string where
  "SERVICE = ''invisibool''"

definition slot_user :: "KeychainSlot \<Rightarrow> string" where
  "slot_user slot = (case slot of VaultKey \<Rightarrow> ''vault-key'')"

datatype Mapped = MappedEmpty | MappedBackend string

definition quote :: string where
  "quote = [CHR 0x27]"

definition map_keyring_error :: "KeyringError \<Rightarrow> Mapped" where
  "map_keyring_error err =
     (case err of
        NoEntry \<Rightarrow> MappedEmpty
      | PlatformFailure inner \<Rightarrow> MappedBackend (''platform secure storage failure: '' @ inner)
      | NoStorageAccess inner \<Rightarrow>
          MappedBackend (''secure storage unavailable (keychain locked or access denied): '' @ inner)
      | BadEncoding _ \<Rightarrow>
          MappedBackend (''keychain entry had unexpected encoding (set_secret/get_secret were used; ''
            @ ''a non-binary entry was found in our slot, suggesting an unrelated tool wrote to it)'')
      | TooLong attr limit \<Rightarrow>
          MappedBackend (''keychain attribute '' @ quote @ attr @ quote
            @ '' exceeded platform length limit of '' @ show_nat limit @ '' chars'')
      | Invalid attr reason \<Rightarrow>
          MappedBackend (''invalid keychain attribute '' @ quote @ attr @ quote @ '': '' @ reason)
      | Ambiguous n \<Rightarrow>
          MappedBackend (''ambiguous keychain entry: '' @ show_nat n
            @ '' credentials match the (service, user) pair, refusing to pick one'')
      | OtherKeyringError other \<Rightarrow>
          MappedBackend (''unrecognised keyring error variant (keyring crate likely upgraded; ''
            @ ''treating as backend failure to avoid silent NoEntry collapse): '' @ other))"

definition entry_for :: "'w keyring_crate \<Rightarrow> KeychainSlot \<Rightarrow> KeychainError + (string \<times> string)" where
  "entry_for kr slot =
     (case kr_entry_new kr SERVICE (slot_user slot) of
        None \<Rightarrow> Inr (SERVICE, slot_user slot)
      | Some e \<Rightarrow>
          Inl (case map_keyring_error e of
                 MappedBackend msg \<Rightarrow> Backend msg
               | MappedEmpty \<Rightarrow>
                   Backend (''keyring::Entry::new returned NoEntry (unexpected; entry construction ''
                     @ ''does not touch storage)'')))"

definition os_fetch :: "'w keyring_crate \<Rightarrow> 'w \<Rightarrow> KeychainSlot \<Rightarrow> KeychainError + key option" where
  "os_fetch kr w slot =
     bind_result (entry_for kr slot) (\<lambda>(service, user).
       case kr_get_secret kr w service user of
         Inr bytes \<Rightarrow>
           if length bytes \<noteq> KEY_LEN then Inl (MalformedKey KEY_LEN (length bytes))
           else Inr (Some bytes)
       | Inl e \<Rightarrow>
           (case map_keyring_error e of
              MappedEmpty \<Rightarrow> Inr None
            | MappedBackend msg \<Rightarrow> Inl (Backend msg)))"

definition os_store ::
  "'w keyring_crate \<Rightarrow> 'w \<Rightarrow> KeychainSlot \<Rightarrow> key \<Rightarrow> 'w \<times> (KeychainError + unit)" where
  "os_store kr w slot k =
     (case entry_for kr slot of
        Inl e \<Rightarrow> (w, Inl e)
      | Inr (service, user) \<Rightarrow>
          map_prod id (map_err (\<lambda>e. case map_keyring_error e of
              MappedEmpty \<Rightarrow>
                Backend (''keyring set_secret returned NoEntry (unexpected; the call creates ''
                  @ ''the entry if absent)'')
            | MappedBackend msg \<Rightarrow> Backend msg))
            (kr_set_secret kr w service user k))"

definition os_delete :: "'w keyring_crate \<Rightarrow> 'w \<Rightarrow> KeychainSlot \<Rightarrow> 'w \<times> (KeychainError + unit)" where
  "os_delete kr w slot =
     (case entry_for kr slot of
        Inl e \<Rightarrow> (w, Inl e)
      | Inr (service, user) \<Rightarrow>
          (case kr_delete_credential kr w service user of
             (w', Inr _) \<Rightarrow> (w', Inr ())
           | (w', Inl e) \<Rightarrow>
               (case map_keyring_error e of
                  MappedEmpty \<Rightarrow> (w', Inr ())
                | MappedBackend msg \<Rightarrow> (w', Inl (Backend msg)))))"

definition os_backend :: "'w keyring_crate \<Rightarrow> 'w KeychainBackend" where
  "os_backend kr = \<lparr>kb_fetch = os_fetch kr, kb_store = os_store kr, kb_delete = os_delete kr\<rparr>"

section \<open>The contract of a backend\<close>

text \<open>
  What the callers of a backend rely on: keys have the fixed length, a successful store is what
  the next fetch returns, a successful delete empties the slot.
\<close>

locale keychain_backend =
  fixes backend :: "'s KeychainBackend" and inv :: "'s \<Rightarrow> bool"
  assumes store_inv: "inv s \<Longrightarrow> length k = KEY_LEN \<Longrightarrow> inv (fst (kb_store backend s slot k))"
    and delete_inv: "inv s \<Longrightarrow> inv (fst (kb_delete backend s slot))"
    and fetch_len: "inv s \<Longrightarrow> kb_fetch backend s slot = Inr (Some k) \<Longrightarrow> length k = KEY_LEN"
    and fetch_store: "inv s \<Longrightarrow> length k = KEY_LEN \<Longrightarrow> kb_store backend s slot k = (s', Inr ()) \<Longrightarrow>
      kb_fetch backend s' slot = Inr (Some k)"
    and fetch_delete: "inv s \<Longrightarrow> kb_delete backend s slot = (s', Inr ()) \<Longrightarrow>
      kb_fetch backend s' slot = Inr None"
begin

text \<open>The crash-safety contract: what is returned is what the next process fetches.\<close>

lemma returned_key_persists:
  assumes "inv s" "\<forall>k. generate = Some k \<longrightarrow> length k = KEY_LEN"
    and "fetch_or_create backend s slot generate = Some (s', Inr k)"
  shows "inv s' \<and> length k = KEY_LEN \<and> kb_fetch backend s' slot = Inr (Some k)"
proof (cases "\<exists>k'. kb_fetch backend s slot = Inr (Some k')")
  case True
  then show ?thesis
    using assms(1,3) fetch_len [OF assms(1)] by (auto simp: fetch_or_create_def)
next
  case False
  obtain new_key where gen: "generate = Some new_key"
      and st: "kb_store backend s slot new_key = (s', Inr ())" and k: "k = new_key"
    using assms(3) False
    by (auto simp: fetch_or_create_def split: sum.splits option.splits prod.splits Option.bind_splits)
  have len: "length new_key = KEY_LEN"
    using assms(2) gen by simp
  show ?thesis
    using store_inv [OF assms(1) len, of slot] fetch_store [OF assms(1) len st] st len k by simp
qed

text \<open>A second call returns the same key, changes nothing and does not generate.\<close>

lemma second_call:
  assumes "inv s" "\<forall>k. generate = Some k \<longrightarrow> length k = KEY_LEN"
    and "fetch_or_create backend s slot generate = Some (s', Inr k)"
  shows "fetch_or_create backend s' slot generate' = Some (s', Inr k)"
  using returned_key_persists [OF assms] by (simp add: fetch_or_create_def)

end

lemma fetch_error_touches_nothing:
  "kb_fetch backend s slot = Inl e \<Longrightarrow> fetch_or_create backend s slot generate = Some (s, Inl e)"
  by (simp add: fetch_or_create_def)

definition mem_ok :: "InMemoryKeychain \<Rightarrow> bool" where
  "mem_ok m \<longleftrightarrow> (\<forall>slot k. map_of (slots m) slot = Some k \<longrightarrow> length k = KEY_LEN)"

interpretation memkc: keychain_backend mem_backend mem_ok
  by unfold_locales
    (auto simp: mem_backend_def mem_ok_def mem_fetch_def mem_store_def mem_delete_def split: if_splits)

section \<open>The keyring contract\<close>

text \<open>
  The documented behaviour of the \<open>keyring\<close> crate that the OS backend needs: what is set is what is
  read back, and after a deletion, or a deletion that found no entry, there is no entry.
\<close>

definition keyring_contract :: "'w keyring_crate \<Rightarrow> bool" where
  "keyring_contract kr \<longleftrightarrow>
     (\<forall>w service user k w'. kr_set_secret kr w service user k = (w', Inr ()) \<longrightarrow>
        kr_get_secret kr w' service user = Inr k)
   \<and> (\<forall>w service user w' r. kr_delete_credential kr w service user = (w', r) \<and>
        (r = Inr () \<or> r = Inl NoEntry) \<longrightarrow> kr_get_secret kr w' service user = Inl NoEntry)"

lemma map_keyring_error_empty [simp]: "map_keyring_error e = MappedEmpty \<longleftrightarrow> e = NoEntry"
  by (cases e) (simp_all add: map_keyring_error_def)

lemma map_keyring_error_NoEntry [simp]: "map_keyring_error NoEntry = MappedEmpty"
  by simp

lemma entry_for_ok: "entry_for kr slot = Inr p \<Longrightarrow> p = (SERVICE, slot_user slot)"
  by (auto simp: entry_for_def split: option.splits)

lemma entry_for_error: "entry_for kr slot = Inl e \<Longrightarrow> \<exists>msg. e = Backend msg"
  by (auto simp: entry_for_def split: option.splits Mapped.splits)

lemma os_fetch_cases:
  "os_fetch kr w slot =
     (case entry_for kr slot of
        Inl e \<Rightarrow> Inl e
      | Inr _ \<Rightarrow>
          (case kr_get_secret kr w SERVICE (slot_user slot) of
             Inr bytes \<Rightarrow> if length bytes = KEY_LEN then Inr (Some bytes)
                          else Inl (MalformedKey KEY_LEN (length bytes))
           | Inl e \<Rightarrow> (case map_keyring_error e of
                         MappedEmpty \<Rightarrow> Inr None | MappedBackend msg \<Rightarrow> Inl (Backend msg))))"
proof (cases "entry_for kr slot")
  case (Inr p)
  then show ?thesis
    using entry_for_ok [OF Inr] by (auto simp: os_fetch_def bind_result_def split: sum.splits)
qed (simp add: os_fetch_def bind_result_def)

lemma os_fetch_store:
  assumes kr: "keyring_contract kr" and len: "length k = KEY_LEN"
    and st: "os_store kr w slot k = (w', Inr ())"
  shows "os_fetch kr w' slot = Inr (Some k)"
proof -
  obtain p where p: "entry_for kr slot = Inr p"
    using st by (cases "entry_for kr slot") (auto simp: os_store_def)
  have "kr_set_secret kr w SERVICE (slot_user slot) k = (w', Inr ())"
    using st entry_for_ok [OF p] p
    by (cases "kr_set_secret kr w SERVICE (slot_user slot) k")
      (auto simp: os_store_def map_err_def split: sum.splits)
  then have "kr_get_secret kr w' SERVICE (slot_user slot) = Inr k"
    using kr by (auto simp: keyring_contract_def)
  then show ?thesis
    using p len by (simp add: os_fetch_cases)
qed

lemma os_fetch_delete:
  assumes kr: "keyring_contract kr" and st: "os_delete kr w slot = (w', Inr ())"
  shows "os_fetch kr w' slot = Inr None"
proof -
  obtain p where p: "entry_for kr slot = Inr p"
    using st by (cases "entry_for kr slot") (auto simp: os_delete_def)
  obtain r where r: "kr_delete_credential kr w SERVICE (slot_user slot) = (w', r)"
      "r = Inr () \<or> r = Inl NoEntry"
    using st entry_for_ok [OF p] p
    by (auto simp: os_delete_def split: sum.splits prod.splits Mapped.splits)
  then have "kr_get_secret kr w' SERVICE (slot_user slot) = Inl NoEntry"
    using kr unfolding keyring_contract_def by blast
  then show ?thesis
    using p by (simp add: os_fetch_cases map_keyring_error_def)
qed

locale keyring =
  fixes kr :: "'w keyring_crate"
  assumes contract: "keyring_contract kr"

sublocale keyring \<subseteq> keychain_backend "os_backend kr" "\<lambda>_. True"
proof (unfold_locales, goal_cases)
  case (3 s slot k)
  then show ?case
    by (auto simp: os_backend_def os_fetch_cases split: sum.splits if_splits Mapped.splits)
next
  case (4 s k slot s')
  then show ?case
    using os_fetch_store [OF contract] by (simp add: os_backend_def)
next
  case (5 s slot s')
  then show ?case
    using os_fetch_delete [OF contract] by (simp add: os_backend_def)
qed simp_all

context keyring
begin

lemmas os_key_persists = returned_key_persists [OF TrueI]
  and os_second_call = second_call [OF TrueI]

end

text \<open>A credential store with one secret per (service, user) pair meets the contract.\<close>

definition map_keyring :: "((string \<times> string) \<times> u8 list) list keyring_crate" where
  "map_keyring =
     \<lparr>kr_entry_new = \<lambda>_ _. None,
      kr_get_secret = \<lambda>w service user. (case map_of w (service, user) of
        None \<Rightarrow> Inl NoEntry | Some k \<Rightarrow> Inr k),
      kr_set_secret = \<lambda>w service user k. (AList.update (service, user) k w, Inr ()),
      kr_delete_credential = \<lambda>w service user.
        (AList.delete (service, user) w,
         if map_of w (service, user) = None then Inl NoEntry else Inr ())\<rparr>"

lemma map_keyring_contract: "keyring_contract map_keyring"
  by (auto simp: keyring_contract_def map_keyring_def update_conv' delete_conv')

interpretation mapkr: keyring map_keyring
  by unfold_locales (rule map_keyring_contract)

section \<open>The properties\<close>

text \<open>
  (C21) \<^bold>\<open>The key handed out is the key that is stored.\<close> Over the OS keychain, whenever
  \<open>fetch_or_create\<close> returns a key, the slot holds that key afterwards, and every later call returns
  it again, whatever it could have generated, and leaves the keychain as it is. A crash right
  after the return, or right after the store, loses nothing.
\<close>

theorem fetch_or_create_crash_safe:
  assumes "keyring_contract kr"
    and "\<And>k. generate = Some k \<Longrightarrow> length k = KEY_LEN"
    and "fetch_or_create (os_backend kr) w slot generate = Some (w', Inr k)"
  shows "length k = KEY_LEN \<and> os_fetch kr w' slot = Inr (Some k)
    \<and> fetch_or_create (os_backend kr) w' slot generate' = Some (w', Inr k)"
  using keyring.os_key_persists [OF keyring.intro [OF assms(1)], of generate w slot w' k]
    keyring.os_second_call [OF keyring.intro [OF assms(1)], of generate w slot w' k generate'] assms(2,3)
  by (simp add: os_backend_def)

theorem fetch_or_create_crash_safe_witness:
  "fetch_or_create (os_backend map_keyring) [] VaultKey (Some (replicate 32 7))
     = Some ([((SERVICE, ''vault-key''), replicate 32 7)], Inr (replicate 32 7))
   \<and> fetch_or_create (os_backend map_keyring) [((SERVICE, ''vault-key''), replicate 32 7)] VaultKey
       (Some (replicate 32 9))
     = Some ([((SERVICE, ''vault-key''), replicate 32 7)], Inr (replicate 32 7))"
proof -
  have first: "fetch_or_create (os_backend map_keyring) [] VaultKey (Some (replicate 32 7))
     = Some ([((SERVICE, ''vault-key''), replicate 32 7)], Inr (replicate 32 7))"
    by (simp add: fetch_or_create_def os_backend_def os_fetch_cases os_store_def entry_for_def
        map_keyring_def map_keyring_error_def map_err_def slot_user_def)
  show ?thesis
    using first fetch_or_create_crash_safe [OF map_keyring_contract _ first, of "Some (replicate 32 9)"]
    by (simp add: KEY_LEN_def)
qed

text \<open>
  \<^bold>\<open>A failing keychain never causes a fresh key.\<close> The backend reports an empty slot exactly
  when the entry could be built and \<open>keyring\<close> answered \<open>NoEntry\<close>. On every other failure, a locked
  store, an ambiguous entry, an unknown future variant or a key of the wrong length,
  \<open>fetch_or_create\<close> returns an error with the keychain unchanged and without evaluating \<open>generate\<close>
  (even a \<open>generate\<close> that panics); a stored key is returned as it is.
\<close>

theorem only_no_entry_generates:
  "(os_fetch kr w slot = Inr None \<longleftrightarrow>
      kr_entry_new kr SERVICE (slot_user slot) = None \<and> kr_get_secret kr w SERVICE (slot_user slot) = Inl NoEntry)
   \<and> (os_fetch kr w slot \<noteq> Inr None \<longrightarrow>
        (\<exists>r. fetch_or_create (os_backend kr) w slot generate = Some (w, r)
           \<and> (\<forall>k. r = Inr k \<longrightarrow> kr_get_secret kr w SERVICE (slot_user slot) = Inr k \<and> length k = KEY_LEN)))"
  by (auto simp: os_fetch_cases entry_for_def fetch_or_create_def os_backend_def
      split: option.splits sum.splits Mapped.splits if_splits)

theorem only_no_entry_generates_witness:
  "\<exists>r. fetch_or_create (os_backend (map_keyring\<lparr>kr_get_secret := \<lambda>_ _ _. Inl (NoStorageAccess ''locked'')\<rparr>))
     [((SERVICE, ''vault-key''), replicate 32 7)] VaultKey None
     = Some ([((SERVICE, ''vault-key''), replicate 32 7)], r)"
proof -
  let ?kr = "map_keyring\<lparr>kr_get_secret := \<lambda>_ _ _. Inl (NoStorageAccess ''locked'')\<rparr>"
  have "os_fetch ?kr [((SERVICE, ''vault-key''), replicate 32 7)] VaultKey \<noteq> Inr None"
    by (simp add: os_fetch_cases entry_for_def map_keyring_def map_keyring_error_def)
  then show ?thesis
    using only_no_entry_generates [of ?kr "[((SERVICE, ''vault-key''), replicate 32 7)]" VaultKey None]
    by blast
qed

end
