(* ===== verification/Fs.thy ===== *)
theory Fs
  imports Prelude
begin

text \<open>
  The part of \<open>std::path\<close>, \<open>std::ffi\<close> and \<open>std::fs\<close> the sources use, on a Unix system. Paths are lists
  of components. The file system has inodes, the names that lead to them, and the directories; it
  knows which inodes have been synced, which names may still come back after a power loss, and which
  directories were created and may still vanish.
  An \<open>os_env\<close> says which system calls fail for reasons outside the model (permissions, a full disk).
  The model has no symbolic links, no hard links and one process.
\<close>

section \<open>Paths\<close>

record path =
  absolute :: bool
  comps :: "string list"

abbreviation rel :: "string list \<Rightarrow> path" where
  "rel cs \<equiv> \<lparr>absolute = False, comps = cs\<rparr>"

abbreviation abs_path :: "string list \<Rightarrow> path" where
  "abs_path cs \<equiv> \<lparr>absolute = True, comps = cs\<rparr>"

fun split_slash :: "string \<Rightarrow> string \<Rightarrow> string list" where
  "split_slash acc [] = [rev acc]"
| "split_slash acc (c # s) =
     (if c = CHR ''/'' then rev acc # split_slash [] s else split_slash (c # acc) s)"

text \<open>
  \<open>Path::components\<close>: repeated slashes and \<open>.\<close> components vanish, except a leading \<open>.\<close>.
\<close>

definition path_of :: "string \<Rightarrow> path" where
  "path_of s =
     (let is_abs = (case s of [] \<Rightarrow> False | c # _ \<Rightarrow> c = CHR ''/'');
          parts = filter (\<lambda>p. p \<noteq> []) (split_slash [] s)
      in \<lparr>absolute = is_abs,
          comps = (if \<not> is_abs \<and> parts \<noteq> [] \<and> hd parts = ''.''
                   then ''.'' # filter (\<lambda>p. p \<noteq> ''.'') (tl parts)
                   else filter (\<lambda>p. p \<noteq> ''.'') parts)\<rparr>)"

definition parent_of :: "path \<Rightarrow> path option" where
  "parent_of p = (if comps p = [] then None else Some (p\<lparr>comps := butlast (comps p)\<rparr>))"

definition file_name :: "path \<Rightarrow> string option" where
  "file_name p =
     (if comps p = [] \<or> last (comps p) = ''.'' \<or> last (comps p) = ''..'' then None
      else Some (last (comps p)))"

definition path_join :: "path \<Rightarrow> path \<Rightarrow> path" where
  "path_join a b =
     (if absolute b then b
      else a\<lparr>comps := comps a @
        (if comps a = [] \<and> \<not> absolute a then comps b else filter (\<lambda>c. c \<noteq> ''.'') (comps b))\<rparr>)"

section \<open>Lossy conversion of an operating-system string\<close>

text \<open>
  How many bytes at the front form one character, or, on the left, the length of the invalid
  sequence that is replaced as a whole (the lead byte and the continuation bytes that fit it).
\<close>

definition second_byte_ok :: "nat \<Rightarrow> nat \<Rightarrow> bool" where
  "second_byte_ok b c =
     (if b = 0xE0 then 0xA0 \<le> c \<and> c \<le> 0xBF
      else if b = 0xED then 0x80 \<le> c \<and> c \<le> 0x9F
      else if b = 0xF0 then 0x90 \<le> c \<and> c \<le> 0xBF
      else if b = 0xF4 then 0x80 \<le> c \<and> c \<le> 0x8F
      else 0x80 \<le> c \<and> c \<le> 0xBF)"

definition utf8_char_width :: "nat \<Rightarrow> nat" where
  "utf8_char_width b =
     (if b < 0x80 then 1 else if 0xC2 \<le> b \<and> b \<le> 0xDF then 2
      else if 0xE0 \<le> b \<and> b \<le> 0xEF then 3 else if 0xF0 \<le> b \<and> b \<le> 0xF4 then 4 else 0)"

definition next_chunk :: "char \<Rightarrow> string \<Rightarrow> nat + nat" where
  "next_chunk b bs =
     (let w = utf8_char_width (byte_val b);
          good = (case bs of
              [] \<Rightarrow> 0
            | c # cs \<Rightarrow>
                if \<not> second_byte_ok (byte_val b) (byte_val c) then 0
                else Suc (length (takeWhile is_continuation cs)))
      in if w = 1 then Inr 1
         else if w = 0 then Inl 1
         else if w \<le> Suc good then Inr w else Inl (Suc good))"

lemma next_chunk_pos: "next_chunk b bs = Inl n \<Longrightarrow> 0 < n" "next_chunk b bs = Inr n \<Longrightarrow> 0 < n"
  by (auto simp: next_chunk_def Let_def split: if_splits)

definition replacement_char :: string where
  "replacement_char = [CHR 0xEF, CHR 0xBF, CHR 0xBD]"

function to_string_lossy :: "string \<Rightarrow> string" where
  "to_string_lossy [] = []"
| "to_string_lossy (b # bs) =
     (case next_chunk b bs of
        Inr n \<Rightarrow> take n (b # bs) @ to_string_lossy (drop n (b # bs))
      | Inl n \<Rightarrow> replacement_char @ to_string_lossy (drop n (b # bs)))"
  by pat_completeness auto
termination
  by (relation "measure length") (auto dest: next_chunk_pos)

lemma next_chunk_ascii: "byte_val b < 128 \<Longrightarrow> next_chunk b bs = Inr 1"
  by (simp add: next_chunk_def utf8_char_width_def)

lemma lossy_ascii_Cons: "byte_val b < 128 \<Longrightarrow> to_string_lossy (b # bs) = b # to_string_lossy bs"
  by (simp add: next_chunk_ascii)

text \<open>A name that is ASCII is unchanged.\<close>

lemma to_string_lossy_ascii [simp]: "is_ascii s \<Longrightarrow> to_string_lossy s = s"
  by (induction s) (simp_all add: lossy_ascii_Cons del: to_string_lossy.simps(2))

section \<open>Errors of the operating system\<close>

datatype ErrorKind =
  NotFound | ConnectionRefused | AlreadyExists | PermissionDenied | IsADirectory | NotADirectory | StorageFull | OtherKind

datatype io_error = IoError ErrorKind string

definition io_kind :: "io_error \<Rightarrow> ErrorKind" where
  "io_kind e = (case e of IoError k _ \<Rightarrow> k)"

abbreviation os_error :: "ErrorKind \<Rightarrow> io_error" where
  "os_error k \<equiv> IoError k []"

section \<open>The file system\<close>

record inode =
  data :: "u8 list"
  mode :: u32
  synced :: bool

text \<open>
  \<open>names\<close> is what a running process sees. \<open>pending\<close> holds bindings that were replaced since their
  directory was last synced: after a power loss a name may show any of them instead. \<open>new_dirs\<close> holds
  the directories that were made since the directory above them was last synced: after a power loss
  any of them may be gone, with everything below it.
\<close>

record fs =
  inodes :: "(nat \<times> inode) list"
  names :: "(path \<times> nat) list"
  pending :: "(path \<times> nat option) list"
  dirs :: "(path \<times> u32) list"
  new_dirs :: "path list"
  next_inode :: nat

text \<open>The machine: the file system, and every state it went through (for reasoning about crashes).\<close>

record machine =
  disk :: fs
  history :: "fs list"

datatype fs_call =
    CallMkdir path | CallChmod path | CallCreate path | CallWrite path | CallSync path
  | CallRename path path | CallOpen path | CallRead path | CallReadDir path | CallUnlink path
  | CallStat path | CallBind path | CallListen path

record os_env =
  fault :: "fs_call \<Rightarrow> io_error option"
  short_write :: nat
  process_id :: nat
  umask :: u32

abbreviation healthy :: "os_env \<Rightarrow> bool" where
  "healthy env \<equiv> (\<forall>call. fault env call = None)"

definition step_to :: "fs \<Rightarrow> machine \<Rightarrow> machine" where
  "step_to s m = \<lparr>disk = s, history = history m @ [s]\<rparr>"

definition dir_exists :: "fs \<Rightarrow> path \<Rightarrow> bool" where
  "dir_exists s p \<longleftrightarrow> p \<noteq> rel [] \<and> (map_of (dirs s) p \<noteq> None \<or> p = abs_path [])"

definition file_at :: "fs \<Rightarrow> path \<Rightarrow> inode option" where
  "file_at s p = Option.bind (map_of (names s) p) (map_of (inodes s))"

definition content_at :: "fs \<Rightarrow> path \<Rightarrow> u8 list option" where
  "content_at s p = map_option data (file_at s p)"

definition path_exists :: "fs \<Rightarrow> path \<Rightarrow> bool" where
  "path_exists s p \<longleftrightarrow> dir_exists s p \<or> map_of (names s) p \<noteq> None"

text \<open>Where a new name would go: the current directory holds the relative names of one component.\<close>

definition parent_usable :: "fs \<Rightarrow> path \<Rightarrow> bool" where
  "parent_usable s p \<longleftrightarrow>
     comps p \<noteq> [] \<and>
     (let d = p\<lparr>comps := butlast (comps p)\<rparr> in d = rel [] \<or> dir_exists s d)"

definition sys_mkdir :: "os_env \<Rightarrow> machine \<Rightarrow> path \<Rightarrow> machine \<times> (io_error + unit)" where
  "sys_mkdir env m p =
     (case fault env (CallMkdir p) of
        Some e \<Rightarrow> (m, Inl e)
      | None \<Rightarrow>
          if path_exists (disk m) p then (m, Inl (os_error AlreadyExists))
          else if \<not> parent_usable (disk m) p then (m, Inl (os_error NotFound))
          else (step_to ((disk m)\<lparr>dirs := (p, and 0x1FF (not (umask env))) # dirs (disk m),
                 new_dirs := p # new_dirs (disk m)\<rparr>) m, Inr ()))"

text \<open>\<open>DirBuilder::create\<close> with \<open>recursive\<close>, on the reversed components.\<close>

fun create_dir_rev :: "os_env \<Rightarrow> bool \<Rightarrow> machine \<Rightarrow> string list \<Rightarrow> machine \<times> (io_error + unit)" where
  "create_dir_rev env ab m [] =
     (if \<not> ab then (m, Inr ())
      else if dir_exists (disk m) (abs_path []) then (m, Inr ())
      else (m, Inl (os_error OtherKind)))"
| "create_dir_rev env ab m (c # cs) =
     (let p = \<lparr>absolute = ab, comps = rev (c # cs)\<rparr> in
      case sys_mkdir env m p of
        (m', Inr _) \<Rightarrow> (m', Inr ())
      | (m', Inl e) \<Rightarrow>
          if io_kind e \<noteq> NotFound then (if dir_exists (disk m') p then (m', Inr ()) else (m', Inl e))
          else
            (case create_dir_rev env ab m' cs of
               (m1, Inl e1) \<Rightarrow> (m1, Inl e1)
             | (m1, Inr _) \<Rightarrow>
                 (case sys_mkdir env m1 p of
                    (m2, Inr _) \<Rightarrow> (m2, Inr ())
                  | (m2, Inl e2) \<Rightarrow> if dir_exists (disk m2) p then (m2, Inr ()) else (m2, Inl e2))))"

definition create_dir_all :: "os_env \<Rightarrow> machine \<Rightarrow> path \<Rightarrow> machine \<times> (io_error + unit)" where
  "create_dir_all env m p = create_dir_rev env (absolute p) m (rev (comps p))"

definition update_inode :: "nat \<Rightarrow> (inode \<Rightarrow> inode) \<Rightarrow> fs \<Rightarrow> fs" where
  "update_inode i f s =
     (case map_of (inodes s) i of None \<Rightarrow> s
      | Some n \<Rightarrow> s\<lparr>inodes := AList.update i (f n) (inodes s)\<rparr>)"

definition sys_chmod :: "os_env \<Rightarrow> machine \<Rightarrow> path \<Rightarrow> u32 \<Rightarrow> machine \<times> (io_error + unit)" where
  "sys_chmod env m p md =
     (case fault env (CallChmod p) of
        Some e \<Rightarrow> (m, Inl e)
      | None \<Rightarrow>
          if p = rel [] then (m, Inl (os_error NotFound))
          else if map_of (dirs (disk m)) p \<noteq> None \<or> p = abs_path [] then
            (step_to ((disk m)\<lparr>dirs := AList.update p md (dirs (disk m))\<rparr>) m, Inr ())
          else
            (case map_of (names (disk m)) p of
               None \<Rightarrow> (m, Inl (os_error NotFound))
             | Some i \<Rightarrow> (step_to (update_inode i (\<lambda>n. n\<lparr>mode := md\<rparr>) (disk m)) m, Inr ())))"

definition bind_name :: "path \<Rightarrow> nat option \<Rightarrow> fs \<Rightarrow> fs" where
  "bind_name p b s =
     s\<lparr>names := (case b of None \<Rightarrow> AList.delete p (names s) | Some i \<Rightarrow> AList.update p i (names s)),
       pending := (p, map_of (names s) p) # pending s\<rparr>"

text \<open>\<open>open(O_WRONLY | O_CREAT | O_EXCL)\<close>: the new inode is empty; nothing of it is on the disk yet.\<close>

definition sys_create_new :: "os_env \<Rightarrow> machine \<Rightarrow> path \<Rightarrow> u32 \<Rightarrow> machine \<times> (io_error + nat)" where
  "sys_create_new env m p md =
     (case fault env (CallCreate p) of
        Some e \<Rightarrow> (m, Inl e)
      | None \<Rightarrow>
          if path_exists (disk m) p then (m, Inl (os_error AlreadyExists))
          else if \<not> parent_usable (disk m) p then (m, Inl (os_error NotFound))
          else
            (let s = disk m; i = next_inode s;
                 node = \<lparr>data = [], mode = and md (not (umask env)), synced = False\<rparr>
             in (step_to (bind_name p (Some i)
                   (s\<lparr>inodes := (i, node) # inodes s, next_inode := Suc i\<rparr>)) m, Inr i)))"

text \<open>\<open>write_all\<close> on a new file; a failing write may leave part of the bytes behind.\<close>

definition sys_write_all :: "os_env \<Rightarrow> machine \<Rightarrow> path \<Rightarrow> nat \<Rightarrow> u8 list \<Rightarrow> machine \<times> (io_error + unit)" where
  "sys_write_all env m p i bytes =
     (case fault env (CallWrite p) of
        Some e \<Rightarrow>
          (step_to (update_inode i (\<lambda>n. n\<lparr>data := data n @ take (short_write env) bytes, synced := False\<rparr>)
             (disk m)) m, Inl e)
      | None \<Rightarrow>
          (step_to (update_inode i (\<lambda>n. n\<lparr>data := data n @ bytes, synced := False\<rparr>) (disk m)) m, Inr ()))"

definition sys_fsync :: "os_env \<Rightarrow> machine \<Rightarrow> path \<Rightarrow> nat \<Rightarrow> machine \<times> (io_error + unit)" where
  "sys_fsync env m p i =
     (case fault env (CallSync p) of
        Some e \<Rightarrow> (m, Inl e)
      | None \<Rightarrow> (step_to (update_inode i (\<lambda>n. n\<lparr>synced := True\<rparr>) (disk m)) m, Inr ()))"

definition sys_rename :: "os_env \<Rightarrow> machine \<Rightarrow> path \<Rightarrow> path \<Rightarrow> machine \<times> (io_error + unit)" where
  "sys_rename env m a b =
     (case fault env (CallRename a b) of
        Some e \<Rightarrow> (m, Inl e)
      | None \<Rightarrow>
          (case map_of (names (disk m)) a of
             None \<Rightarrow> (m, Inl (os_error NotFound))
           | Some i \<Rightarrow>
               if dir_exists (disk m) b then (m, Inl (os_error IsADirectory))
               else if \<not> parent_usable (disk m) b then (m, Inl (os_error NotFound))
               else (step_to (bind_name b (Some i) (bind_name a None (disk m))) m, Inr ())))"

text \<open>\<open>File::open\<close> on a directory, followed by \<open>sync_all\<close>: its names can no longer change back.\<close>

definition sys_open :: "os_env \<Rightarrow> machine \<Rightarrow> path \<Rightarrow> io_error + unit" where
  "sys_open env m p =
     (case fault env (CallOpen p) of
        Some e \<Rightarrow> Inl e
      | None \<Rightarrow> if path_exists (disk m) p then Inr () else Inl (os_error NotFound))"

definition dir_synced :: "path \<Rightarrow> fs \<Rightarrow> fs" where
  "dir_synced d s =
     s\<lparr>pending := filter (\<lambda>(p, _). parent_of p \<noteq> Some d) (pending s),
       new_dirs := filter (\<lambda>p. parent_of p \<noteq> Some d) (new_dirs s)\<rparr>"

definition sys_fsync_dir :: "os_env \<Rightarrow> machine \<Rightarrow> path \<Rightarrow> machine \<times> (io_error + unit)" where
  "sys_fsync_dir env m d =
     (case fault env (CallSync d) of
        Some e \<Rightarrow> (m, Inl e)
      | None \<Rightarrow> (step_to (dir_synced d (disk m)) m, Inr ()))"

definition sys_read :: "os_env \<Rightarrow> machine \<Rightarrow> path \<Rightarrow> io_error + u8 list" where
  "sys_read env m p =
     (case fault env (CallRead p) of
        Some e \<Rightarrow> Inl e
      | None \<Rightarrow> (case content_at (disk m) p of None \<Rightarrow> Inl (os_error IsADirectory) | Some b \<Rightarrow> Inr b))"

text \<open>\<open>read_dir\<close>: the names in a directory; \<open>DirEntry::path\<close> is the directory joined with the name.\<close>

definition sys_read_dir :: "os_env \<Rightarrow> machine \<Rightarrow> path \<Rightarrow> io_error + path list" where
  "sys_read_dir env m d =
     (case fault env (CallReadDir d) of
        Some e \<Rightarrow> Inl e
      | None \<Rightarrow>
          if dir_exists (disk m) d then
            Inr (filter (\<lambda>p. parent_of p = Some d) (remdups (map fst (names (disk m)) @ map fst (dirs (disk m)))))
          else if map_of (names (disk m)) d \<noteq> None then Inl (os_error NotADirectory)
          else Inl (os_error NotFound))"

definition sys_remove_file :: "os_env \<Rightarrow> machine \<Rightarrow> path \<Rightarrow> machine \<times> (io_error + unit)" where
  "sys_remove_file env m p =
     (case fault env (CallUnlink p) of
        Some e \<Rightarrow> (m, Inl e)
      | None \<Rightarrow>
          (case map_of (names (disk m)) p of
             None \<Rightarrow> (m, Inl (if dir_exists (disk m) p then os_error IsADirectory else os_error NotFound))
           | Some _ \<Rightarrow> (step_to (bind_name p None (disk m)) m, Inr ())))"

text \<open>\<open>metadata\<close>: the permission bits of a directory or a file (the root has the usual ones).\<close>

definition mode_at :: "fs \<Rightarrow> path \<Rightarrow> u32 option" where
  "mode_at s p =
     (if p = rel [] then None
      else
        (case map_of (dirs s) p of
           Some md \<Rightarrow> Some md
         | None \<Rightarrow>
             if p = abs_path [] then Some 0x1ED else map_option mode (file_at s p)))"

definition sys_stat_mode :: "os_env \<Rightarrow> machine \<Rightarrow> path \<Rightarrow> io_error + u32" where
  "sys_stat_mode env m p =
     (case fault env (CallStat p) of
        Some e \<Rightarrow> Inl e
      | None \<Rightarrow> (case mode_at (disk m) p of Some md \<Rightarrow> Inr md | None \<Rightarrow> Inl (os_error NotFound)))"

text \<open>\<open>bind\<close> of a Unix socket: a new name, refused when there is one already.\<close>

definition sys_bind :: "os_env \<Rightarrow> machine \<Rightarrow> path \<Rightarrow> machine \<times> (io_error + unit)" where
  "sys_bind env m p =
     (case fault env (CallBind p) of
        Some e \<Rightarrow> (m, Inl e)
      | None \<Rightarrow>
          if path_exists (disk m) p then (m, Inl (IoError OtherKind ''address in use''))
          else if \<not> parent_usable (disk m) p then (m, Inl (os_error NotFound))
          else
            (let s = disk m; i = next_inode s;
                 node = \<lparr>data = [], mode = and 0x1FF (not (umask env)), synced = False\<rparr>
             in (step_to (bind_name p (Some i)
                   (s\<lparr>inodes := (i, node) # inodes s, next_inode := Suc i\<rparr>)) m, Inr ())))"

section \<open>Power loss\<close>

text \<open>
  What a name may lead to when the machine comes back: the current binding or any pending one.
  An inode that was not synced since it was last written has unspecified contents.
\<close>

definition binding_view :: "fs \<Rightarrow> nat option \<Rightarrow> u8 list option \<Rightarrow> bool" where
  "binding_view s b r \<longleftrightarrow>
     (case Option.bind b (map_of (inodes s)) of
        None \<Rightarrow> r = None
      | Some n \<Rightarrow> if synced n then r = Some (data n) else r \<noteq> None)"

definition binding_after_loss :: "fs \<Rightarrow> path \<Rightarrow> u8 list option \<Rightarrow> bool" where
  "binding_after_loss s p r \<longleftrightarrow>
     (\<exists>b. (b = map_of (names s) p \<or> (p, b) \<in> set (pending s)) \<and> binding_view s b r)"

definition below :: "path \<Rightarrow> path \<Rightarrow> bool" where
  "below d p \<longleftrightarrow> absolute d = absolute p \<and> length (comps d) < length (comps p)
     \<and> take (length (comps d)) (comps p) = comps d"

definition dir_may_vanish :: "fs \<Rightarrow> path \<Rightarrow> bool" where
  "dir_may_vanish s p \<longleftrightarrow> list_ex (\<lambda>d. below d p) (new_dirs s)"

definition after_power_loss :: "fs \<Rightarrow> path \<Rightarrow> u8 list option \<Rightarrow> bool" where
  "after_power_loss s p r \<longleftrightarrow> binding_after_loss s p r \<or> r = None \<and> dir_may_vanish s p"

text \<open>A name whose binding and contents are on the disk, in a directory that is there to stay.\<close>

definition binding_settled :: "fs \<Rightarrow> path \<Rightarrow> bool" where
  "binding_settled s p \<longleftrightarrow>
     p \<notin> fst ` set (pending s)
     \<and> (\<forall>i. map_of (names s) p = Some i \<longrightarrow> (\<exists>n. map_of (inodes s) i = Some n \<and> synced n))"

definition settled :: "fs \<Rightarrow> path \<Rightarrow> bool" where
  "settled s p \<longleftrightarrow> binding_settled s p \<and> \<not> dir_may_vanish s p"

text \<open>Names, the current and the pending ones, lead to allocated inodes.\<close>

definition fs_ok :: "fs \<Rightarrow> bool" where
  "fs_ok s \<longleftrightarrow>
     (\<forall>i. map_of (inodes s) i \<noteq> None \<longrightarrow> i < next_inode s)
     \<and> (\<forall>p i. map_of (names s) p = Some i \<longrightarrow> map_of (inodes s) i \<noteq> None)
     \<and> (\<forall>(p, b) \<in> set (pending s). \<forall>i. b = Some i \<longrightarrow> map_of (inodes s) i \<noteq> None)"

lemma binding_settled_loss:
  assumes "binding_settled s p"
  shows "binding_after_loss s p r \<longleftrightarrow> r = content_at s p"
proof -
  have "(p, b) \<notin> set (pending s)" for b
    using assms by (force simp: binding_settled_def)
  then show ?thesis
    using assms
    by (auto simp: binding_settled_def binding_after_loss_def binding_view_def content_at_def file_at_def
        split: option.splits Option.bind_splits)
qed

lemma settled_power_loss: "settled s p \<Longrightarrow> after_power_loss s p r \<longleftrightarrow> r = content_at s p"
  by (simp add: settled_def after_power_loss_def binding_settled_loss)

text \<open>
  \<open>grows P m m'\<close>: the machine went from \<open>m\<close> to \<open>m'\<close> through states that all satisfy \<open>P\<close>.
\<close>

definition grows :: "(fs \<Rightarrow> bool) \<Rightarrow> machine \<Rightarrow> machine \<Rightarrow> bool" where
  "grows P m m' \<longleftrightarrow> (\<exists>ss. history m' = history m @ ss \<and> (\<forall>s \<in> set ss. P s))"

lemma grows_refl [simp]: "grows P m m"
  by (simp add: grows_def)

lemma grows_trans: "grows P m m1 \<Longrightarrow> grows P m1 m2 \<Longrightarrow> grows P m m2"
  by (auto simp: grows_def)

lemma grows_step: "P s \<Longrightarrow> grows P m (step_to s m)"
  by (simp add: grows_def step_to_def)

lemma grows_mono: "grows P m m' \<Longrightarrow> (\<And>s. P s \<Longrightarrow> Q s) \<Longrightarrow> grows Q m m'"
  by (auto simp: grows_def)

lemma disk_step_to [simp]: "disk (step_to s m) = s"
  by (simp add: step_to_def)

text \<open>
  A later state agrees with an earlier one about a name: same binding, same pending bindings, and
  every inode of the earlier state is untouched.
\<close>

definition agrees :: "fs \<Rightarrow> path \<Rightarrow> fs \<Rightarrow> bool" where
  "agrees s0 p s \<longleftrightarrow>
     map_of (names s) p = map_of (names s0) p
     \<and> (\<forall>b. (p, b) \<in> set (pending s) \<longleftrightarrow> (p, b) \<in> set (pending s0))
     \<and> (\<forall>i < next_inode s0. map_of (inodes s) i = map_of (inodes s0) i)
     \<and> next_inode s0 \<le> next_inode s"

lemma agrees_refl [simp]: "agrees s p s"
  by (simp add: agrees_def)

lemma fs_ok_bounds:
  assumes "fs_ok s"
  shows "map_of (names s) p = Some i \<Longrightarrow> i < next_inode s"
    and "(p, Some i) \<in> set (pending s) \<Longrightarrow> i < next_inode s"
proof -
  have *: "map_of (inodes s) i \<noteq> None \<Longrightarrow> i < next_inode s" for i
    using assms by (simp add: fs_ok_def)
  show "map_of (names s) p = Some i \<Longrightarrow> i < next_inode s"
    using assms * by (simp add: fs_ok_def)
  show "(p, Some i) \<in> set (pending s) \<Longrightarrow> i < next_inode s"
    using assms * by (fastforce simp: fs_ok_def)
qed

lemma fs_ok_named: "fs_ok s \<Longrightarrow> map_of (names s) p = Some i \<Longrightarrow> \<exists>n. map_of (inodes s) i = Some n"
  unfolding fs_ok_def by blast

lemma agrees_view:
  assumes "fs_ok s0" "agrees s0 p s" "b = map_of (names s0) p \<or> (p, b) \<in> set (pending s0)"
  shows "Option.bind b (map_of (inodes s)) = Option.bind b (map_of (inodes s0))"
proof (cases b)
  case (Some i)
  then have "i < next_inode s0"
    using assms(3) fs_ok_bounds [OF assms(1), of p i] by metis
  then show ?thesis
    using assms(2) Some by (simp add: agrees_def)
qed simp

lemma agrees_content: "fs_ok s0 \<Longrightarrow> agrees s0 p s \<Longrightarrow> content_at s p = content_at s0 p"
  using agrees_view [of s0 p s "map_of (names s0) p"]
  by (simp add: content_at_def file_at_def agrees_def)

lemma agrees_binding_loss:
  "fs_ok s0 \<Longrightarrow> agrees s0 p s \<Longrightarrow> binding_after_loss s p r \<longleftrightarrow> binding_after_loss s0 p r"
  using agrees_view [of s0 p s]
  by (auto simp: binding_after_loss_def binding_view_def agrees_def)

lemma agrees_binding_settled:
  assumes "fs_ok s0" "agrees s0 p s"
  shows "binding_settled s p \<longleftrightarrow> binding_settled s0 p"
proof -
  have p: "p \<in> fst ` set (pending s) \<longleftrightarrow> p \<in> fst ` set (pending s0)"
    using assms(2) by (force simp: agrees_def image_iff)
  have "map_of (inodes s) i = map_of (inodes s0) i" if "map_of (names s0) p = Some i" for i
    using assms fs_ok_bounds(1) [OF assms(1) that] by (simp add: agrees_def)
  then show ?thesis
    using p assms(2) by (auto simp: binding_settled_def agrees_def)
qed

lemma map_of_bind_name:
  "map_of (names (bind_name q b s)) p = (if p = q then b else map_of (names s) p)"
  by (cases b) (auto simp: bind_name_def)

lemma bind_name_simps [simp]:
  "inodes (bind_name q b s) = inodes s" "next_inode (bind_name q b s) = next_inode s"
  "pending (bind_name q b s) = (q, map_of (names s) q) # pending s" "dirs (bind_name q b s) = dirs s"
  "new_dirs (bind_name q b s) = new_dirs s"
  by (simp_all add: bind_name_def)

lemma update_inode_simps [simp]:
  "names (update_inode i f s) = names s" "next_inode (update_inode i f s) = next_inode s"
  "pending (update_inode i f s) = pending s" "dirs (update_inode i f s) = dirs s"
  "new_dirs (update_inode i f s) = new_dirs s"
  by (simp_all add: update_inode_def split: option.splits)

lemma dir_synced_simps [simp]:
  "names (dir_synced d s) = names s" "inodes (dir_synced d s) = inodes s"
  "next_inode (dir_synced d s) = next_inode s" "dirs (dir_synced d s) = dirs s"
  "pending (dir_synced d s) = filter (\<lambda>(p, _). parent_of p \<noteq> Some d) (pending s)"
  "new_dirs (dir_synced d s) = filter (\<lambda>p. parent_of p \<noteq> Some d) (new_dirs s)"
  "content_at (dir_synced d s) p = content_at s p"
  by (simp_all add: dir_synced_def content_at_def file_at_def)

lemma dir_exists_cong: "dirs s = dirs s' \<Longrightarrow> dir_exists s p = dir_exists s' p"
  by (simp add: dir_exists_def)

lemma dir_exists_steps [simp]:
  "dir_exists (bind_name q b s) p = dir_exists s p" "dir_exists (update_inode i f s) p = dir_exists s p"
  "dir_exists (dir_synced d s) p = dir_exists s p"
  "dir_exists (s\<lparr>inodes := is, next_inode := n\<rparr>) p = dir_exists s p"
  by (simp_all add: dir_exists_def)

lemma fs_ok_dirs [simp]: "fs_ok (s\<lparr>dirs := ds\<rparr>) = fs_ok s" "fs_ok (s\<lparr>dirs := ds, new_dirs := ns\<rparr>) = fs_ok s"
  by (simp_all add: fs_ok_def)

lemma fs_ok_dir_synced: "fs_ok s \<Longrightarrow> fs_ok (dir_synced d s)"
  by (auto simp: fs_ok_def)

lemma map_of_update_inode:
  "map_of (inodes (update_inode i f s)) j =
     (if j = i then map_option f (map_of (inodes s) i) else map_of (inodes s) j)"
  by (auto simp: update_inode_def split: option.splits)

lemma agrees_bind_name: "agrees s0 p s \<Longrightarrow> q \<noteq> p \<Longrightarrow> agrees s0 p (bind_name q b s)"
  by (auto simp: agrees_def map_of_bind_name)

lemma agrees_update_inode: "agrees s0 p s \<Longrightarrow> next_inode s0 \<le> i \<Longrightarrow> agrees s0 p (update_inode i f s)"
  by (auto simp: agrees_def map_of_update_inode)

lemma agrees_new_inode:
  "agrees s0 p s \<Longrightarrow>
     agrees s0 p (s\<lparr>inodes := (next_inode s, n) # inodes s, next_inode := Suc (next_inode s)\<rparr>)"
  by (auto simp: agrees_def)

text \<open>The invariant is kept by the steps.\<close>

lemma fs_ok_update_inode: "fs_ok s \<Longrightarrow> fs_ok (update_inode i f s)"
  unfolding fs_ok_def
  by (auto simp: map_of_update_inode)

lemma fs_ok_bind_name:
  assumes "fs_ok s" "\<And>i. b = Some i \<Longrightarrow> map_of (inodes s) i \<noteq> None"
  shows "fs_ok (bind_name q b s)"
  using assms by (auto simp: fs_ok_def map_of_bind_name)

lemma fs_ok_new_inode:
  assumes "fs_ok s"
  shows "fs_ok (s\<lparr>inodes := (next_inode s, n) # inodes s, next_inode := Suc (next_inode s)\<rparr>)"
proof -
  have "i < Suc (next_inode s)" if "map_of (inodes s) i \<noteq> None" for i
    using assms that by (simp add: fs_ok_def less_Suc_eq)
  then show ?thesis
    using assms by (auto simp: fs_ok_def split: prod.splits)
qed

text \<open>Making directories touches no file.\<close>

definition same_files :: "fs \<Rightarrow> fs \<Rightarrow> bool" where
  "same_files s s' \<longleftrightarrow>
     inodes s' = inodes s \<and> names s' = names s \<and> pending s' = pending s \<and> next_inode s' = next_inode s"

lemma same_files_refl [simp]: "same_files s s"
  by (simp add: same_files_def)

lemma same_files_trans: "same_files s s1 \<Longrightarrow> same_files s1 s2 \<Longrightarrow> same_files s s2"
  by (simp add: same_files_def)

lemma same_files_agrees: "same_files s0 s \<Longrightarrow> agrees s0 p s"
  by (simp add: same_files_def agrees_def)

lemma same_files_ok: "same_files s0 s \<Longrightarrow> fs_ok s0 \<Longrightarrow> fs_ok s"
  by (simp add: same_files_def fs_ok_def)

text \<open>Every directory that appears is new, and a new one stays new.\<close>

definition dirs_tracked :: "fs \<Rightarrow> fs \<Rightarrow> bool" where
  "dirs_tracked s s' \<longleftrightarrow> set (new_dirs s) \<subseteq> set (new_dirs s')
     \<and> (\<forall>d. dir_exists s' d \<longrightarrow> dir_exists s d \<or> d \<in> set (new_dirs s'))"

definition only_dirs :: "machine \<Rightarrow> machine \<Rightarrow> bool" where
  "only_dirs m m' \<longleftrightarrow> same_files (disk m) (disk m') \<and> grows (same_files (disk m)) m m'
     \<and> dirs_tracked (disk m) (disk m')"

lemma only_dirs_refl [simp]: "only_dirs m m"
  by (simp add: only_dirs_def dirs_tracked_def)

lemma only_dirs_trans:
  assumes "only_dirs m m1" "only_dirs m1 m2"
  shows "only_dirs m m2"
proof -
  have "grows (same_files (disk m)) m1 m2"
    using assms by (auto simp: only_dirs_def intro: grows_mono same_files_trans)
  moreover have "dirs_tracked (disk m) (disk m2)"
    using assms by (auto simp: only_dirs_def dirs_tracked_def)
  ultimately show ?thesis
    using assms by (auto simp: only_dirs_def intro: grows_trans same_files_trans)
qed

lemma sys_mkdir_only_dirs: "sys_mkdir env m p = (m', r) \<Longrightarrow> only_dirs m m'"
  by (auto simp: sys_mkdir_def only_dirs_def same_files_def dirs_tracked_def dir_exists_def intro: grows_step
      split: option.splits if_splits)

lemma create_dir_rev_only_dirs: "create_dir_rev env ab m cs = (m', r) \<Longrightarrow> only_dirs m m'"
proof (induction env ab m cs arbitrary: m' r rule: create_dir_rev.induct)
  case (2 env ab m c cs)
  let ?p = "\<lparr>absolute = ab, comps = rev (c # cs)\<rparr>"
  obtain m1 r1 where mk: "sys_mkdir env m ?p = (m1, r1)"
    by (cases "sys_mkdir env m ?p")
  obtain m2 r2 where cr: "create_dir_rev env ab m1 cs = (m2, r2)"
    by (cases "create_dir_rev env ab m1 cs")
  obtain m3 r3 where mk': "sys_mkdir env m2 ?p = (m3, r3)"
    by (cases "sys_mkdir env m2 ?p")
  have one: "only_dirs m m1"
    by (rule sys_mkdir_only_dirs [OF mk])
  have three: "only_dirs m2 m3"
    by (rule sys_mkdir_only_dirs [OF mk'])
  have "m' = m1 \<or> ((\<exists>e. r1 = Inl e \<and> io_kind e = NotFound) \<and> (m' = m2 \<or> m' = m3))"
    using "2.prems" mk cr mk'
    by (auto simp: Let_def split: sum.splits if_splits)
  moreover have "only_dirs m1 m2" if "\<exists>e. r1 = Inl e \<and> io_kind e = NotFound"
    using that "2.IH" [OF refl mk [symmetric] _ _ cr] by auto
  ultimately show ?case
    using one three only_dirs_trans by blast
qed (auto split: if_splits)

lemma sys_chmod_only_dirs:
  assumes "map_of (names (disk m)) p = None"
  shows "only_dirs m (fst (sys_chmod env m p md))"
proof -
  let ?s = "(disk m)\<lparr>dirs := AList.update p md (dirs (disk m))\<rparr>"
  have "same_files (disk m) ?s" by (simp add: same_files_def)
  moreover have "dirs_tracked (disk m) ?s" if "p \<noteq> rel []" "map_of (dirs (disk m)) p \<noteq> None \<or> p = abs_path []"
    using that by (auto simp: dirs_tracked_def dir_exists_def split: if_splits)
  ultimately have "only_dirs m (step_to ?s m)" if "p \<noteq> rel []" "map_of (dirs (disk m)) p \<noteq> None \<or> p = abs_path []"
    using that by (simp add: only_dirs_def grows_step)
  then show ?thesis
    using assms by (auto simp: sys_chmod_def split: option.split)
qed

lemma sys_chmod_new_dirs [simp]: "new_dirs (disk (fst (sys_chmod env m p md))) = new_dirs (disk m)"
  by (auto simp: sys_chmod_def split: option.split)

text \<open>A directory that \<open>create_dir_all\<close> made is there, and new.\<close>

lemma sys_mkdir_dir: "sys_mkdir env m p = (m', Inr ()) \<Longrightarrow> p \<noteq> rel [] \<Longrightarrow> dir_exists (disk m') p"
  by (auto simp: sys_mkdir_def dir_exists_def split: option.splits if_splits)

lemma create_dir_rev_dir:
  assumes "create_dir_rev env ab m (c # cs) = (m', Inr ())"
  shows "dir_exists (disk m') \<lparr>absolute = ab, comps = rev (c # cs)\<rparr>"
proof -
  let ?p = "\<lparr>absolute = ab, comps = rev (c # cs)\<rparr>"
  have "?p \<noteq> rel []" by simp
  note made = sys_mkdir_dir [OF _ this]
  show ?thesis
    using assms made by (auto simp: Let_def simp del: rev.simps split: prod.splits sum.splits if_splits)
qed

lemma create_dir_all_dir:
  assumes "create_dir_all env m p = (m', Inr ())" "p \<noteq> rel []"
  shows "dir_exists (disk m') p"
proof (cases "rev (comps p)")
  case Nil
  then show ?thesis
    using assms by (cases p) (auto simp: create_dir_all_def split: if_splits)
next
  case (Cons c cs)
  then have "create_dir_rev env (absolute p) m (c # cs) = (m', Inr ())"
    using assms(1) unfolding create_dir_all_def by metis
  moreover have "rev (c # cs) = comps p" using Cons by (metis rev_rev_ident)
  then have "\<lparr>absolute = absolute p, comps = rev (c # cs)\<rparr> = p" unfolding \<open>rev (c # cs) = comps p\<close> by (cases p) simp
  ultimately show ?thesis using create_dir_rev_dir by metis
qed

lemma create_dir_all_new:
  assumes "create_dir_all env m p = (m', Inr ())" "p \<noteq> rel []" "\<not> dir_exists (disk m) p"
  shows "p \<in> set (new_dirs (disk m'))"
proof -
  have "only_dirs m m'"
    using assms(1) create_dir_rev_only_dirs unfolding create_dir_all_def by blast
  then show ?thesis
    using create_dir_all_dir [OF assms(1,2)] assms(3) by (auto simp: only_dirs_def dirs_tracked_def)
qed

section \<open>A sample machine\<close>

definition healthy_env :: os_env where
  "healthy_env = \<lparr>fault = (\<lambda>_. None), short_write = 0, process_id = 7, umask = 0x12\<rparr>"

definition sample_machine :: machine where
  "sample_machine =
     \<lparr>disk = \<lparr>inodes = [(0, \<lparr>data = [1, 1], mode = 0x180, synced = True\<rparr>)],
        names = [(abs_path [''v'', ''f''], 0)], pending = [],
        dirs = [(abs_path [''v''], 0x1C0)], new_dirs = [], next_inode = 1\<rparr>,
      history = []\<rparr>"

lemma sample_machine_ok: "fs_ok (disk sample_machine)" "settled (disk sample_machine) (abs_path [''v'', ''f''])"
  by (simp_all add: sample_machine_def fs_ok_def settled_def binding_settled_def dir_may_vanish_def)

lemma healthy_env_healthy [simp]: "healthy healthy_env"
  by (simp add: healthy_env_def)

end
