(* ===== verification/VaultIo.thy ===== *)
theory VaultIo
  imports Fs
begin

text \<open>
  \<open>crates/invisibool-engine/src/vault/io.rs\<close>: the \<open>VaultIo\<close> trait as a record of its methods, and
  \<open>StdVaultIo\<close>, the write-temp, fsync, rename, fsync-parent sequence, over the file system of
  \<open>Fs\<close>. The locale \<open>vault_io\<close> is what the vault and the session file rely on; \<open>StdVaultIo\<close> meets it
  for every environment whose open failures are honest.
\<close>

section \<open>The trait\<close>

datatype AtomicWriteError =
    AtTmpCreate io_error
  | AtBodyWrite io_error
  | AtBodyFsync io_error
  | AtRename io_error
  | AtParentFsync io_error

record 'w VaultIo =
  vi_write_atomic :: "'w \<Rightarrow> path \<Rightarrow> u8 list \<Rightarrow> u32 \<Rightarrow> 'w \<times> (AtomicWriteError + unit)"
  vi_read_if_exists :: "'w \<Rightarrow> path \<Rightarrow> io_error + u8 list option"
  vi_list_orphan_tmps :: "'w \<Rightarrow> path \<Rightarrow> io_error + path list"
  vi_remove_quiet :: "'w \<Rightarrow> path \<Rightarrow> 'w"

section \<open>The production implementation\<close>

definition dir_of :: "path \<Rightarrow> path" where
  "dir_of p = (case parent_of p of Some d \<Rightarrow> d | None \<Rightarrow> rel [''.''])"

definition tmp_path :: "os_env \<Rightarrow> path \<Rightarrow> path" where
  "tmp_path env vault_path =
     (let name = (case file_name vault_path of Some s \<Rightarrow> to_string_lossy s | None \<Rightarrow> ''vault'')
      in path_join (dir_of vault_path) (rel [name @ ''.tmp.'' @ show_nat (process_id env)]))"

definition open_tmp :: "os_env \<Rightarrow> machine \<Rightarrow> path \<Rightarrow> u32 \<Rightarrow> machine \<times> (io_error + nat)" where
  "open_tmp env m p md = sys_create_new env m p md"

definition ensure_parent :: "os_env \<Rightarrow> machine \<Rightarrow> path \<Rightarrow> machine \<times> (AtomicWriteError + unit)" where
  "ensure_parent env m parent =
     (if path_exists (disk m) parent then (m, Inr ())
      else
        (case create_dir_all env m parent of
           (m', Inl e) \<Rightarrow> (m', Inl (AtTmpCreate e))
         | (m', Inr _) \<Rightarrow> (fst (sys_chmod env m' parent 0x1C0), Inr ())))"

definition fsync_parent :: "os_env \<Rightarrow> machine \<Rightarrow> path \<Rightarrow> machine \<times> (AtomicWriteError + unit)" where
  "fsync_parent env m parent =
     (case sys_open env m parent of
        Inl e \<Rightarrow> (m, Inl (AtParentFsync e))
      | Inr _ \<Rightarrow>
          (case sys_fsync_dir env m parent of
             (m', Inl e) \<Rightarrow> (m', Inl (AtParentFsync e))
           | (m', Inr _) \<Rightarrow> (m', Inr ())))"

text \<open>Steps 1 to 3: create the temporary file, write the body, fsync it.\<close>

definition write_tmp ::
  "os_env \<Rightarrow> machine \<Rightarrow> path \<Rightarrow> u8 list \<Rightarrow> u32 \<Rightarrow> machine \<times> (AtomicWriteError + unit)" where
  "write_tmp env m tmp bytes md =
     (case open_tmp env m tmp md of
        (m1, Inl e) \<Rightarrow> (m1, Inl (AtTmpCreate e))
      | (m1, Inr tmp_file) \<Rightarrow>
      (case sys_write_all env m1 tmp tmp_file bytes of
        (m2, Inl e) \<Rightarrow> (m2, Inl (AtBodyWrite e))
      | (m2, Inr _) \<Rightarrow>
      (case sys_fsync env m2 tmp tmp_file of
        (m3, Inl e) \<Rightarrow> (m3, Inl (AtBodyFsync e))
      | (m3, Inr _) \<Rightarrow> (m3, Inr ()))))"

definition std_write_atomic ::
  "os_env \<Rightarrow> machine \<Rightarrow> path \<Rightarrow> u8 list \<Rightarrow> u32 \<Rightarrow> machine \<times> (AtomicWriteError + unit)" where
  "std_write_atomic env m path bytes md =
     (let tmp = tmp_path env path; parent = dir_of path in
      case ensure_parent env m parent of
        (m0, Inl e) \<Rightarrow> (m0, Inl e)
      | (m0, Inr _) \<Rightarrow>
      (case write_tmp env m0 tmp bytes md of
        (m3, Inl e) \<Rightarrow> (m3, Inl e)
      | (m3, Inr _) \<Rightarrow>
      (case sys_rename env m3 tmp path of
        (m4, Inl e) \<Rightarrow> (m4, Inl (AtRename e))
      | (m4, Inr _) \<Rightarrow> fsync_parent env m4 parent)))"

definition std_read_if_exists :: "os_env \<Rightarrow> machine \<Rightarrow> path \<Rightarrow> io_error + u8 list option" where
  "std_read_if_exists env m p =
     (case sys_open env m p of
        Inr _ \<Rightarrow> bind_result (sys_read env m p) (\<lambda>buf. Inr (Some buf))
      | Inl e \<Rightarrow> if io_kind e = NotFound then Inr None else Inl e)"

definition std_list_orphan_tmps :: "os_env \<Rightarrow> machine \<Rightarrow> path \<Rightarrow> io_error + path list" where
  "std_list_orphan_tmps env m vault_path =
     (let parent = dir_of vault_path in
      case file_name vault_path of
        None \<Rightarrow> Inr []
      | Some s \<Rightarrow>
          (let prefix = to_string_lossy s @ ''.tmp.'' in
           case sys_read_dir env m parent of
             Inl e \<Rightarrow> if io_kind e = NotFound then Inr [] else Inl e
           | Inr entries \<Rightarrow>
               Inr (filter (\<lambda>entry. starts_with (to_string_lossy (last (comps entry))) prefix) entries)))"

definition std_remove_quiet :: "os_env \<Rightarrow> machine \<Rightarrow> path \<Rightarrow> machine" where
  "std_remove_quiet env m p = fst (sys_remove_file env m p)"

definition StdVaultIo :: "os_env \<Rightarrow> machine VaultIo" where
  "StdVaultIo env =
     \<lparr>vi_write_atomic = std_write_atomic env,
      vi_read_if_exists = std_read_if_exists env,
      vi_list_orphan_tmps = std_list_orphan_tmps env,
      vi_remove_quiet = std_remove_quiet env\<rparr>"

section \<open>The temporary name\<close>

lemma lossy_length: "length s \<le> length (to_string_lossy s)"
proof (induction s rule: to_string_lossy.induct)
  case (2 b bs)
  show ?case
  proof (cases "next_chunk b bs")
    case (Inl n)
    have "n \<le> 3"
      using Inl by (auto simp: next_chunk_def Let_def utf8_char_width_def split: if_splits)
    then show ?thesis
      using "2.IH"(1) [OF Inl] Inl by (simp add: replacement_char_def)
  next
    case (Inr n)
    then show ?thesis
      using "2.IH"(2) [OF Inr] by simp
  qed
qed simp

lemma tmp_path_shape:
  "tmp_path env p = (dir_of p)\<lparr>comps := comps (dir_of p) @
     [(case file_name p of Some s \<Rightarrow> to_string_lossy s | None \<Rightarrow> ''vault'') @ ''.tmp.'' @ show_nat (process_id env)]\<rparr>"
  by (cases "file_name p") (auto simp: tmp_path_def path_join_def Let_def)

lemma tmp_path_comps:
  "comps (tmp_path env p) = comps (dir_of p) @
     [(case file_name p of Some s \<Rightarrow> to_string_lossy s | None \<Rightarrow> ''vault'') @ ''.tmp.'' @ show_nat (process_id env)]"
  by (simp add: tmp_path_shape)

text \<open>A name is shorter than the temporary names made from it.\<close>

lemma tmp_name_neq: "to_string_lossy s @ ''.tmp.'' @ t \<noteq> s"
proof
  assume "to_string_lossy s @ ''.tmp.'' @ t = s"
  then have "length (to_string_lossy s @ ''.tmp.'' @ t) = length s"
    by (rule arg_cong)
  then show False
    using lossy_length [of s] by simp
qed

lemma tmp_path_neq: "tmp_path env p \<noteq> p"
proof
  assume "tmp_path env p = p"
  then have c: "comps p = comps (dir_of p) @
     [(case file_name p of Some s \<Rightarrow> to_string_lossy s | None \<Rightarrow> ''vault'') @ ''.tmp.'' @ show_nat (process_id env)]"
    using tmp_path_comps [of env p] by simp
  have l: "last (comps p) = (case file_name p of Some s \<Rightarrow> to_string_lossy s | None \<Rightarrow> ''vault'')
      @ ''.tmp.'' @ show_nat (process_id env)"
    by (subst c) simp
  have "comps p \<noteq> []"
    by (subst c) simp
  then show False
    using l tmp_name_neq [of "last (comps p)" "show_nat (process_id env)"]
    by (cases "file_name p") (auto simp: file_name_def split: if_splits)
qed

section \<open>What the steps do\<close>

lemma ensure_parent_only_dirs:
  assumes "ensure_parent env m parent = (m', r)"
  shows "only_dirs m m'"
proof (cases "path_exists (disk m) parent")
  case False
  obtain m1 r1 where cr: "create_dir_all env m parent = (m1, r1)"
    by (cases "create_dir_all env m parent")
  have one: "only_dirs m m1"
    using cr create_dir_rev_only_dirs unfolding create_dir_all_def by blast
  have "map_of (names (disk m1)) parent = None"
    using False one by (simp add: path_exists_def only_dirs_def same_files_def)
  then have "only_dirs m1 (fst (sys_chmod env m1 parent 0x1C0))"
    by (rule sys_chmod_only_dirs)
  then show ?thesis
    using assms False cr one only_dirs_trans by (auto simp: ensure_parent_def split: sum.splits)
qed (use assms in \<open>simp add: ensure_parent_def\<close>)

text \<open>While the temporary file is written, every other name is as it was.\<close>

definition tmp_inv :: "fs \<Rightarrow> path \<Rightarrow> nat \<Rightarrow> (inode \<Rightarrow> bool) \<Rightarrow> fs \<Rightarrow> bool" where
  "tmp_inv s0 tmp i P s \<longleftrightarrow>
     (\<forall>q. q \<noteq> tmp \<longrightarrow> agrees s0 q s) \<and> fs_ok s \<and> map_of (names s) tmp = Some i \<and> next_inode s0 \<le> i
     \<and> (\<exists>n. map_of (inodes s) i = Some n \<and> P n)"

abbreviation others_agree :: "fs \<Rightarrow> path \<Rightarrow> fs \<Rightarrow> bool" where
  "others_agree s0 tmp s \<equiv> (\<forall>q. q \<noteq> tmp \<longrightarrow> agrees s0 q s)"

lemma tmp_inv_update:
  "tmp_inv s0 tmp i P s \<Longrightarrow> (\<And>n. P n \<Longrightarrow> Q (f n)) \<Longrightarrow> tmp_inv s0 tmp i Q (update_inode i f s)"
  by (auto simp: tmp_inv_def map_of_update_inode intro: agrees_update_inode fs_ok_update_inode)

lemma open_tmp_spec:
  assumes "fs_ok (disk m)" "open_tmp env m tmp md = (m', r)"
  shows "(\<exists>e. r = Inl e) \<and> m' = m
    \<or> (\<exists>i s. r = Inr i \<and> m' = step_to s m \<and> tmp_inv (disk m) tmp i (\<lambda>n. data n = []) s)"
proof (cases r)
  case (Inl e)
  then show ?thesis
    using assms(2) by (auto simp: open_tmp_def sys_create_new_def Let_def split: option.splits if_splits)
next
  case (Inr i)
  let ?s = "disk m"
  define n where "n = \<lparr>data = [], mode = and md (not (umask env)), synced = False\<rparr>"
  define s1 where "s1 = ?s\<lparr>inodes := (next_inode ?s, n) # inodes ?s, next_inode := Suc (next_inode ?s)\<rparr>"
  have i: "i = next_inode ?s" and m': "m' = step_to (bind_name tmp (Some i) s1) m"
    using assms(2) Inr unfolding s1_def n_def
    by (auto simp: open_tmp_def sys_create_new_def Let_def split: option.splits if_splits)
  have s1: "fs_ok s1" "agrees ?s q s1" "map_of (inodes s1) i = Some n" for q
    unfolding s1_def using fs_ok_new_inode [OF assms(1)] agrees_new_inode [OF agrees_refl] i by auto
  have "tmp_inv ?s tmp i (\<lambda>n. data n = []) (bind_name tmp (Some i) s1)"
    using s1 i by (auto simp: tmp_inv_def map_of_bind_name n_def intro!: agrees_bind_name fs_ok_bind_name)
  then show ?thesis
    using Inr m' by blast
qed

lemma write_tmp_spec:
  assumes ok: "fs_ok (disk m)" and wr: "write_tmp env m tmp bytes md = (m', r)"
  shows "grows (others_agree (disk m) tmp) m m' \<and> others_agree (disk m) tmp (disk m') \<and> fs_ok (disk m')
    \<and> (\<forall>x. r \<noteq> Inl (AtParentFsync x))
    \<and> (r = Inr () \<longrightarrow> (\<exists>i. tmp_inv (disk m) tmp i (\<lambda>n. data n = bytes \<and> synced n) (disk m')))"
proof -
  obtain m1 r1 where op: "open_tmp env m tmp md = (m1, r1)"
    by (cases "open_tmp env m tmp md")
  show ?thesis
  proof (cases r1)
    case (Inl e)
    then show ?thesis
      using open_tmp_spec [OF ok op] wr op ok by (auto simp: write_tmp_def)
  next
    case (Inr i)
    then obtain s1 where m1: "m1 = step_to s1 m" and s1: "tmp_inv (disk m) tmp i (\<lambda>n. data n = []) s1"
      using open_tmp_spec [OF ok op] by auto
    define wd :: "u8 list \<Rightarrow> inode \<Rightarrow> inode" where "wd = (\<lambda>bs n. n\<lparr>data := data n @ bs, synced := False\<rparr>)"
    define s2 where "s2 bs = update_inode i (wd bs) s1" for bs
    define s3 where "s3 = update_inode i (\<lambda>n. n\<lparr>synced := True\<rparr>) (s2 bytes)"
    have s2: "tmp_inv (disk m) tmp i (\<lambda>n. data n = bs) (s2 bs)" for bs
      unfolding s2_def by (rule tmp_inv_update [OF s1]) (simp add: wd_def)
    have s3: "tmp_inv (disk m) tmp i (\<lambda>n. data n = bytes \<and> synced n) s3"
      unfolding s3_def by (rule tmp_inv_update [OF s2]) simp
    have cases: "m' = step_to (s2 (take (short_write env) bytes)) m1 \<and> (\<exists>e. r = Inl (AtBodyWrite e))
        \<or> m' = step_to (s2 bytes) m1 \<and> (\<exists>e. r = Inl (AtBodyFsync e))
        \<or> m' = step_to s3 (step_to (s2 bytes) m1) \<and> r = Inr ()"
      using wr op Inr unfolding m1 s2_def s3_def wd_def
      by (auto simp: write_tmp_def sys_write_all_def sys_fsync_def split: option.splits)
    have agree: "others_agree (disk m) tmp s1" "others_agree (disk m) tmp (s2 bs)"
      "others_agree (disk m) tmp s3" "fs_ok (s2 bs)" "fs_ok s3" for bs
      using s1 s2 [of bs] s3 by (auto simp: tmp_inv_def)
    have g: "grows (others_agree (disk m) tmp) m (step_to (s2 bs) m1)"
      "grows (others_agree (disk m) tmp) m (step_to s3 (step_to (s2 bs) m1))" for bs
      using agree unfolding m1 by (simp_all add: grows_def step_to_def)
    show ?thesis
      using cases agree g s3 by auto
  qed
qed

text \<open>The rename: the new contents are in place, the old binding may still come back.\<close>

definition renamed :: "path \<Rightarrow> path \<Rightarrow> nat \<Rightarrow> fs \<Rightarrow> fs" where
  "renamed tmp p i s = bind_name p (Some i) (bind_name tmp None s)"

lemma sys_rename_spec:
  assumes "sys_rename env m tmp p = (m', r)" "map_of (names (disk m)) tmp = Some i"
  shows "(\<exists>e. r = Inl e) \<and> m' = m \<or> r = Inr () \<and> m' = step_to (renamed tmp p i (disk m)) m
    \<and> comps p \<noteq> []"
  using assms by (auto simp: sys_rename_def renamed_def parent_usable_def split: option.splits if_splits)

lemma renamed_content:
  assumes inv: "tmp_inv s0 tmp i (\<lambda>n. data n = bytes \<and> synced n) s"
  shows "content_at (renamed tmp p i s) p = Some bytes"
  using inv by (auto simp: renamed_def content_at_def file_at_def map_of_bind_name tmp_inv_def)

lemma renamed_ok:
  assumes inv: "tmp_inv s0 tmp i (\<lambda>n. data n = bytes \<and> synced n) s"
  shows "fs_ok (renamed tmp p i s)"
  using inv unfolding renamed_def tmp_inv_def
  by (intro fs_ok_bind_name) auto

lemma renamed_agrees:
  assumes inv: "tmp_inv s0 tmp i (\<lambda>n. data n = bytes \<and> synced n) s"
  shows "q \<noteq> p \<Longrightarrow> q \<noteq> tmp \<Longrightarrow> agrees s0 q (renamed tmp p i s)"
  using inv unfolding renamed_def tmp_inv_def by (intro agrees_bind_name) auto

lemma renamed_view_new:
  assumes inv: "tmp_inv s0 tmp i (\<lambda>n. data n = bytes \<and> synced n) s"
  shows "binding_view (renamed tmp p i s) (Some i) c \<Longrightarrow> c = Some bytes"
  using inv by (auto simp: renamed_def binding_view_def tmp_inv_def)

lemma renamed_binding_loss:
  assumes ok: "fs_ok s0" and neq: "tmp \<noteq> p" and inv: "tmp_inv s0 tmp i (\<lambda>n. data n = bytes \<and> synced n) s"
    and settled: "binding_settled s0 p" and loss: "binding_after_loss (renamed tmp p i s) p c"
  shows "c = content_at s0 p \<or> c = Some bytes"
proof -
  have ag: "agrees s0 p s"
    using inv neq by (auto simp: tmp_inv_def)
  have none: "(p, b) \<notin> set (pending s0)" for b
    using settled by (force simp: binding_settled_def)
  obtain b where b: "b = Some i \<or> b = map_of (names s0) p" and view: "binding_view (renamed tmp p i s) b c"
    using loss none neq ag
    by (auto simp: binding_after_loss_def map_of_bind_name renamed_def agrees_def)
  show ?thesis
  proof (cases "b = Some i")
    case True
    then show ?thesis
      using view renamed_view_new [OF inv] by blast
  next
    case False
    with b have b: "b = map_of (names s0) p"
      by blast
    have "Option.bind b (map_of (inodes s)) = Option.bind b (map_of (inodes s0))"
      using agrees_view [OF ok ag] b by blast
    then have "binding_view s0 b c"
      using view by (simp add: binding_view_def renamed_def)
    then have "binding_after_loss s0 p c"
      using b by (auto simp: binding_after_loss_def)
    then show ?thesis
      using binding_settled_loss [OF settled] by blast
  qed
qed

text \<open>Once the directory is synced nothing can come back.\<close>

lemma synced_dir_settled:
  assumes inv: "tmp_inv s0 tmp i (\<lambda>n. data n = bytes \<and> synced n) s" and "parent_of p = Some d"
  shows "binding_settled (dir_synced d (renamed tmp p i s)) p"
  using inv assms by (auto simp: binding_settled_def map_of_bind_name renamed_def tmp_inv_def)

lemma fsync_parent_spec:
  assumes "fsync_parent env m d = (m', r)"
  shows "(\<exists>x. r = Inl (AtParentFsync x)) \<and> m' = m
    \<or> r = Inr () \<and> m' = step_to (dir_synced d (disk m)) m \<and> path_exists (disk m) d"
  using assms by (auto simp: fsync_parent_def sys_fsync_dir_def sys_open_def split: sum.splits option.splits if_splits)

text \<open>
  The directories that may vanish: only \<open>ensure_parent\<close> makes any, and only when the parent is missing.
\<close>

lemma ensure_parent_new:
  assumes "ensure_parent env m d = (m', Inr ())"
  shows "path_exists (disk m) d \<Longrightarrow> m' = m"
    and "\<not> path_exists (disk m) d \<Longrightarrow> d \<noteq> rel [] \<Longrightarrow> d \<in> set (new_dirs (disk m'))"
proof -
  show "m' = m" if "path_exists (disk m) d"
    using assms that by (simp add: ensure_parent_def)
  assume missing: "\<not> path_exists (disk m) d" "d \<noteq> rel []"
  obtain m1 where cr: "create_dir_all env m d = (m1, Inr ())" and m': "m' = fst (sys_chmod env m1 d 0x1C0)"
    using assms missing(1) by (auto simp: ensure_parent_def split: prod.splits sum.splits)
  have "d \<in> set (new_dirs (disk m1))"
    using create_dir_all_new [OF cr missing(2)] missing(1) by (simp add: path_exists_def)
  then show "d \<in> set (new_dirs (disk m'))"
    by (simp add: m')
qed

definition same_dirs :: "fs \<Rightarrow> fs \<Rightarrow> bool" where
  "same_dirs s s' \<longleftrightarrow> new_dirs s' = new_dirs s"

lemma write_tmp_dirs:
  assumes "write_tmp env m tmp bytes md = (m', r)"
  shows "same_dirs (disk m) (disk m') \<and> grows (same_dirs (disk m)) m m'"
  using assms
  by (auto simp: write_tmp_def open_tmp_def sys_create_new_def sys_write_all_def sys_fsync_def Let_def
      same_dirs_def grows_def step_to_def split: prod.splits sum.splits option.splits if_splits)

text \<open>Either the write stops before the rename, or it gets to the rename with a synced file.\<close>

lemma write_atomic_cases:
  assumes ok: "fs_ok (disk m)" and wr: "std_write_atomic env m path bytes md = (m', r)"
  obtains
    (early) e where "r = Inl e" "\<And>x. e \<noteq> AtParentFsync x" "fs_ok (disk m')"
      "grows (others_agree (disk m) (tmp_path env path)) m m'"
      "others_agree (disk m) (tmp_path env path) (disk m')"
      "path_exists (disk m) (dir_of path) \<Longrightarrow> grows (same_dirs (disk m)) m m' \<and> same_dirs (disk m) (disk m')"
  | (late) m3 i where "grows (others_agree (disk m) (tmp_path env path)) m m3"
      "tmp_inv (disk m) (tmp_path env path) i (\<lambda>n. data n = bytes \<and> synced n) (disk m3)" "comps path \<noteq> []"
      "fsync_parent env (step_to (renamed (tmp_path env path) path i (disk m3)) m3) (dir_of path) = (m', r)"
      "path_exists (disk m) (dir_of path) \<Longrightarrow> grows (same_dirs (disk m)) m m3 \<and> same_dirs (disk m) (disk m3)"
      "\<not> path_exists (disk m) (dir_of path) \<Longrightarrow> dir_of path \<noteq> rel [] \<Longrightarrow> dir_of path \<in> set (new_dirs (disk m3))"
proof -
  let ?tmp = "tmp_path env path"
  obtain m0 r0 where en: "ensure_parent env m (dir_of path) = (m0, r0)"
    by (cases "ensure_parent env m (dir_of path)")
  obtain m3 r3 where wt: "write_tmp env m0 ?tmp bytes md = (m3, r3)"
    by (cases "write_tmp env m0 ?tmp bytes md")
  obtain m4 r4 where rn: "sys_rename env m3 ?tmp path = (m4, r4)"
    by (cases "sys_rename env m3 ?tmp path")
  have dirs: "only_dirs m m0"
    by (rule ensure_parent_only_dirs [OF en])
  have same: "same_files (disk m) (disk m0)"
    using dirs by (simp add: only_dirs_def)
  have g0: "grows (others_agree (disk m) ?tmp) m m0"
    using dirs by (auto simp: only_dirs_def intro: grows_mono same_files_agrees)
  have agr: "agrees (disk m0) q s \<longleftrightarrow> agrees (disk m) q s" for q s
    using same by (simp add: agrees_def same_files_def)
  note ok0 = same_files_ok [OF same ok]
  note spec = write_tmp_spec [OF ok0 wt, unfolded agr]
  have g3: "grows (others_agree (disk m) ?tmp) m m3"
    using g0 spec by (blast intro: grows_trans)
  have inv: "tmp_inv (disk m0) ?tmp i P s \<longleftrightarrow> tmp_inv (disk m) ?tmp i P s" for i P s
    using same by (simp add: tmp_inv_def agr same_files_def)
  have exists: "m0 = m" if "path_exists (disk m) (dir_of path)"
    using en that by (simp add: ensure_parent_def)
  have d3: "grows (same_dirs (disk m)) m m3 \<and> same_dirs (disk m) (disk m3)" if "path_exists (disk m) (dir_of path)"
    using write_tmp_dirs [OF wt] exists [OF that] by simp
  have n3: "dir_of path \<in> set (new_dirs (disk m3))"
    if "\<not> path_exists (disk m) (dir_of path)" "dir_of path \<noteq> rel []" "r0 = Inr ()"
    using write_tmp_dirs [OF wt] ensure_parent_new(2) [OF en [unfolded that(3)] that(1,2)] by (simp add: same_dirs_def)
  show thesis
  proof (cases r0)
    case (Inl e)
    have "r = Inl e" "m' = m0"
      using wr en Inl by (simp_all add: std_write_atomic_def)
    moreover have "\<And>x. e \<noteq> AtParentFsync x"
      using en Inl by (auto simp: ensure_parent_def split: if_splits sum.splits prod.splits)
    ultimately show thesis
      using early [of e] ok0 g0 same_files_agrees [OF same] exists by (auto simp: same_dirs_def)
  next
    case r0: (Inr u)
    show thesis
    proof (cases r3)
      case (Inl e)
      have "r = Inl e" "m' = m3"
        using wr en wt r0 Inl by (simp_all add: std_write_atomic_def)
      then show thesis
        using early [of e] spec g3 d3 Inl by blast
    next
      case r3: (Inr v)
      then obtain i where ti: "tmp_inv (disk m) ?tmp i (\<lambda>n. data n = bytes \<and> synced n) (disk m3)"
        using spec inv by auto
      then have nm: "map_of (names (disk m3)) ?tmp = Some i"
        by (simp add: tmp_inv_def)
      show thesis
      proof (cases r4)
        case (Inl e)
        then have "r = Inl (AtRename e)" "m' = m3"
          using wr en wt rn r0 r3 sys_rename_spec [OF rn nm] by (simp_all add: std_write_atomic_def)
        then show thesis
          using early [of "AtRename e"] spec g3 d3 by blast
      next
        case (Inr w)
        then have "m4 = step_to (renamed ?tmp path i (disk m3)) m3" "comps path \<noteq> []"
          using sys_rename_spec [OF rn nm] by auto
        moreover have "fsync_parent env m4 (dir_of path) = (m', r)"
          using wr en wt rn r0 r3 Inr by (simp add: std_write_atomic_def)
        ultimately show thesis
          using late [of m3 i] g3 ti d3 n3 r0 by auto
      qed
    qed
  qed
qed

text \<open>What a power loss may leave of the target, at one state of the run.\<close>

lemma loss_before_rename:
  assumes "fs_ok s0" "settled s0 p" "agrees s0 p s" "after_power_loss s p c"
  shows "c = content_at s0 p \<or> c = None \<and> dir_may_vanish s p"
  using assms agrees_binding_loss [OF assms(1,3)] binding_settled_loss
  by (auto simp: after_power_loss_def settled_def)

lemma vanish_mono: "set (new_dirs s') \<subseteq> set (new_dirs s) \<Longrightarrow> dir_may_vanish s' p \<Longrightarrow> dir_may_vanish s p"
  by (auto simp: dir_may_vanish_def list_ex_iff)

lemma parent_below: "comps p \<noteq> [] \<Longrightarrow> below (dir_of p) p"
  by (simp add: below_def dir_of_def parent_of_def butlast_conv_take)

lemma parent_of_neq: "parent_of d \<noteq> Some d"
proof
  assume "parent_of d = Some d"
  then have "comps d \<noteq> []" "d\<lparr>comps := butlast (comps d)\<rparr> = d"
    by (auto simp: parent_of_def split: if_splits)
  then have "comps d \<noteq> []" "butlast (comps d) = comps d" by (metis path.select_convs(2) path.surjective path.update_convs(2))+
  then show False by (metis append_butlast_last_id append_self_conv list.distinct(1))
qed

text \<open>
  (C19) \<^bold>\<open>Atomic replacement.\<close> Starting from a file that is safely on the disk (or absent), cut the
  power after any system call of \<open>write_atomic\<close>, whatever calls fail: the target then holds either
  its complete old contents or the complete new bytes, or it is absent when the parent directory was
  missing at the start. On success the new bytes are durable if the parent directory was there at the
  start; if \<open>write_atomic\<close> made it, they are not: the directory above is not synced, so a power loss can
  still take the new directory and the file with it. An error of a step before the rename leaves the
  target untouched, and an error of the final directory sync means that the file has already been
  replaced. No other file changes, except the temporary one.
\<close>

theorem write_atomic_crash_safe:
  assumes ok: "fs_ok (disk m)" and st: "settled (disk m) path"
    and wr: "std_write_atomic env m path bytes md = (m', r)"
  shows "(\<exists>ss. history m' = history m @ ss \<and> (\<forall>s \<in> set ss. \<forall>c. after_power_loss s path c \<longrightarrow>
            c = content_at (disk m) path \<or> c = Some bytes
            \<or> c = None \<and> \<not> path_exists (disk m) (dir_of path)))
    \<and> (r = Inr () \<longrightarrow> (\<forall>c. after_power_loss (disk m') path c
          \<longleftrightarrow> c = Some bytes \<or> c = None \<and> \<not> path_exists (disk m) (dir_of path)))
    \<and> (\<forall>e. r = Inl e \<longrightarrow>
         (if \<exists>x. e = AtParentFsync x then content_at (disk m') path = Some bytes
          else content_at (disk m') path = content_at (disk m) path
            \<and> (path_exists (disk m) (dir_of path) \<longrightarrow> settled (disk m') path)))
    \<and> (\<forall>q. q \<noteq> path \<longrightarrow> q \<noteq> tmp_path env path \<longrightarrow> content_at (disk m') q = content_at (disk m) q)
    \<and> fs_ok (disk m')"
proof -
  let ?there = "path_exists (disk m) (dir_of path)"
  let ?safe = "\<lambda>s. \<forall>c. after_power_loss s path c \<longrightarrow>
      c = content_at (disk m) path \<or> c = Some bytes \<or> c = None \<and> \<not> ?there"
  have fixed: "\<not> dir_may_vanish s path" if "same_dirs (disk m) s" for s
    using st that by (simp add: settled_def same_dirs_def dir_may_vanish_def)
  have safe: "?safe s" if "others_agree (disk m) (tmp_path env path) s" "?there \<longrightarrow> same_dirs (disk m) s" for s
    using loss_before_rename [OF ok st _] that tmp_path_neq [of env path] fixed by metis
  have both: "grows ?safe m m1" if "grows (others_agree (disk m) (tmp_path env path)) m m1"
      "?there \<Longrightarrow> grows (same_dirs (disk m)) m m1 \<and> same_dirs (disk m) (disk m1)" for m1
    using that safe unfolding grows_def by (cases ?there) (force, blast)
  show ?thesis
    using ok wr
  proof (cases rule: write_atomic_cases)
    case (early e)
    have ag: "agrees (disk m) path (disk m')"
      using early(5) tmp_path_neq [of env path] by metis
    have "?there \<longrightarrow> settled (disk m') path" "content_at (disk m') path = content_at (disk m) path"
      using agrees_binding_settled [OF ok ag] agrees_content [OF ok ag] st early(6) fixed by (auto simp: settled_def)
    moreover have "content_at (disk m') q = content_at (disk m) q" if "q \<noteq> tmp_path env path" for q
      using agrees_content [OF ok early(5) [rule_format, OF that]] .
    moreover have "grows ?safe m m'" by (rule both [OF early(4,6)])
    ultimately show ?thesis
      using early(1,2,3) unfolding grows_def by simp
  next
    case (late m3 i)
    let ?tmp = "tmp_path env path" and ?s4 = "renamed (tmp_path env path) path i (disk m3)"
    let ?s5 = "dir_synced (dir_of path) ?s4"
    have dirs4: "new_dirs ?s4 = new_dirs (disk m3)" by (simp add: renamed_def)
    have par: "parent_of path = Some (dir_of path)"
      using late(3) by (simp add: dir_of_def parent_of_def)
    have bs: "binding_settled (disk m) path" using st by (simp add: settled_def)
    have vanish4: "\<not> dir_may_vanish ?s4 path" if ?there
      using fixed [of ?s4] late(5) that dirs4 by (simp add: same_dirs_def)
    have safe4: "?safe ?s4"
      using renamed_binding_loss [OF ok tmp_path_neq late(2) bs] vanish4 by (auto simp: after_power_loss_def)
    have st5: "binding_settled ?s5 path"
      by (rule synced_dir_settled [OF late(2) par])
    have loss5: "after_power_loss ?s5 path c \<longleftrightarrow> c = Some bytes \<or> c = None \<and> dir_may_vanish ?s5 path" for c
      using binding_settled_loss [OF st5] renamed_content [OF late(2)] by (simp add: after_power_loss_def)
    have vanish5: "\<not> dir_may_vanish ?s5 path" if ?there
      using vanish4 [OF that] vanish_mono [of ?s5 ?s4] by auto
    have other: "content_at ?s4 q = content_at (disk m) q" if "q \<noteq> path" "q \<noteq> ?tmp" for q
      using agrees_content [OF ok] renamed_agrees [OF late(2)] that by blast
    have g4: "grows ?safe m (step_to ?s4 m3)"
      by (rule grows_trans [OF both [OF late(1,5)]], assumption, rule grows_step, rule safe4)
    have g5: "grows ?safe m (step_to ?s5 (step_to ?s4 m3))"
      by (rule grows_trans [OF g4], rule grows_step) (use loss5 vanish5 in auto)
    consider (err) x where "r = Inl (AtParentFsync x)" "m' = step_to ?s4 m3"
      | (finished) "r = Inr ()" "m' = step_to ?s5 (step_to ?s4 m3)" "path_exists ?s4 (dir_of path)"
      using fsync_parent_spec [OF late(4)] by auto
    then show ?thesis
    proof cases
      case err
      then show ?thesis
        using g4 other renamed_ok [OF late(2)] renamed_content [OF late(2)] unfolding grows_def by simp
    next
      case finished
      have "dir_may_vanish ?s5 path" if "\<not> ?there"
      proof -
        have "dir_of path \<noteq> rel []"
        proof
          assume e: "dir_of path = rel []"
          have "comps ?tmp \<noteq> []" by (simp add: tmp_path_comps)
          then have "rel [] \<noteq> path" "rel [] \<noteq> ?tmp" using late(3) by (metis path.select_convs(2))+
          then have "agrees (disk m) (rel []) ?s4" using renamed_agrees [OF late(2)] by metis
          then show False using finished(3) that unfolding e by (simp add: path_exists_def dir_exists_def agrees_def)
        qed
        then have "dir_of path \<in> set (new_dirs ?s5)" using late(6) [OF that] dirs4 by (simp add: parent_of_neq)
        then show ?thesis using parent_below [OF late(3)] by (auto simp: dir_may_vanish_def list_ex_iff)
      qed
      with finished show ?thesis
        using g5 other fs_ok_dir_synced [OF renamed_ok [OF late(2)]] loss5 vanish5
        unfolding grows_def by auto
    qed
  qed
qed

lemma sample_write:
  "snd (std_write_atomic healthy_env sample_machine (abs_path [''v'', ''f'']) [2] 0x180) = Inr ()"
  "snd (std_write_atomic healthy_env sample_machine (abs_path [''w'', ''f'']) [2] 0x180) = Inr ()"
  by code_simp+

theorem write_atomic_crash_safe_witness:
  "(\<forall>c. after_power_loss (disk (fst (std_write_atomic healthy_env sample_machine
      (abs_path [''v'', ''f'']) [2] 0x180))) (abs_path [''v'', ''f'']) c \<longleftrightarrow> c = Some [2])
   \<and> (\<forall>c. after_power_loss (disk (fst (std_write_atomic healthy_env sample_machine
      (abs_path [''w'', ''f'']) [2] 0x180))) (abs_path [''w'', ''f'']) c \<longleftrightarrow> c = Some [2] \<or> c = None)"
proof -
  have "path_exists (disk sample_machine) (dir_of (abs_path [''v'', ''f'']))"
    "\<not> path_exists (disk sample_machine) (dir_of (abs_path [''w'', ''f'']))"
    "settled (disk sample_machine) (abs_path [''w'', ''f''])"
    by (simp_all add: path_exists_def dir_exists_def dir_of_def parent_of_def sample_machine_def settled_def
        binding_settled_def dir_may_vanish_def)
  with write_atomic_crash_safe [where env = healthy_env and m = sample_machine
      and path = "abs_path [''v'', ''f'']" and bytes = "[2]" and md = "0x180",
      OF sample_machine_ok prod.collapse [symmetric]] sample_write(1)
    write_atomic_crash_safe [where env = healthy_env and m = sample_machine
      and path = "abs_path [''w'', ''f'']" and bytes = "[2]" and md = "0x180",
      OF sample_machine_ok(1) _ prod.collapse [symmetric]] sample_write(2)
  show ?thesis by simp
qed

text \<open>
  (C24) \<^bold>\<open>A bare file name is replaced and then reported as an error.\<close> The parent of a relative path
  with one component is the empty path, which cannot be opened: with every system call healthy,
  \<open>write_atomic\<close> puts the new bytes in place and still returns \<open>AtParentFsync\<close>, so the directory
  is never synced and the caller believes that the save failed.
\<close>

theorem write_atomic_bare_name:
  assumes env: "healthy env" and no_file: "\<not> dir_exists (disk m) (rel [f])"
    and no_tmp: "\<not> path_exists (disk m) (tmp_path env (rel [f]))"
    and empty: "map_of (names (disk m)) (rel []) = None" "map_of (dirs (disk m)) (rel []) = None"
  shows "snd (std_write_atomic env m (rel [f]) bytes md) = Inl (AtParentFsync (os_error NotFound))
    \<and> content_at (disk (fst (std_write_atomic env m (rel [f]) bytes md))) (rel [f]) = Some bytes"
proof -
  let ?tmp = "tmp_path env (rel [f])"
  have d: "dir_of (rel [f]) = rel []"
    by (simp add: dir_of_def parent_of_def)
  have t: "comps ?tmp \<noteq> []" "butlast (comps ?tmp) = []" "absolute ?tmp = False"
    by (simp_all add: tmp_path_shape d)
  then have tn: "?tmp\<lparr>comps := butlast (comps ?tmp)\<rparr> = rel []" "?tmp \<noteq> rel []"
    by (simp_all add: path.equality) (metis path.select_convs(2))
  have en: "ensure_parent env m (rel []) = (m, Inr ())"
    using env empty by (simp add: ensure_parent_def path_exists_def dir_exists_def create_dir_all_def sys_chmod_def)
  obtain i where op: "open_tmp env m ?tmp md = (step_to (bind_name ?tmp (Some (next_inode (disk m)))
      ((disk m)\<lparr>inodes := (next_inode (disk m), \<lparr>data = [], mode = and md (not (umask env)), synced = False\<rparr>)
         # inodes (disk m), next_inode := Suc (next_inode (disk m))\<rparr>)) m, Inr i)" "i = next_inode (disk m)"
    using env no_tmp t tn by (simp add: open_tmp_def sys_create_new_def parent_usable_def Let_def)
  show ?thesis
    unfolding std_write_atomic_def d Let_def
    using env no_file op(2) empty tmp_path_neq [of env "rel [f]"] tn
    by (simp add: en write_tmp_def op(1) sys_write_all_def sys_fsync_def sys_rename_def map_of_bind_name
        dir_exists_def parent_usable_def fsync_parent_def sys_open_def path_exists_def
        content_at_def file_at_def map_of_update_inode)
qed

theorem write_atomic_bare_name_witness:
  "snd (std_write_atomic healthy_env sample_machine (rel [''f'']) [2] 0x180) = Inl (AtParentFsync (os_error NotFound))
   \<and> content_at (disk (fst (std_write_atomic healthy_env sample_machine (rel [''f'']) [2] 0x180))) (rel [''f'']) = Some [2]"
proof (rule write_atomic_bare_name)
  show "\<not> path_exists (disk sample_machine) (tmp_path healthy_env (rel [''f'']))"
    by code_simp
qed (simp_all add: healthy_env_def sample_machine_def dir_exists_def)

section \<open>What the callers rely on\<close>

definition is_tmp_of :: "path \<Rightarrow> path \<Rightarrow> bool" where
  "is_tmp_of p q \<longleftrightarrow>
     (\<exists>s t. file_name p = Some s \<and> comps q \<noteq> [] \<and> last (comps q) = t
        \<and> starts_with (to_string_lossy t) (to_string_lossy s @ ''.tmp.''))"

lemma not_tmp_of_self: "\<not> is_tmp_of p p"
proof
  assume "is_tmp_of p p"
  then obtain s u where s: "file_name p = Some s" "last (comps p) = s"
      and "to_string_lossy s = to_string_lossy s @ ''.tmp.'' @ u"
    by (fastforce simp: is_tmp_of_def file_name_def starts_with_def strip_prefix_def split: if_splits
        dest: append_eq_conv_conj [THEN iffD1])
  then show False by simp
qed

text \<open>
  Contents as the abstract view of the state: a successful write is what is read next, a failed
  one leaves the old contents unless only the directory sync failed, and neither touches the
  other files (the temporary names of the target apart).
\<close>

locale vault_io =
  fixes io :: "'w VaultIo" and inv :: "'w \<Rightarrow> bool" and content :: "'w \<Rightarrow> path \<Rightarrow> u8 list option"
    and tmp :: "path \<Rightarrow> path"
  assumes write_inv: "inv w \<Longrightarrow> vi_write_atomic io w p b md = (w', r) \<Longrightarrow> inv w'"
    and write_ok: "inv w \<Longrightarrow> vi_write_atomic io w p b md = (w', Inr ()) \<Longrightarrow> content w' p = Some b"
    and write_failed: "inv w \<Longrightarrow> vi_write_atomic io w p b md = (w', Inl e) \<Longrightarrow>
      content w' p = content w p \<or> content w' p = Some b \<and> (\<exists>x. e = AtParentFsync x)"
    and write_frame: "inv w \<Longrightarrow> vi_write_atomic io w p b md = (w', r) \<Longrightarrow> q \<noteq> p \<Longrightarrow> q \<noteq> tmp p \<Longrightarrow>
      content w' q = content w q"
    and read_sound: "inv w \<Longrightarrow> vi_read_if_exists io w p = Inr c \<Longrightarrow> c = content w p"
    and remove_inv: "inv w \<Longrightarrow> inv (vi_remove_quiet io w q)"
    and remove_frame: "inv w \<Longrightarrow> q \<noteq> p \<Longrightarrow> content (vi_remove_quiet io w q) p = content w p"
    and orphans_tmp: "inv w \<Longrightarrow> vi_list_orphan_tmps io w p = Inr qs \<Longrightarrow> q \<in> set qs \<Longrightarrow> q \<noteq> p"
begin

text \<open>Clearing the orphans of a file leaves the file alone.\<close>

lemma clear_orphans:
  assumes "inv w" "vi_list_orphan_tmps io w p = Inr qs"
  shows "inv (fold (\<lambda>q w. vi_remove_quiet io w q) qs w)
    \<and> content (fold (\<lambda>q w. vi_remove_quiet io w q) qs w) p = content w p"
proof -
  have "\<forall>q \<in> set qs. q \<noteq> p"
    using orphans_tmp [OF assms] by blast
  then show ?thesis
    using assms(1)
    by (induction qs arbitrary: w) (simp_all add: remove_inv remove_frame)
qed

lemma clear_orphans_other:
  assumes "inv w" "q \<notin> set qs"
  shows "content (fold (\<lambda>q w. vi_remove_quiet io w q) qs w) q = content w q"
  using assms by (induction qs arbitrary: w) (auto simp: remove_inv remove_frame)

end

text \<open>
  An environment is honest when opening a file never reports \<open>NotFound\<close> for a file that is there.
\<close>

definition honest_opens :: "os_env \<Rightarrow> bool" where
  "honest_opens env \<longleftrightarrow> (\<forall>p e. fault env (CallOpen p) = Some e \<longrightarrow> io_kind e \<noteq> NotFound)"

lemma content_names: "fs_ok s \<Longrightarrow> content_at s p = None \<longleftrightarrow> map_of (names s) p = None"
  by (fastforce simp: content_at_def file_at_def fs_ok_def split: Option.bind_splits)

lemma std_read_sound:
  assumes "honest_opens env" "fs_ok (disk m)" "std_read_if_exists env m p = Inr c"
  shows "c = content_at (disk m) p"
proof (cases "sys_open env m p")
  case (Inl e)
  then have "c = None" "io_kind e = NotFound"
    using assms(3) by (auto simp: std_read_if_exists_def split: if_splits)
  then have "\<not> path_exists (disk m) p"
    using Inl assms(1) by (auto simp: sys_open_def honest_opens_def split: option.splits if_splits)
  then show ?thesis
    using \<open>c = None\<close> content_names [OF assms(2), of p] by (metis path_exists_def)
next
  case (Inr u)
  then show ?thesis
    using assms(3) by (auto simp: std_read_if_exists_def sys_read_def bind_result_def split: option.splits sum.splits)
qed

lemma std_remove_spec:
  assumes "fs_ok (disk m)"
  shows "fs_ok (disk (std_remove_quiet env m q))"
    and "q \<noteq> p \<Longrightarrow> content_at (disk (std_remove_quiet env m q)) p = content_at (disk m) p"
  using assms
  by (auto simp: std_remove_quiet_def sys_remove_file_def content_at_def file_at_def map_of_bind_name
      intro!: fs_ok_bind_name split: option.splits)

lemma std_orphans_tmp:
  "std_list_orphan_tmps env m p = Inr qs \<Longrightarrow> q \<in> set qs \<Longrightarrow> is_tmp_of p q"
  by (auto simp: std_list_orphan_tmps_def sys_read_dir_def is_tmp_of_def parent_of_def Let_def
      split: option.splits sum.splits if_splits)

lemma std_write_spec:
  assumes ok: "fs_ok (disk m)" and wr: "std_write_atomic env m p b md = (m', r)"
  shows "fs_ok (disk m')"
    and "r = Inr () \<Longrightarrow> content_at (disk m') p = Some b"
    and "r = Inl e \<Longrightarrow> content_at (disk m') p = content_at (disk m) p
      \<or> content_at (disk m') p = Some b \<and> (\<exists>x. e = AtParentFsync x)"
    and "q \<noteq> p \<Longrightarrow> q \<noteq> tmp_path env p \<Longrightarrow> content_at (disk m') q = content_at (disk m) q"
proof -
  have "fs_ok (disk m')
    \<and> (r = Inr () \<longrightarrow> content_at (disk m') p = Some b)
    \<and> (\<forall>e. r = Inl e \<longrightarrow> content_at (disk m') p = content_at (disk m) p
        \<or> content_at (disk m') p = Some b \<and> (\<exists>x. e = AtParentFsync x))
    \<and> (\<forall>q. q \<noteq> p \<longrightarrow> q \<noteq> tmp_path env p \<longrightarrow> content_at (disk m') q = content_at (disk m) q)"
    using ok wr
  proof (cases rule: write_atomic_cases)
    case (early e)
    then have "content_at (disk m') q = content_at (disk m) q" if "q \<noteq> tmp_path env p" for q
      using agrees_content [OF ok] that by blast
    then show ?thesis
      using early(1,3) tmp_path_neq [of env p] by auto
  next
    case (late m3 i)
    let ?s4 = "renamed (tmp_path env p) p i (disk m3)"
    let ?s5 = "dir_synced (dir_of p) ?s4"
    have ok5: "fs_ok ?s5"
      by (rule fs_ok_dir_synced [OF renamed_ok [OF late(2)]])
    have c5: "content_at ?s5 q = content_at ?s4 q" for q
      by simp
    have "content_at ?s4 q = content_at (disk m) q" if "q \<noteq> p" "q \<noteq> tmp_path env p" for q
      using agrees_content [OF ok] renamed_agrees [OF late(2)] that by blast
    then show ?thesis
      using fsync_parent_spec [OF late(4)] renamed_content [OF late(2)] renamed_ok [OF late(2)] ok5 c5
      by (elim disjE conjE exE) simp_all
  qed
  then show "fs_ok (disk m')" "r = Inr () \<Longrightarrow> content_at (disk m') p = Some b"
    "r = Inl e \<Longrightarrow> content_at (disk m') p = content_at (disk m) p
      \<or> content_at (disk m') p = Some b \<and> (\<exists>x. e = AtParentFsync x)"
    "q \<noteq> p \<Longrightarrow> q \<noteq> tmp_path env p \<Longrightarrow> content_at (disk m') q = content_at (disk m) q"
    by blast+
qed

locale std_io =
  fixes env :: os_env
  assumes honest: "honest_opens env"

sublocale std_io \<subseteq> vault_io "StdVaultIo env" "\<lambda>m. fs_ok (disk m)" "\<lambda>m. content_at (disk m)" "tmp_path env"
proof (unfold_locales, goal_cases)
  case (1 w p b md w' r)
  then show ?case using std_write_spec(1) by (simp add: StdVaultIo_def)
next
  case (2 w p b md w')
  then show ?case using std_write_spec(2) by (simp add: StdVaultIo_def)
next
  case (3 w p b md w' e)
  then show ?case using std_write_spec(3) by (simp add: StdVaultIo_def)
next
  case (4 w p b md w' r q)
  then show ?case using std_write_spec(4) by (simp add: StdVaultIo_def)
next
  case (5 w p c)
  then show ?case using std_read_sound [OF honest] by (simp add: StdVaultIo_def)
next
  case (6 w q)
  then show ?case using std_remove_spec(1) by (simp add: StdVaultIo_def)
next
  case (7 w q p)
  then show ?case using std_remove_spec(2) by (simp add: StdVaultIo_def)
next
  case (8 w p qs q)
  then have "is_tmp_of p q"
    using std_orphans_tmp by (simp add: StdVaultIo_def)
  then show ?case using not_tmp_of_self by metis
qed

lemma healthy_honest: "healthy env \<Longrightarrow> honest_opens env"
  by (simp add: honest_opens_def)

interpretation okio: std_io healthy_env
  by unfold_locales (rule healthy_honest [OF healthy_env_healthy])

section \<open>With nothing failing\<close>

lemma healthy_read:
  assumes "healthy env" "fs_ok (disk m)" "content_at (disk m) p = Some bytes"
  shows "std_read_if_exists env m p = Inr (Some bytes)"
proof -
  have "map_of (names (disk m)) p \<noteq> None"
    using content_names [OF assms(2), of p] assms(3) by simp
  then show ?thesis
    using assms(1,3)
    by (simp add: std_read_if_exists_def sys_open_def sys_read_def path_exists_def bind_result_def)
qed

lemma write_atomic_ready:
  assumes env: "healthy env" and parent: "dir_exists (disk m) (dir_of path)" "comps path \<noteq> []"
    and free: "\<not> dir_exists (disk m) path" "\<not> path_exists (disk m) (tmp_path env path)"
  shows "snd (std_write_atomic env m path bytes md) = Inr ()"
proof -
  let ?tmp = "tmp_path env path"
  have d: "path\<lparr>comps := butlast (comps path)\<rparr> = dir_of path"
    using parent(2) by (simp add: dir_of_def parent_of_def)
  have t: "comps ?tmp \<noteq> []" "?tmp\<lparr>comps := butlast (comps ?tmp)\<rparr> = dir_of path"
    by (simp_all add: tmp_path_shape)
  have en: "ensure_parent env m (dir_of path) = (m, Inr ())"
    using parent by (simp add: ensure_parent_def path_exists_def)
  obtain i where op: "open_tmp env m ?tmp md = (step_to (bind_name ?tmp (Some (next_inode (disk m)))
      ((disk m)\<lparr>inodes := (next_inode (disk m), \<lparr>data = [], mode = and md (not (umask env)), synced = False\<rparr>)
         # inodes (disk m), next_inode := Suc (next_inode (disk m))\<rparr>)) m, Inr i)" "i = next_inode (disk m)"
    using env free t parent by (simp add: open_tmp_def sys_create_new_def parent_usable_def Let_def)
  show ?thesis
    unfolding std_write_atomic_def Let_def
    using env free parent op(2) d
    by (simp add: en write_tmp_def op(1) sys_write_all_def sys_fsync_def sys_rename_def map_of_bind_name
        parent_usable_def fsync_parent_def sys_open_def sys_fsync_dir_def path_exists_def)
qed

text \<open>
  \<^bold>\<open>A save goes through.\<close> When no system call fails, the parent directory exists, the target is
  not a directory and no temporary file of this process is in the way, \<open>write_atomic\<close> reports success.
\<close>

theorem write_atomic_succeeds:
  assumes env: "healthy env" and parent: "dir_exists (disk m) (dir_of path)" "comps path \<noteq> []"
    and free: "\<not> dir_exists (disk m) path" "\<not> path_exists (disk m) (tmp_path env path)"
  shows "snd (std_write_atomic env m path bytes md) = Inr ()"
  using assms by (rule write_atomic_ready)

theorem write_atomic_succeeds_witness:
  "snd (std_write_atomic healthy_env sample_machine (abs_path [''v'', ''f'']) [2] 0x180) = Inr ()"
proof (rule write_atomic_succeeds)
  show "\<not> path_exists (disk sample_machine) (tmp_path healthy_env (abs_path [''v'', ''f'']))"
    by code_simp
qed (simp_all add: sample_machine_def dir_exists_def dir_of_def parent_of_def)

end
