(* ===== verification/Serde.thy ===== *)
theory Serde
  imports Prelude
begin

text \<open>
  \<open>serde_json\<close> as the two files use it: \<open>to_vec\<close> and \<open>from_slice\<close> of one type, with the error text. The
  contract is the documented round trip; it is asked only for values whose strings are UTF-8, as
  every Rust \<open>String\<close> is. A small binary codec shows that the contract can hold for the types of
  this program.
\<close>

record 'a serde =
  json_to_vec :: "'a \<Rightarrow> string + u8 list"
  json_from_slice :: "u8 list \<Rightarrow> string + 'a"

definition serde_contract :: "('a \<Rightarrow> bool) \<Rightarrow> 'a serde \<Rightarrow> bool" where
  "serde_contract P sd \<longleftrightarrow>
     (\<forall>x. P x \<longrightarrow> (\<exists>bs. json_to_vec sd x = Inr bs \<and> json_from_slice sd bs = Inr x))"

lemma serde_contractD:
  assumes "serde_contract P sd" "P x"
  obtains bs where "json_to_vec sd x = Inr bs" "json_from_slice sd bs = Inr x"
  using assms unfolding serde_contract_def by blast

section \<open>A codec with the contract\<close>

type_synonym 'a put = "'a \<Rightarrow> u8 list"
type_synonym 'a get = "u8 list \<Rightarrow> ('a \<times> u8 list) option"

definition codec :: "'a put \<Rightarrow> 'a get \<Rightarrow> bool" where
  "codec put get \<longleftrightarrow> (\<forall>x rest. get (put x @ rest) = Some (x, rest))"

lemma codecD [simp]: "codec put get \<Longrightarrow> get (put x @ rest) = Some (x, rest)"
  by (simp add: codec_def)

fun get_nat :: "nat get" where
  "get_nat [] = None"
| "get_nat (b # bs) = (if b = 0 then Some (0, bs) else map_option (apfst Suc) (get_nat bs))"

definition put_nat :: "nat put" where
  "put_nat n = replicate n 1 @ [0]"

lemma codec_nat: "codec put_nat get_nat"
proof -
  have "get_nat (put_nat n @ rest) = Some (n, rest)" for n rest
    by (induction n) (simp_all add: put_nat_def)
  then show ?thesis by (simp add: codec_def)
qed

definition put_via :: "('b \<Rightarrow> 'a) \<Rightarrow> 'a put \<Rightarrow> 'b put" where
  "put_via f put x = put (f x)"

definition get_via :: "('a \<Rightarrow> 'b) \<Rightarrow> 'a get \<Rightarrow> 'b get" where
  "get_via g get bs = map_option (apfst g) (get bs)"

lemma codec_via: "codec put get \<Longrightarrow> (\<And>x. g (f x) = x) \<Longrightarrow> codec (put_via f put) (get_via g get)"
  by (simp add: codec_def put_via_def get_via_def)

definition put_pair :: "'a put \<Rightarrow> 'b put \<Rightarrow> ('a \<times> 'b) put" where
  "put_pair p q x = p (fst x) @ q (snd x)"

definition get_pair :: "'a get \<Rightarrow> 'b get \<Rightarrow> ('a \<times> 'b) get" where
  "get_pair g h bs = Option.bind (g bs) (\<lambda>(a, bs). map_option (apfst (Pair a)) (h bs))"

lemma codec_pair: "codec p g \<Longrightarrow> codec q h \<Longrightarrow> codec (put_pair p q) (get_pair g h)"
  by (simp add: codec_def put_pair_def get_pair_def)

fun get_times :: "'a get \<Rightarrow> nat \<Rightarrow> 'a list get" where
  "get_times g 0 bs = Some ([], bs)"
| "get_times g (Suc n) bs =
     Option.bind (g bs) (\<lambda>(a, bs). map_option (apfst (Cons a)) (get_times g n bs))"

definition put_list :: "'a put \<Rightarrow> 'a list put" where
  "put_list p xs = put_nat (length xs) @ concat (map p xs)"

definition get_list :: "'a get \<Rightarrow> 'a list get" where
  "get_list g bs = Option.bind (get_nat bs) (\<lambda>(n, bs). get_times g n bs)"

lemma codec_list:
  assumes "codec p g"
  shows "codec (put_list p) (get_list g)"
proof -
  have "get_times g (length xs) (concat (map p xs) @ rest) = Some (xs, rest)" for xs rest
    using assms by (induction xs) simp_all
  then show ?thesis
    using codec_nat by (simp add: codec_def put_list_def get_list_def)
qed

definition put_sum :: "'a put \<Rightarrow> 'b put \<Rightarrow> ('a + 'b) put" where
  "put_sum p q x = (case x of Inl a \<Rightarrow> 0 # p a | Inr b \<Rightarrow> 1 # q b)"

definition get_sum :: "'a get \<Rightarrow> 'b get \<Rightarrow> ('a + 'b) get" where
  "get_sum g h bs =
     (case bs of [] \<Rightarrow> None
      | b # bs \<Rightarrow> if b = 0 then map_option (apfst Inl) (g bs) else map_option (apfst Inr) (h bs))"

lemma codec_sum: "codec p g \<Longrightarrow> codec q h \<Longrightarrow> codec (put_sum p q) (get_sum g h)"
  by (simp add: codec_def put_sum_def get_sum_def split: sum.split)

definition put_word :: "('a :: len) word put" where
  "put_word = put_via unat put_nat"

definition get_word :: "('a :: len) word get" where
  "get_word = get_via word_of_nat get_nat"

lemma codec_word: "codec (put_word :: ('a :: len) word put) get_word"
  unfolding put_word_def get_word_def by (rule codec_via [OF codec_nat]) simp

definition put_str :: "string put" where
  "put_str = put_list (put_via of_char put_nat)"

definition get_str :: "string get" where
  "get_str = get_list (get_via char_of get_nat)"

lemma codec_str: "codec put_str get_str"
  unfolding put_str_def get_str_def by (intro codec_list codec_via codec_nat) simp

lemmas codec_intros = codec_via codec_pair codec_list codec_sum codec_word codec_str codec_nat

definition codec_serde :: "'a put \<Rightarrow> 'a get \<Rightarrow> 'a serde" where
  "codec_serde put get =
     \<lparr>json_to_vec = \<lambda>x. Inr (put x),
      json_from_slice = \<lambda>bs. (case get bs of Some (x, []) \<Rightarrow> Inr x | _ \<Rightarrow> Inl ''malformed'')\<rparr>"

lemma codec_serde_contract:
  assumes "codec put get"
  shows "serde_contract P (codec_serde put get)"
proof -
  have "get (put x) = Some (x, [])" for x
    using codecD [OF assms, of x "[]"] by simp
  then show ?thesis
    by (simp add: serde_contract_def codec_serde_def)
qed

end
