(* ===== verification/Vault.thy ===== *)
theory Vault
  imports Restoring Keychain VaultIo Serde
begin

text \<open>
  \<open>crates/invisibool-engine/src/vault/mod.rs\<close> and \<open>vault/format.rs\<close>: the encrypted file of registered
  values. The AEAD and HKDF are the \<open>crates\<close> record, \<open>serde_json\<close> is a \<open>serde\<close> record, the file system
  and the keychain are trait records over their states, and \<open>getrandom::fill\<close> is the parameter
  \<open>rng\<close>, whose failure is the panic of the source's contract.
\<close>

section \<open>Format constants and the plaintext schema\<close>

definition MAGIC :: "u8 list" where
  "MAGIC = as_bytes ''INVISIBOOL_VAULT''"

definition VERSION :: u8 where
  "VERSION = 1"

definition RESERVED :: "u8 list" where
  "RESERVED = [0, 0, 0]"

definition AAD_LEN :: nat where
  "AAD_LEN = 20"

definition NONCE_LEN :: nat where
  "NONCE_LEN = 24"

definition TAG_LEN :: nat where
  "TAG_LEN = 16"

definition AEAD_KEY_LEN :: nat where
  "AEAD_KEY_LEN = 32"

definition HKDF_INFO_AEAD :: "u8 list" where
  "HKDF_INFO_AEAD = as_bytes ''invisibool-vault-aead-v1''"

definition VAULT_FILE_MODE :: u32 where
  "VAULT_FILE_MODE = 0x180"

datatype VaultEntryKind =
    FpeEntry (fe_tweak: "u8 list") (fe_prefix: string) (fe_alphabet: string)
  | SessionEntry (se_kind: SessionFakeKind)

record VaultEntry =
  ve_label :: string
  ve_value :: string
  ve_kind :: VaultEntryKind

record VaultContents =
  vc_schema_version :: u32
  vc_entries :: "VaultEntry list"

definition CURRENT_SCHEMA_VERSION :: u32 where
  "CURRENT_SCHEMA_VERSION = 1"

definition default_contents :: VaultContents where
  "default_contents = \<lparr>vc_schema_version = CURRENT_SCHEMA_VERSION, vc_entries = []\<rparr>"

definition resolve_alphabet :: "string \<Rightarrow> alphabet option" where
  "resolve_alphabet name =
     (if name = ''BASE62'' then Some BASE62
      else if name = ''BASE32'' then Some BASE32
      else if name = ''HEX_LOWER'' then Some HEX_LOWER
      else if name = ''HEX_UPPER'' then Some HEX_UPPER
      else if name = ''DIGITS'' then Some DIGITS
      else if name = ''ALPHA_LOWER'' then Some ALPHA_LOWER
      else if name = ''ALPHA_UPPER'' then Some ALPHA_UPPER
      else if name = ''BASE36_LOWER'' then Some BASE36_LOWER
      else None)"

section \<open>Randomness and errors\<close>

type_synonym rng = "nat \<Rightarrow> u8 list option"

definition rng_contract :: "rng \<Rightarrow> bool" where
  "rng_contract rng \<longleftrightarrow> (\<forall>n bs. rng n = Some bs \<longrightarrow> length bs = n)"

definition os_random :: "rng \<Rightarrow> nat \<Rightarrow> u8 list run" where
  "os_random rng n = (case rng n of None \<Rightarrow> panic | Some bs \<Rightarrow> Some bs)"

definition random_ff1_tweak :: "rng \<Rightarrow> u8 list run" where
  "random_ff1_tweak rng = os_random rng 16"

datatype VaultError =
    VIo io_error
  | VAtomicWrite AtomicWriteError
  | VKeychain KeychainError
  | BadMagic
  | UnsupportedVersion u8
  | TruncatedFile
  | AeadDecrypt
  | VSerde string
  | UnknownAlphabet string

section \<open>Sealing and opening the file\<close>

definition derive_aead_key :: "crates \<Rightarrow> key \<Rightarrow> u8 list run" where
  "derive_aead_key c vk = hkdf_sha256_expand c vk HKDF_INFO_AEAD AEAD_KEY_LEN"

definition derive_mac_key :: "crates \<Rightarrow> key \<Rightarrow> u8 list run" where
  "derive_mac_key c vk = hkdf_sha256_expand c vk (as_bytes ''invisibool-mac-key-v1'') 32"

definition vault_aad :: "u8 list" where
  "vault_aad = MAGIC @ [VERSION] @ RESERVED"

definition encrypt_vault :: "crates \<Rightarrow> rng \<Rightarrow> key \<Rightarrow> u8 list \<Rightarrow> (VaultError + u8 list) run" where
  "encrypt_vault c rng vk plaintext =
     do {
       aead_key \<leftarrow> derive_aead_key c vk;
       nonce \<leftarrow> os_random rng NONCE_LEN;
       Some (case aead_encrypt c aead_key nonce vault_aad plaintext of
               None \<Rightarrow> Inl (VIo (IoError OtherKind ''AEAD encrypt failed (should not happen for valid inputs)''))
             | Some ciphertext \<Rightarrow> Inr (vault_aad @ nonce @ ciphertext))
     }"

definition decrypt_vault ::
  "crates \<Rightarrow> VaultContents serde \<Rightarrow> key \<Rightarrow> u8 list \<Rightarrow> (VaultError + VaultContents) run" where
  "decrypt_vault c sd vk file_bytes =
     (if length file_bytes < AAD_LEN + NONCE_LEN + TAG_LEN then Some (Inl TruncatedFile)
      else if take 16 file_bytes \<noteq> MAGIC then Some (Inl BadMagic)
      else if file_bytes ! 16 \<noteq> VERSION then Some (Inl (UnsupportedVersion (file_bytes ! 16)))
      else
        (let aad = take AAD_LEN file_bytes;
             nonce = take NONCE_LEN (drop AAD_LEN file_bytes);
             ciphertext = drop (AAD_LEN + NONCE_LEN) file_bytes
         in do {
              aead_key \<leftarrow> derive_aead_key c vk;
              Some (case aead_decrypt c aead_key nonce aad ciphertext of
                      None \<Rightarrow> Inl AeadDecrypt
                    | Some plaintext \<Rightarrow> map_err VSerde (json_from_slice sd plaintext))
            }))"

section \<open>The vault\<close>

record Vault =
  v_key :: key
  v_contents :: VaultContents

datatype EntryKindSummary =
    SummaryFpe (sum_alphabet: string) (sum_prefix: string)
  | SummarySession SessionFakeKind

record EntryMetadata =
  md_label :: string
  md_kind :: EntryKindSummary

definition from_entry_kind :: "VaultEntryKind \<Rightarrow> EntryKindSummary" where
  "from_entry_kind k =
     (case k of
        FpeEntry _ prefix alphabet \<Rightarrow> SummaryFpe alphabet prefix
      | SessionEntry kind \<Rightarrow> SummarySession kind)"

definition clean_orphans :: "'w VaultIo \<Rightarrow> 'w \<Rightarrow> path \<Rightarrow> 'w" where
  "clean_orphans io w path =
     (case vi_list_orphan_tmps io w path of
        Inl _ \<Rightarrow> w
      | Inr orphans \<Rightarrow> fold (\<lambda>orphan w. vi_remove_quiet io w orphan) orphans w)"

definition vault_open ::
  "crates \<Rightarrow> VaultContents serde \<Rightarrow> 'w VaultIo \<Rightarrow> 'k KeychainBackend \<Rightarrow> rng \<Rightarrow> path \<Rightarrow> 'w \<times> 'k
   \<Rightarrow> (('w \<times> 'k) \<times> (VaultError + Vault)) run" where
  "vault_open c sd io kc rng path st =
     (case st of (w, k) \<Rightarrow>
        (let w = clean_orphans io w path in
         do {
           (k, vk) \<leftarrow> fetch_or_create kc k VaultKey (os_random rng KEY_LEN);
           (case vk of
              Inl e \<Rightarrow> Some ((w, k), Inl (VKeychain e))
            | Inr vkey \<Rightarrow>
                (case vi_read_if_exists io w path of
                   Inl e \<Rightarrow> Some ((w, k), Inl (VIo e))
                 | Inr None \<Rightarrow> Some ((w, k), Inr \<lparr>v_key = vkey, v_contents = default_contents\<rparr>)
                 | Inr (Some bytes) \<Rightarrow>
                     do {
                       contents \<leftarrow> decrypt_vault c sd vkey bytes;
                       Some ((w, k), map_sum id (\<lambda>x. \<lparr>v_key = vkey, v_contents = x\<rparr>) contents)
                     }))
         }))"

definition update_entries :: "(VaultEntry list \<Rightarrow> VaultEntry list) \<Rightarrow> Vault \<Rightarrow> Vault" where
  "update_entries f v =
     v\<lparr>v_contents := (v_contents v)\<lparr>vc_entries := f (vc_entries (v_contents v))\<rparr>\<rparr>"

abbreviation v_entries :: "Vault \<Rightarrow> VaultEntry list" where
  "v_entries v \<equiv> vc_entries (v_contents v)"

definition vault_register :: "Vault \<Rightarrow> VaultEntry \<Rightarrow> Vault" where
  "vault_register v entry =
     update_entries (\<lambda>es. filter (\<lambda>e. ve_label e \<noteq> ve_label entry) es @ [entry]) v"

definition vault_forget :: "Vault \<Rightarrow> string \<Rightarrow> Vault \<times> bool" where
  "vault_forget v label =
     (let len_before = length (v_entries v);
          v' = update_entries (filter (\<lambda>e. ve_label e \<noteq> label)) v
      in (v', len_before \<noteq> length (v_entries v')))"

definition vault_labels :: "Vault \<Rightarrow> string list" where
  "vault_labels v = map ve_label (v_entries v)"

definition list_metadata :: "Vault \<Rightarrow> EntryMetadata list" where
  "list_metadata v =
     map (\<lambda>e. \<lparr>md_label = ve_label e, md_kind = from_entry_kind (ve_kind e)\<rparr>) (v_entries v)"

definition vault_len :: "Vault \<Rightarrow> nat" where
  "vault_len v = length (v_entries v)"

definition vault_is_empty :: "Vault \<Rightarrow> bool" where
  "vault_is_empty v \<longleftrightarrow> v_entries v = []"

definition vault_save ::
  "crates \<Rightarrow> VaultContents serde \<Rightarrow> 'w VaultIo \<Rightarrow> rng \<Rightarrow> path \<Rightarrow> 'w \<Rightarrow> Vault \<Rightarrow> ('w \<times> (VaultError + unit)) run" where
  "vault_save c sd io rng path w v =
     (case json_to_vec sd (v_contents v) of
        Inl e \<Rightarrow> Some (w, Inl (VSerde e))
      | Inr plaintext \<Rightarrow>
          do {
            sealed \<leftarrow> encrypt_vault c rng (v_key v) plaintext;
            (case sealed of
               Inl e \<Rightarrow> Some (w, Inl e)
             | Inr file_bytes \<Rightarrow>
                 Some (map_prod id (map_err VAtomicWrite)
                   (vi_write_atomic io w path file_bytes VAULT_FILE_MODE)))
          })"

definition entry_to_registered :: "VaultEntry \<Rightarrow> VaultError + RegisteredValue" where
  "entry_to_registered entry =
     (case ve_kind entry of
        FpeEntry tweak prefix alphabet \<Rightarrow>
          bind_result (ok_or (resolve_alphabet alphabet) (UnknownAlphabet alphabet)) (\<lambda>a.
            Inr (Fpe \<lparr>fr_label = ve_label entry, fr_value = ve_value entry, fr_tweak = tweak,
                      fr_alphabet = a, fr_prefix = prefix\<rparr>))
      | SessionEntry kind \<Rightarrow>
          Inr (SessionMapped \<lparr>sr_label = ve_label entry, sr_value = ve_value entry, sr_kind = kind\<rparr>))"

definition registered_values :: "Vault \<Rightarrow> VaultError + RegisteredValue list" where
  "registered_values v = collect_results (map entry_to_registered (v_entries v))"

definition vault_key_provider :: "key \<Rightarrow> InMemoryKeyProvider" where
  "vault_key_provider k = \<lparr>provider_key = k\<rparr>"

definition build_engine :: "crates \<Rightarrow> Vault \<Rightarrow> (VaultError + Engine) run" where
  "build_engine c v =
     (case registered_values v of
        Inl e \<Rightarrow> Some (Inl e)
      | Inr registered \<Rightarrow>
          do {
            mac_key \<leftarrow> derive_mac_key c (v_key v);
            engine \<leftarrow> engine_new c (vault_key_provider (v_key v)) registered [] mac_key;
            Some (map_err (\<lambda>_. VIo (IoError OtherKind ''engine build failed'')) engine)
          })"

section \<open>The sealed file\<close>

lemma vault_aad_length [simp]: "length vault_aad = 20"
  by (simp add: vault_aad_def MAGIC_def RESERVED_def)

lemma vault_aad_head: "take 16 vault_aad = MAGIC" "vault_aad ! 16 = VERSION"
  by (simp_all add: vault_aad_def MAGIC_def as_bytes_def numeral_eq_Suc)

text \<open>A sealed file splits back into header, nonce and ciphertext.\<close>

lemma sealed_parts:
  assumes "length aad = 20" "length nonce = 24"
  shows "take 20 (aad @ nonce @ ct) = aad" "take 24 (drop 20 (aad @ nonce @ ct)) = nonce"
    "drop 44 (aad @ nonce @ ct) = ct" "take 16 (aad @ nonce @ ct) = take 16 aad"
    "(aad @ nonce @ ct) ! 16 = aad ! 16"
  using assms by (simp_all add: nth_append)

lemmas vault_lens = AAD_LEN_def NONCE_LEN_def TAG_LEN_def AEAD_KEY_LEN_def

lemma derive_aead_key_ok:
  assumes "hkdf_contract c"
  obtains k where "derive_aead_key c vk = Some k" "length k = 32"
  using hkdf_expand_ok [OF assms, of 32 vk HKDF_INFO_AEAD]
  by (auto simp: derive_aead_key_def AEAD_KEY_LEN_def hkdf_max_len_def)

lemma derive_mac_key_ok:
  assumes "hkdf_contract c"
  obtains k where "derive_mac_key c vk = Some k" "length k = 32"
  using hkdf_expand_ok [OF assms, of 32 vk "as_bytes ''invisibool-mac-key-v1''"]
  by (auto simp: derive_mac_key_def hkdf_max_len_def)

definition sealing_ok :: "crates \<Rightarrow> rng \<Rightarrow> bool" where
  "sealing_ok c rng \<longleftrightarrow> hkdf_contract c \<and> aead_contract c \<and> rng_contract rng"

lemma encrypt_vault_shape:
  assumes "sealing_ok c rng" "encrypt_vault c rng vk plaintext = Some r"
  obtains k nonce ct where "r = Inr (vault_aad @ nonce @ ct)" "derive_aead_key c vk = Some k"
    "length nonce = 24" "length ct = length plaintext + 16"
    "aead_decrypt c k nonce vault_aad ct = Some plaintext"
proof -
  obtain k where k: "derive_aead_key c vk = Some k" "length k = 32"
    using assms(1) by (auto simp: sealing_ok_def elim: derive_aead_key_ok)
  obtain nonce where n: "os_random rng 24 = Some nonce"
    using assms(2) k by (cases "os_random rng 24") (auto simp: encrypt_vault_def NONCE_LEN_def)
  then have len: "length nonce = 24"
    using assms(1) by (auto simp: os_random_def sealing_ok_def rng_contract_def split: option.splits)
  obtain ct where "aead_encrypt c k nonce vault_aad plaintext = Some ct" "length ct = length plaintext + 16"
      "aead_decrypt c k nonce vault_aad ct = Some plaintext"
    using assms(1) k(2) len unfolding sealing_ok_def aead_contract_def by blast
  then show thesis
    using that [of nonce ct k] assms(2) k n len by (simp add: encrypt_vault_def NONCE_LEN_def)
qed

lemma decrypt_encrypt:
  assumes "sealing_ok c rng" "encrypt_vault c rng vk plaintext = Some r"
  shows "\<exists>bytes. r = Inr bytes \<and> decrypt_vault c sd vk bytes = Some (map_err VSerde (json_from_slice sd plaintext))"
proof -
  obtain k nonce ct where e: "r = Inr (vault_aad @ nonce @ ct)" "derive_aead_key c vk = Some k"
      "length nonce = 24" "length ct = length plaintext + 16"
      "aead_decrypt c k nonce vault_aad ct = Some plaintext"
    using encrypt_vault_shape [OF assms] .
  note parts = sealed_parts [OF vault_aad_length e(3), of ct, unfolded vault_aad_head]
  have "length (vault_aad @ nonce @ ct) \<ge> 60"
    using e(3,4) by simp
  then have "decrypt_vault c sd vk (vault_aad @ nonce @ ct) = Some (map_err VSerde (json_from_slice sd plaintext))"
    using e(2,5) by (simp add: decrypt_vault_def vault_lens parts del: take_append drop_append length_append)
  then show ?thesis
    using e(1) by blast
qed

lemma decrypt_vault_total:
  assumes "hkdf_contract c"
  shows "\<exists>r. decrypt_vault c sd vk bytes = Some r"
proof -
  obtain k where "derive_aead_key c vk = Some k"
    using assms by (rule derive_aead_key_ok)
  then show ?thesis
    by (simp add: decrypt_vault_def Let_def)
qed

section \<open>Opening and saving\<close>

lemma map_sum_id_eq [simp]:
  "map_sum id f x = Inl e \<longleftrightarrow> x = Inl e" "map_sum id f x = Inr b \<longleftrightarrow> (\<exists>a. x = Inr a \<and> b = f a)"
  by (cases x; auto)+

context vault_io
begin

lemma clean_orphans_keeps:
  assumes "inv w"
  shows "inv (clean_orphans io w p) \<and> content (clean_orphans io w p) p = content w p"
  using assms clear_orphans [OF assms, of p] by (simp add: clean_orphans_def split: sum.split)

text \<open>Opening a file: the key, the stored contents or the empty vault, and no change of the file.\<close>

lemma open_spec:
  assumes "inv w" and key: "kb_fetch kc k VaultKey = Inr (Some vkey)"
    and run: "vault_open c sd io kc rng p (w, k) = Some ((w', k'), r)"
  shows "inv w' \<and> content w' p = content w p \<and> k' = k
    \<and> (case r of
         Inr v \<Rightarrow> v_key v = vkey
           \<and> (case content w p of
                None \<Rightarrow> v_contents v = default_contents
              | Some bytes \<Rightarrow> decrypt_vault c sd vkey bytes = Some (Inr (v_contents v)))
       | Inl e \<Rightarrow> (\<exists>x. e = VIo x) \<or>
           (\<exists>bytes. content w p = Some bytes \<and> decrypt_vault c sd vkey bytes = Some (Inl e)))"
proof -
  let ?w = "clean_orphans io w p"
  note keeps = clean_orphans_keeps [OF assms(1), of p]
  have "fetch_or_create kc k VaultKey (os_random rng KEY_LEN) = Some (k, Inr vkey)"
    using key by (simp add: fetch_or_create_def)
  then have run': "(case vi_read_if_exists io ?w p of
                   Inl e \<Rightarrow> Some ((?w, k), Inl (VIo e))
                 | Inr None \<Rightarrow> Some ((?w, k), Inr \<lparr>v_key = vkey, v_contents = default_contents\<rparr>)
                 | Inr (Some bytes) \<Rightarrow>
                     do {
                       contents \<leftarrow> decrypt_vault c sd vkey bytes;
                       Some ((?w, k), map_sum id (\<lambda>x. \<lparr>v_key = vkey, v_contents = x\<rparr>) contents)
                     }) = Some ((w', k'), r)"
    using run by (simp add: vault_open_def Let_def)
  show ?thesis
  proof (cases "vi_read_if_exists io ?w p")
    case (Inl e)
    then show ?thesis
      using run' keeps by auto
  next
    case (Inr file_opt)
    have opt: "file_opt = content w p"
      using read_sound [OF _ Inr] keeps by simp
    show ?thesis
    proof (cases file_opt)
      case None
      then show ?thesis
        using run' keeps Inr opt by auto
    next
      case (Some bytes)
      then show ?thesis
        using run' keeps Inr opt by (auto split: Option.bind_splits sum.splits)
    qed
  qed
qed

text \<open>A save that succeeds leaves a file that decrypts to the saved contents.\<close>

lemma save_content:
  assumes ok: "inv w" "sealing_ok c rng" and json: "serde_contract P sd" "P (v_contents v)"
    and save: "vault_save c sd io rng p w v = Some (w', Inr ())"
  shows "inv w' \<and> (\<exists>bytes. content w' p = Some bytes
    \<and> decrypt_vault c sd (v_key v) bytes = Some (Inr (v_contents v)))"
proof -
  obtain plain where plain: "json_to_vec sd (v_contents v) = Inr plain"
      "json_from_slice sd plain = Inr (v_contents v)"
    using json by (rule serde_contractD)
  obtain r1 where enc: "encrypt_vault c rng (v_key v) plain = Some r1"
    using save plain(1) by (auto simp: vault_save_def split: Option.bind_splits)
  obtain bytes where r1: "r1 = Inr bytes"
      and dec: "decrypt_vault c sd (v_key v) bytes = Some (Inr (v_contents v))"
    using decrypt_encrypt [OF ok(2) enc, of sd] plain(2) by (auto simp: map_err_def)
  have wr: "vi_write_atomic io w p bytes VAULT_FILE_MODE = (w', Inr ())"
    using save plain(1) enc r1
    by (cases "vi_write_atomic io w p bytes VAULT_FILE_MODE")
      (auto simp: vault_save_def map_err_def split: sum.splits)
  show ?thesis
    using write_inv [OF ok(1) wr] write_ok [OF ok(1) wr] dec by blast
qed

text \<open>
  A save that fails leaves the file as it was, unless only the last step failed: then the file
  already decrypts to the new contents.
\<close>

lemma save_failed:
  assumes "inv w" "sealing_ok c rng" "serde_contract P sd" "P (v_contents v)"
    and "vault_save c sd io rng p w v = Some (w', Inl e)"
  shows "content w' p = content w p
    \<or> (\<exists>x. e = VAtomicWrite (AtParentFsync x)) \<and> (\<exists>bytes. content w' p = Some bytes
        \<and> decrypt_vault c sd (v_key v) bytes = Some (Inr (v_contents v)))"
proof (cases "json_to_vec sd (v_contents v)")
  case (Inr plain)
  obtain r1 where enc: "encrypt_vault c rng (v_key v) plain = Some r1"
    using assms(5) Inr by (auto simp: vault_save_def split: Option.bind_splits)
  show ?thesis
  proof (cases r1)
    case r1: (Inr bytes)
    obtain w1 r2 where wr: "vi_write_atomic io w p bytes VAULT_FILE_MODE = (w1, r2)"
      by (cases "vi_write_atomic io w p bytes VAULT_FILE_MODE")
    then have "w1 = w'" and "map_err VAtomicWrite r2 = Inl e"
      using assms(5) Inr enc r1 by (auto simp: vault_save_def)
    moreover have dec: "decrypt_vault c sd (v_key v) bytes = Some (Inr (v_contents v))"
    proof -
      have "json_from_slice sd plain = Inr (v_contents v)"
        using Inr by (metis serde_contractD [OF assms(3,4)] sum.inject(2))
      then show ?thesis
        using decrypt_encrypt [OF assms(2) enc [unfolded r1], of sd] by (simp add: map_err_def)
    qed
    ultimately obtain e' where "r2 = Inl e'" "e = VAtomicWrite e'"
      by (auto simp: map_err_def split: sum.splits)
    then show ?thesis
      using write_failed [OF assms(1)] wr \<open>w1 = w'\<close> dec by blast
  qed (use assms(5) Inr enc in \<open>auto simp: vault_save_def\<close>)
qed (use assms(5) in \<open>auto simp: vault_save_def\<close>)

end

context std_io
begin

lemmas std_open_spec = open_spec and std_save_content = save_content
  and std_save_failed = save_failed and std_clean_orphans = clean_orphans_keeps

end

lemma remove_quiet_dirs: "dirs (disk (std_remove_quiet env m q)) = dirs (disk m)"
  by (simp add: std_remove_quiet_def sys_remove_file_def split: option.split)

lemma clean_orphans_dirs:
  "dir_exists (disk (clean_orphans (StdVaultIo env) m p)) q = dir_exists (disk m) q"
proof -
  have "dirs (disk (fold (\<lambda>q m. std_remove_quiet env m q) qs m)) = dirs (disk m)" for qs
    by (induction qs arbitrary: m) (simp_all add: remove_quiet_dirs)
  then have "dirs (disk (clean_orphans (StdVaultIo env) m p)) = dirs (disk m)"
    by (simp add: clean_orphans_def StdVaultIo_def split: sum.split)
  then show ?thesis
    by (rule dir_exists_cong)
qed

section \<open>A sample vault\<close>

definition kind_code :: "SessionFakeKind \<Rightarrow> nat" where
  "kind_code k = (case k of Card \<Rightarrow> 0 | Formatless \<Rightarrow> 1 | Pii Email \<Rightarrow> 2 | Pii Ipv4 \<Rightarrow> 3 | Pii Phone \<Rightarrow> 4)"

definition code_kind :: "nat \<Rightarrow> SessionFakeKind" where
  "code_kind n =
     (if n = 0 then Card else if n = 1 then Formatless else if n = 2 then Pii Email
      else if n = 3 then Pii Ipv4 else Pii Phone)"

lemma code_kind_code: "code_kind (kind_code k) = k"
proof (cases k)
  case (Pii p)
  then show ?thesis by (cases p) (simp_all add: kind_code_def code_kind_def)
qed (simp_all add: kind_code_def code_kind_def)

definition kind_to_sum :: "VaultEntryKind \<Rightarrow> (u8 list \<times> string \<times> string) + SessionFakeKind" where
  "kind_to_sum k = (case k of FpeEntry t p a \<Rightarrow> Inl (t, p, a) | SessionEntry s \<Rightarrow> Inr s)"

definition sum_to_kind :: "(u8 list \<times> string \<times> string) + SessionFakeKind \<Rightarrow> VaultEntryKind" where
  "sum_to_kind x = (case x of Inl (t, p, a) \<Rightarrow> FpeEntry t p a | Inr s \<Rightarrow> SessionEntry s)"

lemma sum_to_kind_inverse: "sum_to_kind (kind_to_sum k) = k"
  by (cases k) (simp_all add: kind_to_sum_def sum_to_kind_def)

lemma record_eta:
  "\<lparr>ve_label = ve_label e, ve_value = ve_value e, ve_kind = ve_kind e\<rparr> = (e :: VaultEntry)"
  "\<lparr>vc_schema_version = vc_schema_version x, vc_entries = vc_entries x\<rparr> = (x :: VaultContents)"
  by simp_all

definition vault_serde :: "VaultContents serde" where
  "vault_serde = codec_serde
     (put_via (\<lambda>x. (vc_schema_version x, map (\<lambda>e. (ve_label e, ve_value e, kind_to_sum (ve_kind e))) (vc_entries x)))
        (put_pair put_word (put_list (put_pair put_str (put_pair put_str
           (put_sum (put_pair (put_list put_word) (put_pair put_str put_str)) (put_via kind_code put_nat)))))))
     (get_via (\<lambda>(n, es). \<lparr>vc_schema_version = n,
          vc_entries = map (\<lambda>(l, v, k). \<lparr>ve_label = l, ve_value = v, ve_kind = sum_to_kind k\<rparr>) es\<rparr>)
        (get_pair get_word (get_list (get_pair get_str (get_pair get_str
           (get_sum (get_pair (get_list get_word) (get_pair get_str get_str)) (get_via code_kind get_nat)))))))"

lemma vault_serde_contract: "serde_contract P vault_serde"
  unfolding vault_serde_def
  by (intro codec_serde_contract codec_intros)
    (simp_all add: code_kind_code sum_to_kind_inverse comp_def record_eta)

definition sample_rng :: rng where
  "sample_rng n = Some (replicate n 3)"

lemma sample_sealing: "sealing_ok ref_crates sample_rng"
  by (simp add: sealing_ok_def ref_contracts rng_contract_def sample_rng_def)

definition sample_vault :: Vault where
  "sample_vault = \<lparr>v_key = replicate 32 1, v_contents = \<lparr>vc_schema_version = 1,
     vc_entries = [\<lparr>ve_label = ''token'', ve_value = ''sk-123456'',
       ve_kind = FpeEntry (replicate 16 0) ''sk-'' ''DIGITS''\<rparr>]\<rparr>\<rparr>"

section \<open>Properties\<close>

text \<open>
  (C20) \<^bold>\<open>What is saved is what is opened.\<close> After a \<open>save\<close> that reports success, \<open>Vault::open\<close> under
  the same key returns the same vault, whatever temporary files lie beside it: the orphan scan
  does not touch the vault, header and nonce split off as they were written, and the AEAD and JSON
  layers invert each other.
\<close>

theorem vault_save_open:
  assumes env: "healthy env" "fs_ok (disk m)" and seal: "sealing_ok c rng"
    and json: "serde_contract P sd" "P (v_contents v)"
    and save: "vault_save c sd (StdVaultIo env) rng p m v = Some (m', Inr ())"
    and key: "kb_fetch kc k VaultKey = Inr (Some (v_key v))"
  shows "\<exists>m''. vault_open c sd (StdVaultIo env) kc rng' p (m', k) = Some ((m'', k), Inr v)"
proof -
  note io = std_io.intro [OF healthy_honest [OF env(1)]]
  obtain bytes where ok: "fs_ok (disk m')" "content_at (disk m') p = Some bytes"
      "decrypt_vault c sd (v_key v) bytes = Some (Inr (v_contents v))"
    using std_io.std_save_content [OF io env(2) seal json save] by blast
  let ?m = "clean_orphans (StdVaultIo env) m' p"
  have "fs_ok (disk ?m)" "content_at (disk ?m) p = Some bytes"
    using std_io.std_clean_orphans [OF io ok(1)] ok(2) by auto
  then have "vi_read_if_exists (StdVaultIo env) ?m p = Inr (Some bytes)"
    using healthy_read [OF env(1)] by (simp add: StdVaultIo_def)
  moreover have "fetch_or_create kc k VaultKey (os_random rng' KEY_LEN) = Some (k, Inr (v_key v))"
    using key by (simp add: fetch_or_create_def)
  ultimately have "vault_open c sd (StdVaultIo env) kc rng' p (m', k) = Some ((?m, k), Inr v)"
    using ok(3) by (simp add: vault_open_def Let_def)
  then show ?thesis by blast
qed

theorem vault_save_open_witness:
  "\<exists>m' m''. vault_save ref_crates vault_serde (StdVaultIo healthy_env) sample_rng
       (abs_path [''v'', ''f'']) sample_machine sample_vault = Some (m', Inr ())
     \<and> vault_open ref_crates vault_serde (StdVaultIo healthy_env) mem_backend sample_rng
         (abs_path [''v'', ''f'']) (m', mem_preloaded VaultKey (replicate 32 1))
       = Some ((m'', mem_preloaded VaultKey (replicate 32 1)), Inr sample_vault)"
proof -
  let ?p = "abs_path [''v'', ''f'']"
  obtain k where k: "derive_aead_key ref_crates (v_key sample_vault) = Some k" "length k = 32"
    using ref_digests(3) by (rule derive_aead_key_ok)
  obtain plain where plain: "json_to_vec vault_serde (v_contents sample_vault) = Inr plain"
    using serde_contractD [OF vault_serde_contract [of "\<lambda>_. True"] TrueI] by metis
  obtain ct where "aead_encrypt ref_crates k (replicate 24 3) vault_aad plain = Some ct"
    using ref_aead k(2) unfolding aead_contract_def by (metis length_replicate)
  then have enc: "encrypt_vault ref_crates sample_rng (v_key sample_vault) plain
      = Some (Inr (vault_aad @ replicate 24 3 @ ct))"
    using k(1) by (simp add: encrypt_vault_def os_random_def sample_rng_def NONCE_LEN_def)
  have "snd (std_write_atomic healthy_env sample_machine ?p bs md) = Inr ()" for bs md
  proof (rule write_atomic_ready)
    show "\<not> path_exists (disk sample_machine) (tmp_path healthy_env ?p)"
      by code_simp
  qed (simp_all add: sample_machine_def dir_exists_def dir_of_def parent_of_def)
  then obtain m' where save: "vault_save ref_crates vault_serde (StdVaultIo healthy_env) sample_rng
      ?p sample_machine sample_vault = Some (m', Inr ())"
    using plain enc by (simp add: vault_save_def StdVaultIo_def map_prod_def split_beta map_err_def)
  have key: "kb_fetch mem_backend (mem_preloaded VaultKey (replicate 32 1)) VaultKey
      = Inr (Some (v_key sample_vault))"
    by (simp add: mem_backend_def mem_fetch_def mem_preloaded_def sample_vault_def)
  show ?thesis
    using save vault_save_open [OF healthy_env_healthy sample_machine_ok(1) sample_sealing
        vault_serde_contract [of "\<lambda>_. True"] TrueI save key, of sample_rng]
    by blast
qed

lemma map_sum_case: "map_sum id f x = (case x of Inl e \<Rightarrow> Inl e | Inr y \<Rightarrow> Inr (f y))"
  by (cases x) simp_all

text \<open>The answer for the bytes of a file, by its length, its header and what authenticates.\<close>

lemma decrypt_vault_answer:
  assumes "hkdf_contract c" "decrypt_vault c sd vk bytes = Some d"
  shows "if length bytes < 60 then d = Inl TruncatedFile
    else if take 16 bytes \<noteq> MAGIC then d = Inl BadMagic
    else if bytes ! 16 \<noteq> VERSION then d = Inl (UnsupportedVersion (bytes ! 16))
    else \<exists>k. derive_aead_key c vk = Some k
      \<and> d = (case aead_decrypt c k (take 24 (drop 20 bytes)) (take 20 bytes) (drop 44 bytes) of
               None \<Rightarrow> Inl AeadDecrypt
             | Some plain \<Rightarrow> map_err VSerde (json_from_slice sd plain))"
proof -
  obtain k where "derive_aead_key c vk = Some k"
    using assms(1) by (rule derive_aead_key_ok)
  with assms(2) show ?thesis
    by (auto simp: decrypt_vault_def vault_lens Let_def)
qed

text \<open>
  (C22) \<^bold>\<open>Opening fails closed.\<close> With the key in the keychain and no system call failing, \<open>Vault::open\<close>
  returns, touches neither the file nor the key, and its answer is determined by the file: the empty
  vault if there is none; \<open>TruncatedFile\<close> below 60 bytes; \<open>BadMagic\<close> for another magic (a session file,
  say); \<open>UnsupportedVersion\<close> for another version; \<open>AeadDecrypt\<close> if header, nonce and ciphertext are not
  authenticated under the key derived from the stored one; \<open>Serde\<close> if the plaintext is not a vault; and
  otherwise the vault that was sealed. So damage never turns into an empty vault.
\<close>

theorem vault_open_fails_closed:
  assumes env: "healthy env" "fs_ok (disk m)" "\<not> dir_exists (disk m) p" and c: "hkdf_contract c"
    and key: "kb_fetch kc k VaultKey = Inr (Some vkey)"
    and result: "vault_open c sd (StdVaultIo env) kc rng p (m, k) = r"
  shows "\<exists>m' v. r = Some ((m', k), v) \<and> content_at (disk m') p = content_at (disk m) p
    \<and> (case content_at (disk m) p of
         None \<Rightarrow> v = Inr \<lparr>v_key = vkey, v_contents = default_contents\<rparr>
       | Some bytes \<Rightarrow>
           if length bytes < 60 then v = Inl TruncatedFile
           else if take 16 bytes \<noteq> MAGIC then v = Inl BadMagic
           else if bytes ! 16 \<noteq> VERSION then v = Inl (UnsupportedVersion (bytes ! 16))
           else \<exists>ak. derive_aead_key c vkey = Some ak
             \<and> v = (case aead_decrypt c ak (take 24 (drop 20 bytes)) (take 20 bytes) (drop 44 bytes) of
                      None \<Rightarrow> Inl AeadDecrypt
                    | Some plain \<Rightarrow>
                        (case json_from_slice sd plain of
                           Inl e \<Rightarrow> Inl (VSerde e)
                         | Inr x \<Rightarrow> Inr \<lparr>v_key = vkey, v_contents = x\<rparr>)))"
proof -
  note io = std_io.intro [OF healthy_honest [OF env(1)]]
  let ?m = "clean_orphans (StdVaultIo env) m p"
  have keeps: "fs_ok (disk ?m)" "content_at (disk ?m) p = content_at (disk m) p"
    using std_io.std_clean_orphans [OF io env(2)] by auto
  have fetch: "fetch_or_create kc k VaultKey (os_random rng KEY_LEN) = Some (k, Inr vkey)"
    using key by (simp add: fetch_or_create_def)
  show ?thesis
  proof (cases "content_at (disk m) p")
    case None
    have "map_of (names (disk ?m)) p = None"
      using content_names [OF keeps(1), of p] keeps(2) None by simp
    moreover have "\<not> dir_exists (disk ?m) p"
      using env(3) by (simp add: clean_orphans_dirs)
    ultimately have "vi_read_if_exists (StdVaultIo env) ?m p = Inr None"
      using env(1) by (simp add: StdVaultIo_def std_read_if_exists_def sys_open_def path_exists_def io_kind_def)
    then show ?thesis
      using result fetch None keeps by (auto simp: vault_open_def Let_def)
  next
    case (Some bytes)
    have "vi_read_if_exists (StdVaultIo env) ?m p = Inr (Some bytes)"
      using healthy_read [OF env(1) keeps(1)] keeps(2) Some by (simp add: StdVaultIo_def)
    moreover obtain d where d: "decrypt_vault c sd vkey bytes = Some d"
      using decrypt_vault_total [OF c] by blast
    ultimately have r: "r = Some ((?m, k), map_sum id (\<lambda>x. \<lparr>v_key = vkey, v_contents = x\<rparr>) d)"
      using result fetch by (simp add: vault_open_def Let_def)
    have same: "(case map_err VSerde x of Inl e \<Rightarrow> Inl e | Inr y \<Rightarrow> Inr (f y))
        = (case x of Inl e \<Rightarrow> Inl (VSerde e) | Inr y \<Rightarrow> Inr (f y))" for x f
      by (simp add: map_err_def split: sum.split)
    show ?thesis
      using keeps Some decrypt_vault_answer [OF c d]
      by (auto simp: r map_sum_case same split: option.split if_splits)
  qed
qed

section \<open>The vault as a map\<close>

definition vault_view :: "Vault \<Rightarrow> string \<rightharpoonup> VaultEntry" where
  "vault_view v = map_of (map (\<lambda>e. (ve_label e, e)) (v_entries v))"

definition labels_unique :: "Vault \<Rightarrow> bool" where
  "labels_unique v \<longleftrightarrow> distinct (vault_labels v)"

lemma view_filter:
  "map_of (map (\<lambda>e. (ve_label e, e)) (filter (\<lambda>e. ve_label e \<noteq> l) es))
     = (map_of (map (\<lambda>e. (ve_label e, e)) es))(l := None)"
  by (induction es) (auto simp: fun_eq_iff)

lemma view_None: "vault_view v l = None \<longleftrightarrow> l \<notin> set (vault_labels v)"
  by (auto simp: vault_view_def vault_labels_def map_of_eq_None_iff image_iff)

lemma v_entries_update [simp]: "v_entries (update_entries f v) = f (v_entries v)"
  by (simp add: update_entries_def)

lemma filter_length_neq: "length (filter P xs) \<noteq> length xs \<longleftrightarrow> (\<exists>x \<in> set xs. \<not> P x)"
  by (metis (full_types) filter_id_conv length_filter_less less_not_refl)

lemma view_register: "vault_view (vault_register v e) = (vault_view v)(ve_label e \<mapsto> e)"
proof -
  have last: "map_of (xs @ [(l, x)]) = (map_of xs)(l \<mapsto> x)" if "map_of xs l = None" for xs l x
    using that by (auto simp: map_add_def fun_eq_iff split: option.splits)
  show ?thesis
    by (simp add: vault_register_def vault_view_def last view_filter del: map_of_append)
qed

lemma view_forget: "vault_view (fst (vault_forget v l)) = (vault_view v)(l := None)"
  by (simp add: vault_forget_def vault_view_def Let_def view_filter)

lemma forget_found: "snd (vault_forget v l) \<longleftrightarrow> l \<in> set (vault_labels v)"
  using filter_length_neq [of "\<lambda>e. ve_label e \<noteq> l" "v_entries v"]
  by (auto simp: vault_forget_def Let_def vault_labels_def)

lemma labels_unique_kept:
  assumes "labels_unique v"
  shows "labels_unique (vault_register v e)" "labels_unique (fst (vault_forget v l))"
  using assms by (auto simp: labels_unique_def vault_labels_def vault_register_def vault_forget_def
      Let_def distinct_map inj_on_def)

lemma vault_keys_kept [simp]:
  "v_key (vault_register v e) = v_key v" "v_key (fst (vault_forget v l)) = v_key v"
  by (simp_all add: vault_register_def vault_forget_def update_entries_def Let_def)

text \<open>
  \<^bold>\<open>The vault is a map from labels to entries.\<close> \<open>register\<close> updates it at the entry's label, \<open>forget\<close>
  removes the label and says whether it was there, and neither touches another label. Labels stay
  unique, the key is unchanged, and forgetting what was just registered under a new label gives
  the old entries back in their order.
\<close>

theorem vault_map_refinement:
  "vault_view (vault_register v e) = (vault_view v)(ve_label e \<mapsto> e)
   \<and> vault_view (fst (vault_forget v l)) = (vault_view v)(l := None)
   \<and> (snd (vault_forget v l) \<longleftrightarrow> vault_view v l \<noteq> None)
   \<and> (labels_unique v \<longrightarrow> labels_unique (vault_register v e) \<and> labels_unique (fst (vault_forget v l)))
   \<and> v_key (vault_register v e) = v_key v \<and> v_key (fst (vault_forget v l)) = v_key v
   \<and> (vault_view v (ve_label e) = None \<longrightarrow> fst (vault_forget (vault_register v e) (ve_label e)) = v)"
proof (intro conjI impI)
  show "snd (vault_forget v l) \<longleftrightarrow> vault_view v l \<noteq> None"
    by (simp add: forget_found view_None)
  show "fst (vault_forget (vault_register v e) (ve_label e)) = v" if "vault_view v (ve_label e) = None"
  proof -
    have "filter (\<lambda>x. ve_label x \<noteq> ve_label e) (v_entries v) = v_entries v"
      using that unfolding view_None vault_labels_def filter_id_conv set_map by (metis image_eqI)
    then show ?thesis
      by (simp add: vault_forget_def vault_register_def update_entries_def Let_def)
  qed
qed (simp_all add: view_register view_forget labels_unique_kept)

theorem vault_map_refinement_witness:
  "fst (vault_forget (vault_register sample_vault (hd (v_entries sample_vault)\<lparr>ve_label := ''new''\<rparr>)) ''new'')
     = sample_vault"
  using vault_map_refinement [of sample_vault "hd (v_entries sample_vault)\<lparr>ve_label := ''new''\<rparr>"]
  by (simp add: vault_view_def sample_vault_def)

theorem vault_open_fails_closed_witness:
  "\<exists>m' v. vault_open ref_crates vault_serde (StdVaultIo healthy_env) mem_backend sample_rng
      (abs_path [''v'', ''f'']) (sample_machine, mem_preloaded VaultKey (replicate 32 1))
      = Some ((m', mem_preloaded VaultKey (replicate 32 1)), v) \<and> v = Inl TruncatedFile"
proof -
  have key: "kb_fetch mem_backend (mem_preloaded VaultKey (replicate 32 1)) VaultKey
      = Inr (Some (replicate 32 1))"
    by (simp add: mem_backend_def mem_fetch_def mem_preloaded_def)
  have no_dir: "\<not> dir_exists (disk sample_machine) (abs_path [''v'', ''f''])"
    by (simp add: sample_machine_def dir_exists_def)
  have "content_at (disk sample_machine) (abs_path [''v'', ''f'']) = Some [1, 1]"
    by (simp add: sample_machine_def content_at_def file_at_def)
  then show ?thesis
    using vault_open_fails_closed [OF healthy_env_healthy sample_machine_ok(1) no_dir ref_digests(3) key refl,
        of vault_serde sample_rng]
    by auto
qed

end
