(* ===== verification/SessionFile.thy ===== *)
theory SessionFile
  imports Vault
begin

text \<open>
  \<open>crates/invisibool-engine/src/session_file.rs\<close>: the encrypted \<open>{fake -> real}\<close> file of
  \<open>--session\<close>, with its own magic, key label and mandatory expiry, and the two methods of the vault
  that call it. Times are Unix seconds, as \<open>u64\<close>.
\<close>

section \<open>Constants and the plaintext schema\<close>

definition SESSION_MAGIC :: "u8 list" where
  "SESSION_MAGIC = as_bytes ''INVISIBOOL_SESSN''"

definition SESSION_VERSION :: u8 where
  "SESSION_VERSION = 1"

definition SESSION_RESERVED :: "u8 list" where
  "SESSION_RESERVED = [0, 0, 0]"

definition SESSION_HKDF_INFO_AEAD :: "u8 list" where
  "SESSION_HKDF_INFO_AEAD = as_bytes ''invisibool-session-aead-v1''"

definition SESSION_TTL_SECS :: u64 where
  "SESSION_TTL_SECS = 30 * 60"

definition SESSION_FILE_MODE :: u32 where
  "SESSION_FILE_MODE = 0x180"

definition CURRENT_SESSION_SCHEMA_VERSION :: u32 where
  "CURRENT_SESSION_SCHEMA_VERSION = 1"

record SessionPair =
  sp_fake :: string
  sp_real :: string

record SessionContents =
  sn_schema_version :: u32
  sn_created_at :: u64
  sn_expires_at :: u64
  sn_entries :: "SessionPair list"

text \<open>\<open>u64::saturating_add\<close> and \<open>saturating_sub\<close>.\<close>

definition saturating_add :: "u64 \<Rightarrow> u64 \<Rightarrow> u64" where
  "saturating_add a b = (if unat a + unat b < 2 ^ 64 then a + b else - 1)"

definition saturating_sub :: "u64 \<Rightarrow> u64 \<Rightarrow> u64" where
  "saturating_sub a b = (if b \<le> a then a - b else 0)"

definition new_at :: "u64 \<Rightarrow> SessionContents" where
  "new_at now_epoch =
     \<lparr>sn_schema_version = CURRENT_SESSION_SCHEMA_VERSION, sn_created_at = now_epoch,
      sn_expires_at = saturating_add now_epoch SESSION_TTL_SECS, sn_entries = []\<rparr>"

datatype SessionFileError =
    SfIo io_error
  | SfAtomicWrite AtomicWriteError
  | NotASessionFile
  | SfUnsupportedVersion u8
  | SfTruncatedFile
  | SfAeadDecrypt
  | Expired u64
  | SfSerde string

section \<open>Operations\<close>

definition os_random_nonce :: "rng \<Rightarrow> u8 list run" where
  "os_random_nonce rng = (case rng NONCE_LEN of None \<Rightarrow> panic | Some bs \<Rightarrow> Some bs)"

definition derive_session_aead_key :: "crates \<Rightarrow> u8 list \<Rightarrow> u8 list run" where
  "derive_session_aead_key c vk = hkdf_sha256_expand c vk SESSION_HKDF_INFO_AEAD AEAD_KEY_LEN"

definition build_session_aad :: "u8 list" where
  "build_session_aad = SESSION_MAGIC @ [SESSION_VERSION] @ SESSION_RESERVED"

definition encrypt_session_bytes ::
  "crates \<Rightarrow> rng \<Rightarrow> u8 list \<Rightarrow> u8 list \<Rightarrow> (SessionFileError + u8 list) run" where
  "encrypt_session_bytes c rng vk plaintext =
     do {
       aead_key \<leftarrow> derive_session_aead_key c vk;
       nonce \<leftarrow> os_random_nonce rng;
       Some (case aead_encrypt c aead_key nonce build_session_aad plaintext of
               None \<Rightarrow> Inl SfAeadDecrypt
             | Some ciphertext \<Rightarrow> Inr (build_session_aad @ nonce @ ciphertext))
     }"

definition check_expiry :: "u64 \<Rightarrow> SessionContents \<Rightarrow> SessionFileError + SessionContents" where
  "check_expiry now_epoch contents =
     (if sn_expires_at contents \<le> now_epoch then Inl (Expired (sn_expires_at contents)) else Inr contents)"

definition decrypt_session_bytes ::
  "crates \<Rightarrow> SessionContents serde \<Rightarrow> u8 list \<Rightarrow> u8 list \<Rightarrow> u64
   \<Rightarrow> (SessionFileError + SessionContents) run" where
  "decrypt_session_bytes c sd vk file_bytes now_epoch =
     (if length file_bytes < AAD_LEN + NONCE_LEN + TAG_LEN then Some (Inl SfTruncatedFile)
      else if take 16 file_bytes \<noteq> SESSION_MAGIC then Some (Inl NotASessionFile)
      else if file_bytes ! 16 \<noteq> SESSION_VERSION then Some (Inl (SfUnsupportedVersion (file_bytes ! 16)))
      else
        (let aad = take AAD_LEN file_bytes;
             nonce = take NONCE_LEN (drop AAD_LEN file_bytes);
             ciphertext = drop (AAD_LEN + NONCE_LEN) file_bytes
         in do {
              aead_key \<leftarrow> derive_session_aead_key c vk;
              Some (case aead_decrypt c aead_key nonce aad ciphertext of
                      None \<Rightarrow> Inl SfAeadDecrypt
                    | Some plaintext \<Rightarrow>
                        bind_result (map_err SfSerde (json_from_slice sd plaintext)) (check_expiry now_epoch))
            }))"

definition load_session_file ::
  "crates \<Rightarrow> SessionContents serde \<Rightarrow> 'w VaultIo \<Rightarrow> 'w \<Rightarrow> path \<Rightarrow> u8 list \<Rightarrow> u64
   \<Rightarrow> (SessionFileError + SessionContents option) run" where
  "load_session_file c sd io w path vk now_epoch =
     (case vi_read_if_exists io w path of
        Inl e \<Rightarrow> Some (Inl (SfIo e))
      | Inr None \<Rightarrow> Some (Inr None)
      | Inr (Some bytes) \<Rightarrow>
          do {
            r \<leftarrow> decrypt_session_bytes c sd vk bytes now_epoch;
            Some (map_sum id Some r)
          })"

definition save_session_file ::
  "crates \<Rightarrow> SessionContents serde \<Rightarrow> 'w VaultIo \<Rightarrow> rng \<Rightarrow> 'w \<Rightarrow> path \<Rightarrow> u8 list \<Rightarrow> SessionContents
   \<Rightarrow> ('w \<times> (SessionFileError + unit)) run" where
  "save_session_file c sd io rng w path vk contents =
     (case json_to_vec sd contents of
        Inl e \<Rightarrow> Some (w, Inl (SfSerde e))
      | Inr plaintext \<Rightarrow>
          do {
            sealed \<leftarrow> encrypt_session_bytes c rng vk plaintext;
            (case sealed of
               Inl e \<Rightarrow> Some (w, Inl e)
             | Inr file_bytes \<Rightarrow>
                 Some (map_prod id (map_err SfAtomicWrite)
                   (vi_write_atomic io w path file_bytes SESSION_FILE_MODE)))
          })"

definition wipe_session_file :: "os_env \<Rightarrow> machine \<Rightarrow> path \<Rightarrow> machine \<times> (io_error + unit)" where
  "wipe_session_file env m path =
     (case sys_remove_file env m path of
        (m', Inr _) \<Rightarrow> (m', Inr ())
      | (m', Inl e) \<Rightarrow> if io_kind e = NotFound then (m', Inr ()) else (m', Inl e))"

definition vault_load_session_file ::
  "crates \<Rightarrow> SessionContents serde \<Rightarrow> Vault \<Rightarrow> 'w VaultIo \<Rightarrow> 'w \<Rightarrow> path \<Rightarrow> u64
   \<Rightarrow> (SessionFileError + SessionContents option) run" where
  "vault_load_session_file c sd v io w path now_epoch =
     load_session_file c sd io w path (v_key v) now_epoch"

definition vault_save_session_file ::
  "crates \<Rightarrow> SessionContents serde \<Rightarrow> Vault \<Rightarrow> 'w VaultIo \<Rightarrow> rng \<Rightarrow> 'w \<Rightarrow> path \<Rightarrow> SessionContents
   \<Rightarrow> ('w \<times> (SessionFileError + unit)) run" where
  "vault_save_session_file c sd v io rng w path contents =
     save_session_file c sd io rng w path (v_key v) contents"

section \<open>The sealed session file\<close>

lemma session_aad_length [simp]: "length build_session_aad = 20"
  by (simp add: build_session_aad_def SESSION_MAGIC_def SESSION_RESERVED_def)

lemma session_aad_head: "take 16 build_session_aad = SESSION_MAGIC" "build_session_aad ! 16 = SESSION_VERSION"
  by (simp_all add: build_session_aad_def SESSION_MAGIC_def as_bytes_def numeral_eq_Suc)

lemma magics_differ: "MAGIC \<noteq> SESSION_MAGIC" "HKDF_INFO_AEAD \<noteq> SESSION_HKDF_INFO_AEAD"
  by (simp_all add: MAGIC_def SESSION_MAGIC_def HKDF_INFO_AEAD_def SESSION_HKDF_INFO_AEAD_def)

lemma derive_session_aead_key_ok:
  assumes "hkdf_contract c"
  obtains k where "derive_session_aead_key c vk = Some k" "length k = 32"
  using hkdf_expand_ok [OF assms, of 32 vk SESSION_HKDF_INFO_AEAD]
  by (auto simp: derive_session_aead_key_def AEAD_KEY_LEN_def hkdf_max_len_def)

lemma encrypt_session_shape:
  assumes "sealing_ok c rng" "encrypt_session_bytes c rng vk plaintext = Some r"
  obtains k nonce ct where "r = Inr (build_session_aad @ nonce @ ct)"
    "derive_session_aead_key c vk = Some k" "length nonce = 24" "length ct = length plaintext + 16"
    "aead_decrypt c k nonce build_session_aad ct = Some plaintext"
proof -
  obtain k where k: "derive_session_aead_key c vk = Some k" "length k = 32"
    using assms(1) by (auto simp: sealing_ok_def elim: derive_session_aead_key_ok)
  obtain nonce where n: "os_random_nonce rng = Some nonce"
    using assms(2) k by (cases "os_random_nonce rng") (auto simp: encrypt_session_bytes_def)
  then have len: "length nonce = 24"
    using assms(1) by (auto simp: os_random_nonce_def sealing_ok_def rng_contract_def NONCE_LEN_def
        split: option.splits)
  obtain ct where "aead_encrypt c k nonce build_session_aad plaintext = Some ct"
      "length ct = length plaintext + 16" "aead_decrypt c k nonce build_session_aad ct = Some plaintext"
    using assms(1) k(2) len unfolding sealing_ok_def aead_contract_def by blast
  then show thesis
    using that [of nonce ct k] assms(2) k n len by (simp add: encrypt_session_bytes_def)
qed

lemma decrypt_encrypt_session:
  assumes "sealing_ok c rng" "encrypt_session_bytes c rng vk plaintext = Some r"
  shows "\<exists>bytes. r = Inr bytes \<and> decrypt_session_bytes c sd vk bytes now =
    Some (bind_result (map_err SfSerde (json_from_slice sd plaintext)) (check_expiry now))"
proof -
  obtain k nonce ct where e: "r = Inr (build_session_aad @ nonce @ ct)"
      "derive_session_aead_key c vk = Some k" "length nonce = 24" "length ct = length plaintext + 16"
      "aead_decrypt c k nonce build_session_aad ct = Some plaintext"
    using encrypt_session_shape [OF assms] .
  note parts = sealed_parts [OF session_aad_length e(3), of ct, unfolded session_aad_head]
  have "length (build_session_aad @ nonce @ ct) \<ge> 60"
    using e(3,4) by simp
  then have "decrypt_session_bytes c sd vk (build_session_aad @ nonce @ ct) now =
      Some (bind_result (map_err SfSerde (json_from_slice sd plaintext)) (check_expiry now))"
    using e(2,5)
    by (simp add: decrypt_session_bytes_def vault_lens parts del: take_append drop_append length_append)
  then show ?thesis
    using e(1) by blast
qed

context vault_io
begin

lemma session_save_content:
  assumes ok: "inv w" "sealing_ok c rng" and json: "serde_contract P sd" "P contents"
    and save: "save_session_file c sd io rng w p vk contents = Some (w', Inr ())"
  shows "inv w' \<and> (\<exists>bytes. content w' p = Some bytes
    \<and> (\<forall>now. decrypt_session_bytes c sd vk bytes now = Some (check_expiry now contents)))"
proof -
  obtain plain where plain: "json_to_vec sd contents = Inr plain"
      "json_from_slice sd plain = Inr contents"
    using json by (rule serde_contractD)
  obtain r1 where enc: "encrypt_session_bytes c rng vk plain = Some r1"
    using save plain(1) by (auto simp: save_session_file_def split: Option.bind_splits)
  obtain bytes where r1: "r1 = Inr bytes"
      and dec: "\<And>now. decrypt_session_bytes c sd vk bytes now = Some (check_expiry now contents)"
    using decrypt_encrypt_session [OF ok(2) enc, of sd] plain(2)
    by (auto simp: map_err_def bind_result_def)
  have wr: "vi_write_atomic io w p bytes SESSION_FILE_MODE = (w', Inr ())"
    using save plain(1) enc r1
    by (cases "vi_write_atomic io w p bytes SESSION_FILE_MODE")
      (auto simp: save_session_file_def map_err_def split: sum.splits)
  show ?thesis
    using write_inv [OF ok(1) wr] write_ok [OF ok(1) wr] dec by blast
qed

end

context std_io
begin

lemmas std_session_save_content = session_save_content

end

section \<open>A sample session file\<close>

lemma session_record_eta:
  "\<lparr>sp_fake = sp_fake e, sp_real = sp_real e\<rparr> = (e :: SessionPair)"
  "\<lparr>sn_schema_version = sn_schema_version x, sn_created_at = sn_created_at x,
    sn_expires_at = sn_expires_at x, sn_entries = sn_entries x\<rparr> = (x :: SessionContents)"
  by simp_all

definition session_serde :: "SessionContents serde" where
  "session_serde = codec_serde
     (put_via (\<lambda>x. (sn_schema_version x, sn_created_at x, sn_expires_at x,
          map (\<lambda>e. (sp_fake e, sp_real e)) (sn_entries x)))
        (put_pair put_word (put_pair put_word (put_pair put_word (put_list (put_pair put_str put_str))))))
     (get_via (\<lambda>(n, a, b, es). \<lparr>sn_schema_version = n, sn_created_at = a, sn_expires_at = b,
          sn_entries = map (\<lambda>(f, r). \<lparr>sp_fake = f, sp_real = r\<rparr>) es\<rparr>)
        (get_pair get_word (get_pair get_word (get_pair get_word (get_list (get_pair get_str get_str))))))"

lemma session_serde_contract: "serde_contract P session_serde"
  unfolding session_serde_def
  by (intro codec_serde_contract codec_intros) (simp_all add: comp_def session_record_eta)

definition sample_session :: SessionContents where
  "sample_session = (new_at 1000)\<lparr>sn_entries := [\<lparr>sp_fake = ''a@example.com'', sp_real = ''me@x.org''\<rparr>]\<rparr>"

lemma sample_session_times: "sn_expires_at sample_session = 2800" "sn_created_at sample_session = 1000"
  by (simp_all add: sample_session_def new_at_def saturating_add_def SESSION_TTL_SECS_def)

text \<open>Saving on the sample machine goes through.\<close>

lemma sample_machine_writes:
  "snd (std_write_atomic healthy_env sample_machine (abs_path [''v'', ''f'']) bs md) = Inr ()"
proof (rule write_atomic_ready)
  show "\<not> path_exists (disk sample_machine) (tmp_path healthy_env (abs_path [''v'', ''f'']))"
    by code_simp
qed (simp_all add: sample_machine_def dir_exists_def dir_of_def parent_of_def)

lemma sample_session_saved:
  "\<exists>m'. save_session_file ref_crates session_serde (StdVaultIo healthy_env) sample_rng sample_machine
     (abs_path [''v'', ''f'']) (replicate 32 1) sample_session = Some (m', Inr ())"
proof -
  obtain k where k: "derive_session_aead_key ref_crates (replicate 32 1) = Some k" "length k = 32"
    using ref_digests(3) by (rule derive_session_aead_key_ok)
  obtain plain where plain: "json_to_vec session_serde sample_session = Inr plain"
    using serde_contractD [OF session_serde_contract [of "\<lambda>_. True"] TrueI] by metis
  obtain ct where "aead_encrypt ref_crates k (replicate 24 3) build_session_aad plain = Some ct"
    using ref_aead k(2) unfolding aead_contract_def by (metis length_replicate)
  then have "encrypt_session_bytes ref_crates sample_rng (replicate 32 1) plain
      = Some (Inr (build_session_aad @ replicate 24 3 @ ct))"
    using k(1) by (simp add: encrypt_session_bytes_def os_random_nonce_def sample_rng_def NONCE_LEN_def)
  then show ?thesis
    using plain sample_machine_writes
    by (simp add: save_session_file_def StdVaultIo_def map_prod_def split_beta map_err_def)
qed

section \<open>Properties\<close>

text \<open>
  \<^bold>\<open>A session file keeps its contents until it expires.\<close> Whatever was saved under a key is
  loaded back under it at every time before the stored expiry; from the expiry on the load is
  refused with the expiry time, however often the file is read. An absent file is no error.
\<close>

theorem session_file_round_trip:
  assumes env: "healthy env" "fs_ok (disk m)" and seal: "sealing_ok c rng"
    and json: "serde_contract P sd" "P contents"
    and save: "save_session_file c sd (StdVaultIo env) rng m p vk contents = Some (m', Inr ())"
  shows "load_session_file c sd (StdVaultIo env) m' p vk now =
    Some (if sn_expires_at contents \<le> now then Inl (Expired (sn_expires_at contents)) else Inr (Some contents))"
proof -
  obtain bytes where ok: "fs_ok (disk m')" "content_at (disk m') p = Some bytes"
      "decrypt_session_bytes c sd vk bytes now = Some (check_expiry now contents)"
    using std_io.std_session_save_content [OF std_io.intro [OF healthy_honest [OF env(1)]] env(2) seal json save]
    by blast
  have "vi_read_if_exists (StdVaultIo env) m' p = Inr (Some bytes)"
    using healthy_read [OF env(1) ok(1,2)] by (simp add: StdVaultIo_def)
  then show ?thesis
    using ok(3) by (simp add: load_session_file_def check_expiry_def)
qed

theorem session_file_round_trip_witness:
  "\<exists>m'. load_session_file ref_crates session_serde (StdVaultIo healthy_env) m' (abs_path [''v'', ''f''])
       (replicate 32 1) 2799 = Some (Inr (Some sample_session))
     \<and> load_session_file ref_crates session_serde (StdVaultIo healthy_env) m' (abs_path [''v'', ''f''])
       (replicate 32 1) 2800 = Some (Inl (Expired 2800))"
proof -
  obtain m' where save: "save_session_file ref_crates session_serde (StdVaultIo healthy_env) sample_rng
      sample_machine (abs_path [''v'', ''f'']) (replicate 32 1) sample_session = Some (m', Inr ())"
    using sample_session_saved by blast
  note rt = session_file_round_trip [OF healthy_env_healthy sample_machine_ok(1) sample_sealing
      session_serde_contract [of "\<lambda>_. True"] TrueI save]
  show ?thesis
    using rt [of 2799] rt [of 2800] by (intro exI [of _ m']) (simp add: sample_session_times)
qed

text \<open>
  (C23) \<^bold>\<open>A vault file is never taken for a session file, nor the other way round.\<close> Under the same key,
  what one side encrypts is refused by the other with its wrong-kind error before any decryption,
  and the two sides ask HKDF for different labels.
\<close>

theorem session_vault_separation:
  assumes "sealing_ok c rng" "encrypt_vault c rng vk vault_plain = Some (Inr vault_file)"
    and "encrypt_session_bytes c rng vk session_plain = Some (Inr session_file)"
  shows "decrypt_session_bytes c sd vk vault_file now = Some (Inl NotASessionFile)
    \<and> decrypt_vault c vsd vk session_file = Some (Inl BadMagic)
    \<and> HKDF_INFO_AEAD \<noteq> SESSION_HKDF_INFO_AEAD"
proof -
  obtain n ct where v: "vault_file = vault_aad @ n @ ct" "length n = 24" "length ct = length vault_plain + 16"
    using assms(1,2) by (rule encrypt_vault_shape) auto
  obtain n' ct' where s: "session_file = build_session_aad @ n' @ ct'" "length n' = 24"
      "length ct' = length session_plain + 16"
    using assms(1,3) by (rule encrypt_session_shape) auto
  have "take 16 vault_file = MAGIC" "60 \<le> length vault_file"
    "take 16 session_file = SESSION_MAGIC" "60 \<le> length session_file"
    using v s by (simp_all add: vault_aad_head session_aad_head)
  then show ?thesis
    using magics_differ by (simp add: decrypt_session_bytes_def decrypt_vault_def vault_lens)
qed

theorem session_vault_separation_witness:
  "\<exists>vault_file. encrypt_vault ref_crates sample_rng (replicate 32 1) [5] = Some (Inr vault_file)
     \<and> decrypt_session_bytes ref_crates session_serde (replicate 32 1) vault_file 0 = Some (Inl NotASessionFile)"
proof -
  obtain k where k: "derive_aead_key ref_crates (replicate 32 1) = Some k" "length k = 32"
    using ref_digests(3) by (rule derive_aead_key_ok)
  obtain k' where k': "derive_session_aead_key ref_crates (replicate 32 1) = Some k'" "length k' = 32"
    using ref_digests(3) by (rule derive_session_aead_key_ok)
  have enc: "\<exists>f. encrypt_vault ref_crates sample_rng (replicate 32 1) [5] = Some (Inr f)"
    "\<exists>f. encrypt_session_bytes ref_crates sample_rng (replicate 32 1) [5] = Some (Inr f)"
    using k k' by (simp_all add: encrypt_vault_def encrypt_session_bytes_def os_random_def os_random_nonce_def
        sample_rng_def NONCE_LEN_def ref_crates_def)
  then show ?thesis
    using session_vault_separation [OF sample_sealing] by blast
qed

end
