(* ===== verification/Wire.thy ===== *)
theory Wire
  imports Serde Fs "HOL-Library.Countable"
begin

text \<open>
  \<open>crates/invisibool-control/src/error.rs\<close> and \<open>wire.rs\<close>: length-prefixed frames over a duplex stream,
  requests, responses and the one-shot serve loop. A stream is the bytes still to be read and the
  bytes written so far. \<open>serde_json\<close> is a record: \<open>to_vec\<close> and \<open>from_slice\<close> on values, and the derived
  parsers of the two typed shapes the sources read.
\<close>

section \<open>JSON values\<close>

text \<open>\<open>serde_json::Value\<close>; objects are association lists in key order, as its map keeps them.\<close>

datatype json =
    JNull
  | JBool bool
  | JNumber int
  | JFloat string
  | JString string
  | JArray "json list"
  | JObject "(string \<times> json) list"

definition json_get :: "json \<Rightarrow> string \<Rightarrow> json option" where
  "json_get v k = (case v of JObject kvs \<Rightarrow> map_of kvs k | _ \<Rightarrow> None)"

definition as_bool :: "json \<Rightarrow> bool option" where
  "as_bool v = (case v of JBool b \<Rightarrow> Some b | _ \<Rightarrow> None)"

definition as_str :: "json \<Rightarrow> string option" where
  "as_str v = (case v of JString s \<Rightarrow> Some s | _ \<Rightarrow> None)"

record StatusData =
  st_running :: bool
  st_pid :: u32
  st_uptime_secs :: u64
  st_version :: string

record SessionEntryWire =
  se_fake :: string
  se_entity_kind :: string

record SessionLsData =
  ls_entries :: "SessionEntryWire list"

record wire_json =
  value_to_vec :: "json \<Rightarrow> string + u8 list"
  value_from_slice :: "u8 list \<Rightarrow> string + json"
  raw_from_slice :: "u8 list \<Rightarrow> string + string"
  status_to_value :: "StatusData \<Rightarrow> json"
  status_from_value :: "json \<Rightarrow> string + StatusData"

text \<open>
  The documented behaviour: serialising a value cannot fail and parsing gives it back (\<open>P\<close> picks the
  values for which that is needed), the derived parser of a request reads its \<open>cmd\<close>, and the two
  derived conversions of the status body invert each other.
\<close>

definition wire_json_contract :: "(json \<Rightarrow> bool) \<Rightarrow> wire_json \<Rightarrow> bool" where
  "wire_json_contract P js \<longleftrightarrow>
     (\<forall>v. P v \<longrightarrow> (\<exists>bs. value_to_vec js v = Inr bs \<and> value_from_slice js bs = Inr v
        \<and> (\<forall>cmd. v = JObject [(''cmd'', JString cmd)] \<longrightarrow> raw_from_slice js bs = Inr cmd)))
   \<and> (\<forall>d. status_from_value js (status_to_value js d) = Inr d)"

section \<open>Errors\<close>

datatype ControlError =
    CIo io_error
  | FrameTooLarge nat nat
  | BadJson string
  | BadJsonResponse string
  | UnknownCmd string
  | PeerUidMismatch u32 u32
  | PeerRejectedForTest
  | SingleInstanceLockHeld path
  | StaleSocketCleanupRefused path io_error
  | SocketDirWrongMode path u32 u32
  | SocketFileWrongMode path u32 u32
  | NoSocketPath

section \<open>Requests and responses\<close>

definition MAX_FRAME_BYTES :: nat where
  "MAX_FRAME_BYTES = 64 * 1024"

datatype Request = Status | Pause | Resume | RestoreClipboard | SessionLs | SessionClear

definition wire_verb :: "Request \<Rightarrow> string" where
  "wire_verb r =
     (case r of
        Status \<Rightarrow> ''status''
      | Pause \<Rightarrow> ''pause''
      | Resume \<Rightarrow> ''resume''
      | RestoreClipboard \<Rightarrow> ''restore-clipboard''
      | SessionLs \<Rightarrow> ''session-ls''
      | SessionClear \<Rightarrow> ''session-clear'')"

definition from_wire_verb :: "string \<Rightarrow> Request option" where
  "from_wire_verb cmd =
     (if cmd = ''status'' then Some Status
      else if cmd = ''pause'' then Some Pause
      else if cmd = ''resume'' then Some Resume
      else if cmd = ''restore-clipboard'' then Some RestoreClipboard
      else if cmd = ''session-ls'' then Some SessionLs
      else if cmd = ''session-clear'' then Some SessionClear
      else None)"

definition request_to_bytes :: "wire_json \<Rightarrow> Request \<Rightarrow> u8 list run" where
  "request_to_bytes js r =
     (case value_to_vec js (JObject [(''cmd'', JString (wire_verb r))]) of
        Inl _ \<Rightarrow> panic
      | Inr bs \<Rightarrow> Some bs)"

definition request_from_bytes :: "wire_json \<Rightarrow> u8 list \<Rightarrow> ControlError + Request" where
  "request_from_bytes js bytes =
     bind_result (map_err BadJson (raw_from_slice js bytes)) (\<lambda>cmd.
       ok_or (from_wire_verb cmd) (UnknownCmd cmd))"

datatype WireErrorKind = NotImplemented | KFrameTooLarge | KBadJson | KUnknownCmd | KBadArgs | Internal

definition kind_as_str :: "WireErrorKind \<Rightarrow> string" where
  "kind_as_str k =
     (case k of
        NotImplemented \<Rightarrow> ''not-implemented''
      | KFrameTooLarge \<Rightarrow> ''frame-too-large''
      | KBadJson \<Rightarrow> ''bad-json''
      | KUnknownCmd \<Rightarrow> ''unknown-cmd''
      | KBadArgs \<Rightarrow> ''bad-args''
      | Internal \<Rightarrow> ''internal'')"

definition kind_from_wire_str :: "string \<Rightarrow> WireErrorKind option" where
  "kind_from_wire_str s =
     (if s = ''not-implemented'' then Some NotImplemented
      else if s = ''frame-too-large'' then Some KFrameTooLarge
      else if s = ''bad-json'' then Some KBadJson
      else if s = ''unknown-cmd'' then Some KUnknownCmd
      else if s = ''bad-args'' then Some KBadArgs
      else if s = ''internal'' then Some Internal
      else None)"

record ErrorPayload =
  ep_kind :: WireErrorKind
  ep_message :: string

datatype Response = ROk json | RErr ErrorPayload

definition response_err :: "WireErrorKind \<Rightarrow> string \<Rightarrow> Response" where
  "response_err k message = RErr \<lparr>ep_kind = k, ep_message = message\<rparr>"

definition response_value :: "Response \<Rightarrow> json" where
  "response_value r =
     (case r of
        ROk d \<Rightarrow> JObject [(''data'', d), (''ok'', JBool True)]
      | RErr payload \<Rightarrow>
          JObject [(''error'', JObject [(''kind'', JString (kind_as_str (ep_kind payload))),
                                        (''message'', JString (ep_message payload))]),
                   (''ok'', JBool False)])"

definition response_to_bytes :: "wire_json \<Rightarrow> Response \<Rightarrow> u8 list run" where
  "response_to_bytes js r =
     (case value_to_vec js (response_value r) of Inl _ \<Rightarrow> panic | Inr bs \<Rightarrow> Some bs)"

definition response_of_value :: "json \<Rightarrow> ControlError + Response" where
  "response_of_value value =
     (case Option.bind (json_get value ''ok'') as_bool of
        Some True \<Rightarrow>
          Inr (ROk (case json_get value ''data'' of Some d \<Rightarrow> d | None \<Rightarrow> JNull))
      | Some False \<Rightarrow>
          bind_result (ok_or (json_get value ''error'') (BadJsonResponse ''ok=false but no error object''))
            (\<lambda>err.
          bind_result (ok_or (Option.bind (json_get err ''kind'') as_str)
              (BadJsonResponse ''error.kind missing or not a string'')) (\<lambda>kind_str.
            Inr (RErr
              \<lparr>ep_kind = (case kind_from_wire_str kind_str of Some k \<Rightarrow> k | None \<Rightarrow> Internal),
               ep_message = (case Option.bind (json_get err ''message'') as_str of Some m \<Rightarrow> m | None \<Rightarrow> [])\<rparr>)))
      | None \<Rightarrow> Inl (BadJsonResponse ''response missing ok field''))"

definition response_from_bytes :: "wire_json \<Rightarrow> u8 list \<Rightarrow> ControlError + Response" where
  "response_from_bytes js bytes =
     bind_result (map_err BadJsonResponse (value_from_slice js bytes)) response_of_value"

definition into_ok :: "Response \<Rightarrow> ErrorPayload + json" where
  "into_ok r = (case r of ROk v \<Rightarrow> Inr v | RErr e \<Rightarrow> Inl e)"

section \<open>Frames\<close>

text \<open>
  A connection (flushing one does nothing): what the peer has sent and not yet been read, what was written, and an error that
  further reads (after the input is used up) or writes give, if any. Without a read error the end
  of the input is the end of the stream.
\<close>

record conn =
  c_in :: "u8 list"
  c_out :: "u8 list"
  c_read_fault :: "io_error option"
  c_write_fault :: "io_error option"

definition unexpected_eof :: io_error where
  "unexpected_eof = IoError OtherKind ''failed to fill whole buffer''"

definition read_exact :: "nat \<Rightarrow> conn \<Rightarrow> conn \<times> (io_error + u8 list)" where
  "read_exact n c =
     (if n \<le> length (c_in c) then (c\<lparr>c_in := drop n (c_in c)\<rparr>, Inr (take n (c_in c)))
      else (c\<lparr>c_in := []\<rparr>, Inl (case c_read_fault c of Some e \<Rightarrow> e | None \<Rightarrow> unexpected_eof)))"

definition write_all :: "u8 list \<Rightarrow> conn \<Rightarrow> conn \<times> (io_error + unit)" where
  "write_all bs c =
     (case c_write_fault c of
        Some e \<Rightarrow> (c, Inl e)
      | None \<Rightarrow> (c\<lparr>c_out := c_out c @ bs\<rparr>, Inr ()))"

definition from_be_bytes :: "u8 list \<Rightarrow> nat" where
  "from_be_bytes bs = foldl (\<lambda>v b. 256 * v + unat b) 0 bs"

definition to_be_bytes :: "nat \<Rightarrow> u8 list" where
  "to_be_bytes n =
     [word_of_nat (n div 16777216), word_of_nat (n div 65536), word_of_nat (n div 256), word_of_nat n]"

definition read_frame :: "conn \<Rightarrow> conn \<times> (ControlError + u8 list)" where
  "read_frame c =
     (case read_exact 4 c of
        (c, Inl e) \<Rightarrow> (c, Inl (CIo e))
      | (c, Inr lenbuf) \<Rightarrow>
          (let len = from_be_bytes lenbuf in
           if len > MAX_FRAME_BYTES then (c, Inl (FrameTooLarge len MAX_FRAME_BYTES))
           else map_prod id (map_err CIo) (read_exact len c)))"

definition write_frame :: "conn \<Rightarrow> u8 list \<Rightarrow> conn \<times> (ControlError + unit)" where
  "write_frame c body =
     (if length body > MAX_FRAME_BYTES then (c, Inl (FrameTooLarge (length body) MAX_FRAME_BYTES))
      else
        (case write_all (to_be_bytes (length body)) c of
           (c, Inl e) \<Rightarrow> (c, Inl (CIo e))
         | (c, Inr _) \<Rightarrow> map_prod id (map_err CIo) (write_all body c)))"

definition serve_response :: "wire_json \<Rightarrow> (Request \<Rightarrow> Response) \<Rightarrow> ControlError + u8 list \<Rightarrow> ControlError + Response" where
  "serve_response js handler frame =
     (case frame of
        Inr body \<Rightarrow>
          (case request_from_bytes js body of
             Inr req \<Rightarrow> Inr (handler req)
           | Inl (BadJson _) \<Rightarrow>
               Inr (response_err KBadJson ''request body was not valid JSON matching the cmd schema'')
           | Inl (UnknownCmd cmd) \<Rightarrow>
               Inr (response_err KUnknownCmd (''no handler for cmd `'' @ cmd @ ''`''))
           | Inl other \<Rightarrow> Inl other)
      | Inl (FrameTooLarge actual mx) \<Rightarrow>
          Inr (response_err KFrameTooLarge
            (''frame size '' @ show_nat actual @ '' exceeds max frame size '' @ show_nat mx))
      | Inl other \<Rightarrow> Inl other)"

definition serve_one ::
  "wire_json \<Rightarrow> (Request \<Rightarrow> Response) \<Rightarrow> conn \<Rightarrow> (conn \<times> (ControlError + unit)) run" where
  "serve_one js handler c =
     (case read_frame c of
        (c, frame) \<Rightarrow>
          (case serve_response js handler frame of
             Inl e \<Rightarrow> Some (c, Inl e)
           | Inr response \<Rightarrow>
               do {
                 body \<leftarrow> response_to_bytes js response;
                 Some (write_frame c body)
               }))"

text \<open>
  \<open>dial_once\<close>: \<open>connection\<close> is the outcome of connecting and setting the timeouts, \<open>peer\<close> answers what
  was written with the bytes that come back.
\<close>

definition dial_once ::
  "wire_json \<Rightarrow> io_error + conn \<Rightarrow> (u8 list \<Rightarrow> u8 list) \<Rightarrow> Request \<Rightarrow> (ControlError + Response) run" where
  "dial_once js connection peer request =
     (case connection of
        Inl e \<Rightarrow> Some (Inl (CIo e))
      | Inr c \<Rightarrow>
          do {
            body \<leftarrow> request_to_bytes js request;
            (case write_frame c body of
               (c, Inl e) \<Rightarrow> Some (Inl e)
             | (c, Inr _) \<Rightarrow>
                 (case read_frame (c\<lparr>c_in := c_in c @ peer (c_out c)\<rparr>) of
                    (_, Inl e) \<Rightarrow> Some (Inl e)
                  | (_, Inr reply) \<Rightarrow> Some (response_from_bytes js reply)))
          })"

section \<open>Frames and bytes\<close>

lemma from_be_bytes_to_be_bytes:
  assumes "n < 2 ^ 32"
  shows "from_be_bytes (to_be_bytes n) = n"
proof -
  define a where "a = n div 16777216"
  define b where "b = n div 65536 mod 256"
  define c where "c = n div 256 mod 256"
  define d where "d = n mod 256"
  have "n = ((a * 256 + b) * 256 + c) * 256 + d"
    unfolding a_def b_def c_def d_def using div_mult_mod_eq [of n 256] div_mult_mod_eq [of "n div 256" 256]
      div_mult_mod_eq [of "n div 65536" 256]
    by (simp add: div_mult2_eq [symmetric])
  moreover have "a < 256"
    using assms unfolding a_def by (simp add: less_mult_imp_div_less)
  ultimately show ?thesis
    by (simp add: from_be_bytes_def to_be_bytes_def unat_of_nat a_def b_def c_def d_def)
qed

lemma length_to_be_bytes [simp]: "length (to_be_bytes n) = 4"
  by (simp add: to_be_bytes_def)

definition frame :: "u8 list \<Rightarrow> u8 list" where
  "frame body = to_be_bytes (length body) @ body"

text \<open>Reading gives back the framed body and leaves the rest of the stream.\<close>

lemma read_frame_frame:
  assumes "length body \<le> MAX_FRAME_BYTES"
  shows "read_frame (c\<lparr>c_in := frame body @ rest\<rparr>) = (c\<lparr>c_in := rest\<rparr>, Inr body)"
proof -
  have "from_be_bytes (to_be_bytes (length body)) = length body"
    using assms by (intro from_be_bytes_to_be_bytes) (simp add: MAX_FRAME_BYTES_def)
  then show ?thesis
    using assms by (simp add: read_frame_def read_exact_def frame_def map_err_def)
qed

lemma write_frame_ok:
  assumes "c_write_fault c = None" "length body \<le> MAX_FRAME_BYTES"
  shows "write_frame c body = (c\<lparr>c_out := c_out c @ frame body\<rparr>, Inr ())"
  using assms by (simp add: write_frame_def write_all_def frame_def map_err_def)

lemma write_frame_too_large:
  "MAX_FRAME_BYTES < length body \<Longrightarrow> write_frame c body = (c, Inl (FrameTooLarge (length body) MAX_FRAME_BYTES))"
  by (simp add: write_frame_def)

lemma read_frame_declared_too_large:
  assumes "MAX_FRAME_BYTES < n" "n < 2 ^ 32"
  shows "read_frame (c\<lparr>c_in := to_be_bytes n @ rest\<rparr>) = (c\<lparr>c_in := rest\<rparr>, Inl (FrameTooLarge n MAX_FRAME_BYTES))"
  using assms by (simp add: read_frame_def read_exact_def from_be_bytes_to_be_bytes)

text \<open>A body is never longer than the cap, and exactly as long as declared.\<close>

lemma read_frame_bounded:
  "read_frame c = (c', Inr body) \<Longrightarrow>
     length body \<le> MAX_FRAME_BYTES \<and> length body = from_be_bytes (take 4 (c_in c))
     \<and> c_in c = take 4 (c_in c) @ body @ c_in c'"
  by (auto simp: read_frame_def read_exact_def Let_def map_err_def split: if_splits)
    (metis append_take_drop_id drop_drop add.commute)

section \<open>Round trips of requests and responses\<close>

lemma verb_round_trip: "from_wire_verb (wire_verb r) = Some r"
  by (cases r) (simp_all add: from_wire_verb_def wire_verb_def)

lemma kind_round_trip: "kind_from_wire_str (kind_as_str k) = Some k"
  by (cases k) (simp_all add: kind_from_wire_str_def kind_as_str_def)

lemma response_value_round_trip: "response_of_value (response_value r) = Inr r"
  by (cases r) (simp_all add: response_of_value_def response_value_def json_get_def as_bool_def as_str_def
      bind_result_def ok_or_def kind_round_trip)

definition encodable :: "wire_json \<Rightarrow> (json \<Rightarrow> bool) \<Rightarrow> bool" where
  "encodable js P \<longleftrightarrow> wire_json_contract P js
     \<and> (\<forall>r. P (JObject [(''cmd'', JString (wire_verb r))]))"

lemma request_round_trip:
  assumes "encodable js P"
  obtains bs where "request_to_bytes js r = Some bs" "request_from_bytes js bs = Inr r"
proof -
  obtain bs where "value_to_vec js (JObject [(''cmd'', JString (wire_verb r))]) = Inr bs"
      "raw_from_slice js bs = Inr (wire_verb r)"
    using assms unfolding encodable_def wire_json_contract_def by blast
  then show thesis
    using that by (simp add: request_to_bytes_def request_from_bytes_def map_err_def bind_result_def
        verb_round_trip ok_or_def)
qed

lemma response_round_trip:
  assumes "wire_json_contract P js" "P (response_value r)"
  obtains bs where "response_to_bytes js r = Some bs" "response_from_bytes js bs = Inr r"
proof -
  obtain bs where "value_to_vec js (response_value r) = Inr bs" "value_from_slice js bs = Inr (response_value r)"
    using assms unfolding wire_json_contract_def by blast
  then show thesis
    using that by (simp add: response_to_bytes_def response_from_bytes_def map_err_def bind_result_def
        response_value_round_trip)
qed

section \<open>A record that meets the contract\<close>

instance char :: countable
  by (rule countable_classI [of "of_char :: char \<Rightarrow> nat"]) simp

instance json :: countable
  by countable_datatype

definition cmd_of :: "json \<Rightarrow> string + string" where
  "cmd_of v =
     (case Option.bind (json_get v ''cmd'') as_str of
        None \<Rightarrow> Inl ''missing field `cmd`''
      | Some s \<Rightarrow> Inr s)"

definition num_of :: "json option \<Rightarrow> nat option" where
  "num_of v = (case v of Some (JNumber n) \<Rightarrow> Some (nat n) | _ \<Rightarrow> None)"

definition status_value :: "StatusData \<Rightarrow> json" where
  "status_value d = JObject
     [(''pid'', JNumber (int (unat (st_pid d)))), (''running'', JBool (st_running d)),
      (''uptime_secs'', JNumber (int (unat (st_uptime_secs d)))), (''version'', JString (st_version d))]"

definition value_status :: "json \<Rightarrow> string + StatusData" where
  "value_status v =
     (case (num_of (json_get v ''pid''), Option.bind (json_get v ''running'') as_bool,
            num_of (json_get v ''uptime_secs''), Option.bind (json_get v ''version'') as_str) of
        (Some p, Some r, Some u, Some s) \<Rightarrow>
          Inr \<lparr>st_running = r, st_pid = word_of_nat p, st_uptime_secs = word_of_nat u, st_version = s\<rparr>
      | _ \<Rightarrow> Inl ''bad status'')"

text \<open>Two values with short codes, every other one by its number.\<close>

definition status_request :: json where
  "status_request = JObject [(''cmd'', JString ''status'')]"

definition null_response :: json where
  "null_response = response_value (ROk JNull)"

definition json_code :: "json \<Rightarrow> nat" where
  "json_code v = (if v = status_request then 0 else if v = null_response then 1 else Suc (Suc (to_nat v)))"

definition code_json :: "nat \<Rightarrow> json" where
  "code_json n = (if n = 0 then status_request else if n = 1 then null_response else from_nat (n - 2))"

lemma code_json_code: "code_json (json_code v) = v"
  by (simp add: code_json_def json_code_def)

definition counting_json :: wire_json where
  "counting_json =
     (let sd = codec_serde (put_via json_code put_nat) (get_via code_json get_nat) in
      \<lparr>value_to_vec = json_to_vec sd, value_from_slice = json_from_slice sd,
       raw_from_slice = (\<lambda>bs. bind_result (json_from_slice sd bs) cmd_of),
       status_to_value = status_value, status_from_value = value_status\<rparr>)"

lemma counting_json_contract: "wire_json_contract P counting_json"
proof -
  define sd :: "json serde" where "sd = codec_serde (put_via json_code put_nat) (get_via code_json get_nat)"
  have codec: "\<exists>bs. json_to_vec sd v = Inr bs \<and> json_from_slice sd bs = Inr v" for v
    using codec_serde_contract [of "put_via json_code put_nat" "get_via code_json get_nat" "\<lambda>_. True"]
    unfolding sd_def serde_contract_def by (simp add: codec_via codec_nat code_json_code)
  have "value_status (status_value d) = Inr d" for d
    by (simp add: value_status_def status_value_def json_get_def num_of_def as_bool_def as_str_def)
  moreover have "cmd_of (JObject [(''cmd'', JString s)]) = Inr s" for s
    by (simp add: cmd_of_def json_get_def as_str_def)
  ultimately show ?thesis
    using codec by (simp add: wire_json_contract_def counting_json_def sd_def [symmetric] Let_def bind_result_def)
      (metis sum.simps(6))
qed

lemma counting_json_bytes:
  "request_to_bytes counting_json Status = Some [0]" "response_to_bytes counting_json (ROk JNull) = Some [1, 0]"
proof -
  have "null_response \<noteq> status_request"
    by (simp add: null_response_def status_request_def response_value_def)
  then show "request_to_bytes counting_json Status = Some [0]" "response_to_bytes counting_json (ROk JNull) = Some [1, 0]"
    by (simp_all add: request_to_bytes_def response_to_bytes_def counting_json_def codec_serde_def put_via_def
        put_nat_def json_code_def null_response_def [symmetric] wire_verb_def status_request_def [symmetric])
qed

lemma counting_json_encodable: "encodable counting_json (\<lambda>_. True)"
  by (simp add: encodable_def counting_json_contract)

definition fresh_conn :: "u8 list \<Rightarrow> conn" where
  "fresh_conn inp = \<lparr>c_in = inp, c_out = [], c_read_fault = None, c_write_fault = None\<rparr>"

section \<open>Properties\<close>

lemma serve_valid_request:
  assumes enc: "request_from_bytes js req_bytes = Inr req" "length req_bytes \<le> MAX_FRAME_BYTES"
    and resp: "response_to_bytes js (handler req) = Some bs"
  shows "serve_one js handler (c\<lparr>c_in := frame req_bytes @ rest\<rparr>) = Some (write_frame (c\<lparr>c_in := rest\<rparr>) bs)"
  using assms read_frame_frame [OF enc(2), where c = c and rest = rest] by (simp add: serve_one_def serve_response_def)

text \<open>
  (C29) \<^bold>\<open>A control exchange delivers the handler's answer.\<close> When a client dials a server that runs
  \<open>serve_one\<close> on what it reads, the client gets exactly the response the handler computed for its
  request, provided both encodings fit in a frame; a response that does not fit is not sent and the
  client sees the end of the stream. Neither side panics.
\<close>

theorem control_exchange:
  assumes enc: "encodable js P" "P (response_value (handler req))"
    and req: "request_to_bytes js req = Some req_bytes" "length req_bytes \<le> MAX_FRAME_BYTES"
    and resp: "response_to_bytes js (handler req) = Some resp_bytes"
    and peer: "\<And>inp. peer inp = (case serve_one js handler (fresh_conn inp) of Some (c, _) \<Rightarrow> c_out c | None \<Rightarrow> [])"
  shows "dial_once js (Inr (fresh_conn [])) peer req =
    Some (if length resp_bytes \<le> MAX_FRAME_BYTES then Inr (handler req) else Inl (CIo unexpected_eof))"
proof -
  obtain rb where rb: "request_to_bytes js req = Some rb" "request_from_bytes js rb = Inr req"
    using request_round_trip [OF enc(1)] .
  then have parse: "request_from_bytes js req_bytes = Inr req"
    using req(1) by simp
  obtain pb where pb: "response_to_bytes js (handler req) = Some pb" "response_from_bytes js pb = Inr (handler req)"
    using response_round_trip [where P = P and js = js and r = "handler req"] enc by (auto simp: encodable_def)
  then have decode: "response_from_bytes js resp_bytes = Inr (handler req)"
    using resp by simp
  have served: "serve_one js handler (fresh_conn (frame req_bytes)) = Some (write_frame (fresh_conn []) resp_bytes)"
    using serve_valid_request [where handler = handler and c = "fresh_conn []" and rest = "[]", OF parse req(2) resp] by (simp add: fresh_conn_def)
  have sent: "write_frame (fresh_conn []) req_bytes = ((fresh_conn [])\<lparr>c_out := frame req_bytes\<rparr>, Inr ())"
    using req(2) by (simp add: write_frame_ok fresh_conn_def)
  show ?thesis
  proof (cases "length resp_bytes \<le> MAX_FRAME_BYTES")
    case True
    have "peer (frame req_bytes) = frame resp_bytes"
      using True served by (simp add: peer write_frame_ok fresh_conn_def)
    then show ?thesis
      using True sent req(1) decode read_frame_frame [OF True, where c = "(fresh_conn [])\<lparr>c_out := frame req_bytes\<rparr>" and rest = "[]"]
      by (simp add: dial_once_def fresh_conn_def)
  next
    case False
    then have "peer (frame req_bytes) = []"
      using served by (simp add: peer write_frame_too_large fresh_conn_def)
    then show ?thesis
      using False sent req(1) by (simp add: dial_once_def fresh_conn_def read_frame_def read_exact_def)
  qed
qed

theorem control_exchange_witness:
  "dial_once counting_json (Inr (fresh_conn []))
     (\<lambda>inp. case serve_one counting_json (\<lambda>_. ROk JNull) (fresh_conn inp) of Some (c, _) \<Rightarrow> c_out c | None \<Rightarrow> [])
     Status = Some (Inr (ROk JNull))"
  using control_exchange [where handler = "\<lambda>_. ROk JNull", OF counting_json_encodable TrueI
      counting_json_bytes(1) _ counting_json_bytes(2) refl]
  by (simp add: MAX_FRAME_BYTES_def)

text \<open>
  \<^bold>\<open>The server answers every complete frame.\<close> A frame whose declared length is above the cap is
  answered with \<open>frame-too-large\<close> and its body is not read; a body that is not a request is answered
  with \<open>bad-json\<close>, an unknown command with \<open>unknown-cmd\<close>, a known one by the handler. In each case
  exactly one frame is written, and it decodes to that response.
\<close>

theorem serve_one_answers:
  assumes js: "wire_json_contract P js" "P (response_value r)" and w: "c_write_fault c = None"
    and inp: "c_in c = to_be_bytes n @ rest" "n < 2 ^ 32" "n \<le> MAX_FRAME_BYTES \<longrightarrow> n \<le> length rest"
    and r: "r = (if MAX_FRAME_BYTES < n then
          response_err KFrameTooLarge (''frame size '' @ show_nat n @ '' exceeds max frame size '' @ show_nat MAX_FRAME_BYTES)
        else (case raw_from_slice js (take n rest) of
            Inl _ \<Rightarrow> response_err KBadJson ''request body was not valid JSON matching the cmd schema''
          | Inr cmd \<Rightarrow>
              (case from_wire_verb cmd of
                 None \<Rightarrow> response_err KUnknownCmd (''no handler for cmd `'' @ cmd @ ''`'')
               | Some req \<Rightarrow> handler req)))"
    and bs: "response_to_bytes js r = Some bs" "length bs \<le> MAX_FRAME_BYTES"
  shows "serve_one js handler c =
      Some (c\<lparr>c_in := (if MAX_FRAME_BYTES < n then rest else drop n rest), c_out := c_out c @ frame bs\<rparr>, Inr ())
    \<and> response_from_bytes js bs = Inr r"
proof
  obtain bs' where "response_to_bytes js r = Some bs'" "response_from_bytes js bs' = Inr r"
    using js by (rule response_round_trip)
  then show "response_from_bytes js bs = Inr r"
    using bs(1) by simp
  have c: "c = c\<lparr>c_in := to_be_bytes n @ rest\<rparr>"
    using inp(1) by simp
  show "serve_one js handler c =
      Some (c\<lparr>c_in := (if MAX_FRAME_BYTES < n then rest else drop n rest), c_out := c_out c @ frame bs\<rparr>, Inr ())"
  proof (cases "MAX_FRAME_BYTES < n")
    case True
    have "read_frame c = (c\<lparr>c_in := rest\<rparr>, Inl (FrameTooLarge n MAX_FRAME_BYTES))"
      using read_frame_declared_too_large [OF True inp(2), where c = c and rest = rest] c by simp
    then show ?thesis
      using True r bs w by (simp add: serve_one_def serve_response_def write_frame_ok)
  next
    case False
    have body: "length (take n rest) = n"
      using False inp(3) by simp
    have "read_frame (c\<lparr>c_in := frame (take n rest) @ drop n rest\<rparr>) = (c\<lparr>c_in := drop n rest\<rparr>, Inr (take n rest))"
      by (rule read_frame_frame) (use False in simp)
    moreover have "frame (take n rest) @ drop n rest = to_be_bytes n @ rest"
      unfolding frame_def body by simp
    ultimately have "read_frame c = (c\<lparr>c_in := drop n rest\<rparr>, Inr (take n rest))"
      using c by simp
    moreover have "serve_response js handler (Inr (take n rest)) = Inr r"
      using False r
      by (auto simp: serve_response_def request_from_bytes_def bind_result_def map_err_def ok_or_def
          split: sum.splits option.splits)
    ultimately show ?thesis
      using False bs w by (simp add: serve_one_def write_frame_ok)
  qed
qed

theorem serve_one_answers_witness:
  "serve_one counting_json (\<lambda>_. ROk JNull) (fresh_conn [0, 0, 0, 1, 0, 9])
     = Some ((fresh_conn [9])\<lparr>c_out := frame [1, 0]\<rparr>, Inr ())"
proof -
  have raw: "raw_from_slice counting_json [0] = Inr ''status''"
    by (simp add: counting_json_def codec_serde_def get_via_def code_json_def status_request_def cmd_of_def
        json_get_def as_str_def bind_result_def)
  show ?thesis
    using serve_one_answers [where r = "ROk JNull" and c = "fresh_conn [0, 0, 0, 1, 0, 9]" and n = 1
        and rest = "[0, 9]" and handler = "\<lambda>_. ROk JNull",
        OF counting_json_contract [of "\<lambda>_. True"] TrueI _ _ _ _ _ counting_json_bytes(2)] raw
    by (simp add: fresh_conn_def to_be_bytes_def MAX_FRAME_BYTES_def from_wire_verb_def)
qed

end
