(* ===== verification/Paths.thy ===== *)
theory Paths
  imports Wire
begin

text \<open>
  Resolution of the default locations from environment variables: the vault
  (\<open>vault/path.rs\<close>), the control socket and lock (\<open>invisibool-control/src/path.rs\<close>), and the display
  server (\<open>invisibool-clipboard/src/display_server.rs\<close>). An environment variable is a byte string
  or absent. Paths are those of a Unix build, on which the helpers of all platforms compile.
\<close>

section \<open>The vault\<close>

definition join_str :: "path \<Rightarrow> string \<Rightarrow> path" where
  "join_str p s = path_join p (path_of s)"

definition linux_vault_dir :: "string option \<Rightarrow> string option \<Rightarrow> path option" where
  "linux_vault_dir xdg_data_home home =
     (case xdg_data_home of
        Some xdg \<Rightarrow>
          if absolute (path_of xdg) then Some (join_str (path_of xdg) ''invisibool'')
          else map_option (\<lambda>h. join_str (join_str (join_str (path_of h) ''.local'') ''share'') ''invisibool'') home
      | None \<Rightarrow>
          map_option (\<lambda>h. join_str (join_str (join_str (path_of h) ''.local'') ''share'') ''invisibool'') home)"

definition macos_vault_dir :: "string option \<Rightarrow> path option" where
  "macos_vault_dir home =
     map_option (\<lambda>h. join_str (join_str (join_str (path_of h) ''Library'') ''Application Support'') ''invisibool'') home"

definition windows_vault_dir :: "string option \<Rightarrow> string option \<Rightarrow> path option" where
  "windows_vault_dir local_app_data user_profile =
     (case local_app_data of
        Some l \<Rightarrow> Some (join_str (path_of l) ''invisibool'')
      | None \<Rightarrow>
          map_option (\<lambda>u. join_str (join_str (join_str (path_of u) ''AppData'') ''Local'') ''invisibool'') user_profile)"

type_synonym env_vars = "string \<Rightarrow> string option"

definition default_vault_dir :: "env_vars \<Rightarrow> path option" where
  "default_vault_dir vars = linux_vault_dir (vars ''XDG_DATA_HOME'') (vars ''HOME'')"

definition default_vault_path :: "env_vars \<Rightarrow> path option" where
  "default_vault_path vars = map_option (\<lambda>d. join_str d ''vault.bin'') (default_vault_dir vars)"

section \<open>The control channel\<close>

record ControlPaths =
  socket :: path
  lock :: path

definition SOCKET_FILENAME :: string where
  "SOCKET_FILENAME = ''ctl.sock''"

definition LOCK_FILENAME :: string where
  "LOCK_FILENAME = ''ctl.lock''"

definition APP_SUBDIR :: string where
  "APP_SUBDIR = ''invisibool''"

definition usable :: "string option \<Rightarrow> path option" where
  "usable v =
     (case v of
        None \<Rightarrow> None
      | Some s \<Rightarrow> if s = [] \<or> \<not> absolute (path_of s) then None else Some (path_of s))"

definition pick_base_dir :: "string option \<Rightarrow> string option \<Rightarrow> string option \<Rightarrow> ControlError + path" where
  "pick_base_dir xdg_runtime_dir xdg_state_home home =
     (case usable xdg_runtime_dir of
        Some runtime \<Rightarrow> Inr runtime
      | None \<Rightarrow>
          (case usable xdg_state_home of
             Some state \<Rightarrow> Inr state
           | None \<Rightarrow>
               (case usable home of
                  Some h \<Rightarrow> Inr (join_str (join_str h ''.local'') ''state'')
                | None \<Rightarrow> Inl NoSocketPath)))"

definition resolve_from ::
  "string option \<Rightarrow> string option \<Rightarrow> string option \<Rightarrow> ControlError + ControlPaths" where
  "resolve_from xdg_runtime_dir xdg_state_home home =
     bind_result (pick_base_dir xdg_runtime_dir xdg_state_home home) (\<lambda>base.
       let app_dir = join_str base APP_SUBDIR in
       Inr \<lparr>socket = join_str app_dir SOCKET_FILENAME, lock = join_str app_dir LOCK_FILENAME\<rparr>)"

definition default_control_paths :: "env_vars \<Rightarrow> ControlError + ControlPaths" where
  "default_control_paths vars =
     resolve_from (vars ''XDG_RUNTIME_DIR'') (vars ''XDG_STATE_HOME'') (vars ''HOME'')"

section \<open>The display server\<close>

datatype DisplayServer = X11 | Wayland | Headless | NativeDesktop

definition non_empty :: "string option \<Rightarrow> bool" where
  "non_empty v = (case v of None \<Rightarrow> False | Some s \<Rightarrow> s \<noteq> [])"

definition detect_display_server_from ::
  "string option \<Rightarrow> string option \<Rightarrow> string option \<Rightarrow> DisplayServer" where
  "detect_display_server_from wayland_display xdg_session_type display =
     (if non_empty wayland_display then Wayland
      else if xdg_session_type = Some ''wayland'' then Wayland
      else if non_empty display then X11
      else if xdg_session_type = Some ''x11'' then X11
      else Headless)"

definition detect_display_server :: "env_vars \<Rightarrow> DisplayServer" where
  "detect_display_server vars =
     detect_display_server_from (vars ''WAYLAND_DISPLAY'') (vars ''XDG_SESSION_TYPE'') (vars ''DISPLAY'')"

section \<open>Facts\<close>

lemma join_component:
  assumes "path_of s = rel [s]" "s \<noteq> ''.''"
  shows "join_str p s = p\<lparr>comps := comps p @ [s]\<rparr>"
  using assms by (simp add: join_str_def path_join_def)

lemma plain_components:
  "path_of ''invisibool'' = rel [''invisibool'']" "path_of ''.local'' = rel [''.local'']"
  "path_of ''share'' = rel [''share'']" "path_of ''state'' = rel [''state'']"
  "path_of ''vault.bin'' = rel [''vault.bin'']" "path_of ''ctl.sock'' = rel [''ctl.sock'']"
  "path_of ''ctl.lock'' = rel [''ctl.lock'']"
  by (simp_all add: path_of_def)

lemmas joins = plain_components [THEN join_component, simplified]

lemma usable_absolute: "usable v = Some p \<Longrightarrow> absolute p"
  by (auto simp: usable_def split: option.splits if_splits)

lemma pick_base_dir_absolute: "pick_base_dir a b c = Inr p \<Longrightarrow> absolute p"
  by (auto simp: pick_base_dir_def joins dest: usable_absolute split: option.splits)

text \<open>
  \<^bold>\<open>Where the socket, the lock and the vault are.\<close> The socket and the lock are two different
  files of one \<open>invisibool\<close> directory, always under an absolute base; relative or empty variables
  count as unset, and there is no path exactly when none of the three is usable. The default vault
  is under an absolute \<open>XDG_DATA_HOME\<close> if there is one and under \<open>HOME\<close> otherwise, and it is absolute
  unless \<open>HOME\<close> is relative, which is not checked there.
\<close>

theorem default_locations:
  "(case resolve_from r s h of
      Inr cp \<Rightarrow> absolute (socket cp) \<and> absolute (lock cp) \<and> parent_of (socket cp) = parent_of (lock cp)
        \<and> socket cp \<noteq> lock cp
        \<and> (\<exists>base. pick_base_dir r s h = Inr base \<and> parent_of (socket cp) = Some (join_str base APP_SUBDIR))
    | Inl e \<Rightarrow> e = NoSocketPath \<and> usable r = None \<and> usable s = None \<and> usable h = None)
   \<and> (case default_vault_path vars of
        None \<Rightarrow> vars ''HOME'' = None \<and> (\<forall>x. vars ''XDG_DATA_HOME'' = Some x \<longrightarrow> \<not> absolute (path_of x))
      | Some p \<Rightarrow> file_name p = Some ''vault.bin''
          \<and> ((\<exists>x. vars ''XDG_DATA_HOME'' = Some x \<and> absolute (path_of x) \<and> absolute p
                \<and> comps p = comps (path_of x) @ [''invisibool'', ''vault.bin''])
             \<or> (\<exists>x. vars ''HOME'' = Some x \<and> absolute p = absolute (path_of x)
                \<and> comps p = comps (path_of x) @ [''.local'', ''share'', ''invisibool'', ''vault.bin''])))"
proof
  show "case resolve_from r s h of
      Inr cp \<Rightarrow> absolute (socket cp) \<and> absolute (lock cp) \<and> parent_of (socket cp) = parent_of (lock cp)
        \<and> socket cp \<noteq> lock cp
        \<and> (\<exists>base. pick_base_dir r s h = Inr base \<and> parent_of (socket cp) = Some (join_str base APP_SUBDIR))
    | Inl e \<Rightarrow> e = NoSocketPath \<and> usable r = None \<and> usable s = None \<and> usable h = None"
  proof (cases "pick_base_dir r s h")
    case (Inl e)
    then show ?thesis
      by (auto simp: resolve_from_def bind_result_def pick_base_dir_def split: option.splits)
  next
    case (Inr base)
    then show ?thesis
      using pick_base_dir_absolute [OF Inr]
      by (auto simp: resolve_from_def bind_result_def joins APP_SUBDIR_def SOCKET_FILENAME_def
          LOCK_FILENAME_def Let_def parent_of_def butlast_append dest: arg_cong [where f = comps])
  qed
qed (auto simp: default_vault_path_def default_vault_dir_def linux_vault_dir_def joins file_name_def
    split: option.splits if_splits)

theorem default_locations_witness:
  "resolve_from (Some ''run'') None (Some ''/h'') = Inr
     \<lparr>socket = abs_path [''h'', ''.local'', ''state'', ''invisibool'', ''ctl.sock''],
      lock = abs_path [''h'', ''.local'', ''state'', ''invisibool'', ''ctl.lock'']\<rparr>
   \<and> absolute (socket (projr (resolve_from (Some ''run'') None (Some ''/h''))))
   \<and> default_vault_path (\<lambda>v. None) = None"
proof -
  have e: "resolve_from (Some ''run'') None (Some ''/h'') = Inr
     \<lparr>socket = abs_path [''h'', ''.local'', ''state'', ''invisibool'', ''ctl.sock''],
      lock = abs_path [''h'', ''.local'', ''state'', ''invisibool'', ''ctl.lock'']\<rparr>"
    by code_simp
  moreover have "default_vault_path (\<lambda>v. None) = None"
    by code_simp
  ultimately show ?thesis
    using default_locations [of "Some ''run''" None "Some ''/h''" "\<lambda>v. None"] by simp
qed

end
