(* ===== verification/Control.thy ===== *)
theory Control
  imports Paths
begin

text \<open>
  \<open>invisibool-control/src/transport.rs\<close>, \<open>peer.rs\<close> and the socket half of \<open>lifecycle.rs\<close>: the private
  parent directory, binding the socket, verifying peers and clearing a stale socket. The system
  calls outside the file system (\<open>connect\<close> of the probe, \<open>SO_PEERCRED\<close>) are arguments: their outcome.
\<close>

section \<open>Constants\<close>

definition REQUIRED_PARENT_MODE :: u32 where
  "REQUIRED_PARENT_MODE = 0x1C0"

definition REQUIRED_SOCKET_MODE :: u32 where
  "REQUIRED_SOCKET_MODE = 0x180"

definition DEFAULT_TIMEOUT_SECS :: nat where
  "DEFAULT_TIMEOUT_SECS = 5"

definition LISTEN_BACKLOG :: nat where
  "LISTEN_BACKLOG = 16"

section \<open>The parent directory\<close>

definition private_parent :: "string \<Rightarrow> os_env \<Rightarrow> machine \<Rightarrow> path \<Rightarrow> machine \<times> (ControlError + unit)" where
  "private_parent no_parent env m p =
     (case parent_of p of
        None \<Rightarrow> (m, Inl (CIo (IoError OtherKind no_parent)))
      | Some parent \<Rightarrow>
          (case sys_stat_mode env m parent of
             Inr md \<Rightarrow>
               (let actual = and md 0x1FF in
                if actual \<noteq> REQUIRED_PARENT_MODE
                then (m, Inl (SocketDirWrongMode parent actual REQUIRED_PARENT_MODE)) else (m, Inr ()))
           | Inl e \<Rightarrow>
               if io_kind e = NotFound then
                 (case create_dir_all env m parent of
                    (m1, Inl e1) \<Rightarrow> (m1, Inl (CIo e1))
                  | (m1, Inr _) \<Rightarrow>
                      map_prod id (map_err CIo) (sys_chmod env m1 parent REQUIRED_PARENT_MODE))
               else (m, Inl (CIo e))))"

definition prepare_parent_dir_0700 :: "os_env \<Rightarrow> machine \<Rightarrow> path \<Rightarrow> machine \<times> (ControlError + unit)" where
  "prepare_parent_dir_0700 = private_parent ''path has no parent''"

definition prepare_parent_dir :: "os_env \<Rightarrow> machine \<Rightarrow> path \<Rightarrow> machine \<times> (ControlError + unit)" where
  "prepare_parent_dir = private_parent ''socket path has no parent''"

section \<open>Binding\<close>

definition set_socket_mode :: "os_env \<Rightarrow> machine \<Rightarrow> path \<Rightarrow> machine \<times> (ControlError + unit)" where
  "set_socket_mode env m socket_path =
     (case sys_chmod env m socket_path REQUIRED_SOCKET_MODE of
        (m1, Inl e) \<Rightarrow> (m1, Inl (CIo e))
      | (m1, Inr _) \<Rightarrow>
          (case sys_stat_mode env m1 socket_path of
             Inl e \<Rightarrow> (m1, Inl (CIo e))
           | Inr md \<Rightarrow>
               (let actual = and md 0x1FF in
                if actual \<noteq> REQUIRED_SOCKET_MODE
                then (m1, Inl (SocketFileWrongMode socket_path actual REQUIRED_SOCKET_MODE))
                else (m1, Inr ()))))"

record UnixServer =
  srv_socket_path :: path
  srv_backlog :: nat
  srv_nonblocking :: bool

definition set_listen_backlog :: "os_env \<Rightarrow> path \<Rightarrow> nat \<Rightarrow> ControlError + UnixServer" where
  "set_listen_backlog env p backlog =
     (case fault env (CallListen p) of
        Some e \<Rightarrow> Inl (CIo e)
      | None \<Rightarrow> Inr \<lparr>srv_socket_path = p, srv_backlog = backlog, srv_nonblocking = False\<rparr>)"

definition server_bind :: "os_env \<Rightarrow> machine \<Rightarrow> path \<Rightarrow> machine \<times> (ControlError + UnixServer)" where
  "server_bind env m socket_path =
     (case prepare_parent_dir env m socket_path of
        (m1, Inl e) \<Rightarrow> (m1, Inl e)
      | (m1, Inr _) \<Rightarrow>
      (case sys_bind env m1 socket_path of
        (m2, Inl e) \<Rightarrow> (m2, Inl (CIo e))
      | (m2, Inr _) \<Rightarrow>
      (case set_socket_mode env m2 socket_path of
        (m3, Inl e) \<Rightarrow> (m3, Inl e)
      | (m3, Inr _) \<Rightarrow> (m3, set_listen_backlog env socket_path LISTEN_BACKLOG))))"

text \<open>The argument of the next two is the outcome of the system call.\<close>

definition server_set_nonblocking :: "UnixServer \<Rightarrow> bool \<Rightarrow> io_error + unit \<Rightarrow> UnixServer \<times> (ControlError + unit)" where
  "server_set_nonblocking srv nonblocking r =
     (case r of
        Inl e \<Rightarrow> (srv, Inl (CIo e))
      | Inr _ \<Rightarrow> (srv\<lparr>srv_nonblocking := nonblocking\<rparr>, Inr ()))"

record 'c DuplexPair =
  dp_client :: 'c
  dp_server :: 'c

definition duplex_pair_new :: "io_error + 'c \<times> 'c \<Rightarrow> 'c DuplexPair run" where
  "duplex_pair_new pair =
     (case pair of Inl _ \<Rightarrow> panic | Inr (client, server) \<Rightarrow> Some \<lparr>dp_client = client, dp_server = server\<rparr>)"

definition in_memory_transport_pair :: "io_error + 'c \<times> 'c \<Rightarrow> 'c DuplexPair run" where
  "in_memory_transport_pair pair = duplex_pair_new pair"

section \<open>Peers\<close>

record UnixPeerVerifier =
  daemon_uid :: u32

text \<open>\<open>UnixPeerVerifier::new\<close>, with the answer of \<open>geteuid\<close>.\<close>

definition verifier_new :: "u32 \<Rightarrow> UnixPeerVerifier" where
  "verifier_new euid = \<lparr>daemon_uid = euid\<rparr>"

text \<open>The outcome of \<open>getsockopt\<close> for \<open>SO_PEERCRED\<close> is the credentials it filled in, or its error.\<close>

record ucred =
  cr_pid :: u32
  cr_uid :: u32
  cr_gid :: u32

definition read_peer_uid :: "io_error + ucred \<Rightarrow> ControlError + u32" where
  "read_peer_uid sockopt = (case sockopt of Inl e \<Rightarrow> Inl (CIo e) | Inr cred \<Rightarrow> Inr (cr_uid cred))"

definition verify_peer :: "UnixPeerVerifier \<Rightarrow> io_error + ucred \<Rightarrow> ControlError + unit" where
  "verify_peer v sockopt =
     bind_result (read_peer_uid sockopt) (\<lambda>peer_uid.
       if peer_uid = daemon_uid v then Inr () else Inl (PeerUidMismatch peer_uid (daemon_uid v)))"

text \<open>\<open>accept\<close>: the outcome of the system call, of the two timeouts, and the peer's credentials.\<close>

definition server_accept ::
  "UnixPeerVerifier \<Rightarrow> io_error + 'c \<Rightarrow> io_error + unit \<Rightarrow> io_error + unit \<Rightarrow> io_error + ucred \<Rightarrow> ControlError + 'c" where
  "server_accept v accepted read_timeout write_timeout sockopt =
     bind_result (map_err CIo accepted) (\<lambda>stream.
     bind_result (map_err CIo read_timeout) (\<lambda>_.
     bind_result (map_err CIo write_timeout) (\<lambda>_.
     bind_result (verify_peer v sockopt) (\<lambda>_. Inr stream))))"

text \<open>A server hands out the streams of its own user only, and only with both timeouts set.\<close>

lemma accept_own_user:
  "server_accept (verifier_new euid) accepted rt wt sockopt = Inr stream \<longleftrightarrow>
     accepted = Inr stream \<and> rt = Inr () \<and> wt = Inr () \<and> (\<exists>cred. sockopt = Inr cred \<and> cr_uid cred = euid)"
  by (cases accepted; cases rt; cases wt; cases sockopt)
    (auto simp: server_accept_def verify_peer_def read_peer_uid_def verifier_new_def bind_result_def map_err_def)

section \<open>A stale socket\<close>

datatype errno = ECONNREFUSED | ENOENT | EAGAIN | EINPROGRESS | OtherErrno io_error

datatype ProbeResult = Live | Stale

definition errno_io :: "errno \<Rightarrow> io_error" where
  "errno_io e =
     (case e of ENOENT \<Rightarrow> os_error NotFound | OtherErrno x \<Rightarrow> x | _ \<Rightarrow> os_error OtherKind)"

definition path_bytes :: "path \<Rightarrow> string" where
  "path_bytes p = (if absolute p then ''/'' else []) @ join_with ''/'' (comps p)"

definition sun_path_len :: nat where
  "sun_path_len = 108"

definition probe_connect_nonblocking ::
  "io_error + unit \<Rightarrow> errno + unit \<Rightarrow> path \<Rightarrow> io_error + ProbeResult" where
  "probe_connect_nonblocking new_socket connect_rc socket_path =
     (case new_socket of
        Inl e \<Rightarrow> Inl e
      | Inr _ \<Rightarrow>
          if length (path_bytes socket_path) \<ge> sun_path_len
          then Inl (IoError OtherKind ''socket path too long for sockaddr_un'')
          else
            (case connect_rc of
               Inr _ \<Rightarrow> Inr Live
             | Inl e \<Rightarrow>
                 if e = ECONNREFUSED \<or> e = ENOENT then Inr Stale
                 else if e = EAGAIN \<or> e = EINPROGRESS then Inr Live
                 else Inl (errno_io e)))"

definition cleanup_stale_socket ::
  "os_env \<Rightarrow> io_error + unit \<Rightarrow> errno + unit \<Rightarrow> machine \<Rightarrow> path \<Rightarrow> machine \<times> (ControlError + unit)" where
  "cleanup_stale_socket env new_socket connect_rc m socket_path =
     (if \<not> path_exists (disk m) socket_path then (m, Inr ())
      else
        (case probe_connect_nonblocking new_socket connect_rc socket_path of
           Inr Live \<Rightarrow> (m, Inl (SingleInstanceLockHeld socket_path))
         | Inr Stale \<Rightarrow> map_prod id (map_err CIo) (sys_remove_file env m socket_path)
         | Inl e \<Rightarrow> (m, Inl (StaleSocketCleanupRefused socket_path e))))"

section \<open>Properties\<close>


lemma chmod_mode:
  assumes "fs_ok (disk m)" "sys_chmod env m p md = (m', Inr ())"
  shows "mode_at (disk m') p = Some md \<and> fs_ok (disk m') \<and> names (disk m') = names (disk m)"
proof (cases "map_of (dirs (disk m)) p \<noteq> None \<or> p = abs_path []")
  case True
  then show ?thesis
    using assms by (auto simp: sys_chmod_def mode_at_def split: option.splits if_splits)
next
  case False
  then obtain i where i: "map_of (names (disk m)) p = Some i" "p \<noteq> rel []"
      "m' = step_to (update_inode i (\<lambda>n. n\<lparr>mode := md\<rparr>) (disk m)) m"
    using assms(2) by (auto simp: sys_chmod_def split: option.splits if_splits)
  moreover obtain n where "map_of (inodes (disk m)) i = Some n"
    using fs_ok_named [OF assms(1) i(1)] by blast
  ultimately show ?thesis
    using False fs_ok_update_inode [OF assms(1)]
    by (simp add: mode_at_def file_at_def map_of_update_inode)
qed

lemma private_parent_ok:
  assumes "fs_ok (disk m)" "private_parent msg env m p = (m', Inr ())"
  shows "\<exists>parent md. parent_of p = Some parent \<and> mode_at (disk m') parent = Some md
    \<and> and md 0x1FF = REQUIRED_PARENT_MODE \<and> fs_ok (disk m') \<and> names (disk m') = names (disk m)"
proof (cases "parent_of p")
  case None
  then show ?thesis
    using assms(2) by (simp add: private_parent_def)
next
  case parent: (Some parent)
  show ?thesis
  proof (cases "sys_stat_mode env m parent")
    case (Inr md)
    then have "mode_at (disk m) parent = Some md"
      by (auto simp: sys_stat_mode_def split: option.splits)
    then show ?thesis
      using assms parent Inr by (auto simp: private_parent_def Let_def split: if_splits)
  next
    case (Inl e)
    obtain m1 r where cr: "create_dir_all env m parent = (m1, r)"
      by (cases "create_dir_all env m parent")
    have od: "only_dirs m m1"
      using cr create_dir_rev_only_dirs unfolding create_dir_all_def by blast
    have ok1: "fs_ok (disk m1)" "names (disk m1) = names (disk m)"
      using od assms(1) same_files_ok by (auto simp: only_dirs_def same_files_def)
    have "sys_chmod env m1 parent REQUIRED_PARENT_MODE = (m', Inr ())"
      using assms(2) parent Inl cr
      by (cases "sys_chmod env m1 parent REQUIRED_PARENT_MODE")
        (auto simp: private_parent_def map_err_def split: if_splits sum.splits)
    from chmod_mode [OF ok1(1) this] show ?thesis
      using parent ok1(2) by (simp add: REQUIRED_PARENT_MODE_def)
  qed
qed

lemma mode_at_dirs:
  "map_of (dirs s) d = Some md \<Longrightarrow> mode_at s' d = (if d = rel [] then None else Some md)"
  if "dirs s' = dirs s"
  using that by (simp add: mode_at_def)

lemma bind_mode:
  assumes "fs_ok (disk m)" "sys_bind env m p = (m1, Inr ())" "set_socket_mode env m1 p = (m2, Inr ())"
  shows "\<exists>md. mode_at (disk m2) p = Some md \<and> and md 0x1FF = REQUIRED_SOCKET_MODE
    \<and> dirs (disk m2) = dirs (disk m) \<and> \<not> path_exists (disk m) p \<and> parent_usable (disk m) p"
proof -
  define i where "i = next_inode (disk m)"
  have b: "map_of (names (disk m1)) p = Some i" "dirs (disk m1) = dirs (disk m)"
      "\<not> path_exists (disk m) p" "parent_usable (disk m) p"
    using assms(2)
    by (auto simp: sys_bind_def Let_def map_of_bind_name i_def split: option.splits if_splits)
  have ch: "dirs (disk m2) = dirs (disk m1) \<and> (\<exists>md. mode_at (disk m2) p = Some md \<and> and md 0x1FF = REQUIRED_SOCKET_MODE)"
    using assms(3) b(2,3)
    by (auto simp: set_socket_mode_def sys_chmod_def sys_stat_mode_def path_exists_def dir_exists_def Let_def
        split: option.splits if_splits sum.splits)
  then show ?thesis
    using b by auto
qed

text \<open>
  (C30) \<^bold>\<open>A bound socket is private.\<close> When \<open>UnixServer::bind\<close> succeeds the socket is new, has mode 0600 and
  lies in a directory of mode 0700. It never takes over an existing path, and a parent directory
  with another mode is refused and left as it is.
\<close>

theorem server_bind_private:
  assumes ok: "fs_ok (disk m)"
  shows "(\<forall>m' srv. server_bind env m p = (m', Inr srv) \<longrightarrow>
      map_of (names (disk m)) p = None \<and> srv_socket_path srv = p
      \<and> (\<exists>d md sm. parent_of p = Some d \<and> mode_at (disk m') d = Some md \<and> and md 0x1FF = 0x1C0
           \<and> mode_at (disk m') p = Some sm \<and> and sm 0x1FF = 0x180))
    \<and> (\<forall>d md. parent_of p = Some d \<longrightarrow> fault env (CallStat d) = None \<longrightarrow> mode_at (disk m) d = Some md \<longrightarrow>
      and md 0x1FF \<noteq> 0x1C0 \<longrightarrow>
      server_bind env m p = (m, Inl (SocketDirWrongMode d (and md 0x1FF) REQUIRED_PARENT_MODE)))"
proof (intro conjI allI impI)
  show "server_bind env m p = (m, Inl (SocketDirWrongMode d (and md 0x1FF) REQUIRED_PARENT_MODE))"
    if "parent_of p = Some d" "fault env (CallStat d) = None" "mode_at (disk m) d = Some md" "and md 0x1FF \<noteq> 0x1C0"
    for d md
    using that by (simp add: server_bind_def prepare_parent_dir_def private_parent_def sys_stat_mode_def
        REQUIRED_PARENT_MODE_def Let_def)
  fix m' srv
  assume run: "server_bind env m p = (m', Inr srv)"
  obtain m1 where pp: "private_parent ''socket path has no parent'' env m p = (m1, Inr ())"
    using run by (auto simp: server_bind_def prepare_parent_dir_def split: prod.splits sum.splits)
  obtain m2 where bd: "sys_bind env m1 p = (m2, Inr ())"
    using run pp by (auto simp: server_bind_def prepare_parent_dir_def split: prod.splits sum.splits)
  obtain m3 where sm: "set_socket_mode env m2 p = (m3, Inr ())"
    using run pp bd by (auto simp: server_bind_def prepare_parent_dir_def split: prod.splits sum.splits)
  have res: "m' = m3" "srv_socket_path srv = p"
    using run pp bd sm
    by (auto simp: server_bind_def prepare_parent_dir_def set_listen_backlog_def split: option.splits)
  obtain d md where d: "parent_of p = Some d" "mode_at (disk m1) d = Some md"
      "and md 0x1FF = REQUIRED_PARENT_MODE" "fs_ok (disk m1)" "names (disk m1) = names (disk m)"
    using private_parent_ok [OF ok pp] by blast
  obtain sm' where s: "mode_at (disk m3) p = Some sm'" "and sm' 0x1FF = REQUIRED_SOCKET_MODE"
      "dirs (disk m3) = dirs (disk m1)" "\<not> path_exists (disk m1) p" "parent_usable (disk m1) p"
    using bind_mode [OF d(4) bd sm] by blast
  have "d \<noteq> rel []"
    using d(2) by (auto simp: mode_at_def)
  then have "dir_exists (disk m1) d"
    using s(5) d(1) by (auto simp: parent_usable_def parent_of_def Let_def split: if_splits)
  then have "map_of (dirs (disk m1)) d = Some md"
    using d(2,3) \<open>d \<noteq> rel []\<close>
    by (auto simp: dir_exists_def mode_at_def REQUIRED_PARENT_MODE_def split: option.splits if_splits)
  then have "mode_at (disk m3) d = Some md"
    using mode_at_dirs [OF s(3)] \<open>d \<noteq> rel []\<close> by simp
  then have "\<exists>d md sm. parent_of p = Some d \<and> mode_at (disk m') d = Some md \<and> and md 0x1FF = 0x1C0
      \<and> mode_at (disk m') p = Some sm \<and> and sm 0x1FF = 0x180"
    using d s res by (auto simp: REQUIRED_PARENT_MODE_def REQUIRED_SOCKET_MODE_def)
  moreover have "map_of (names (disk m)) p = None"
    using s(4) d(5) by (simp add: path_exists_def)
  ultimately show "map_of (names (disk m)) p = None" "srv_socket_path srv = p"
    "\<exists>d md sm. parent_of p = Some d \<and> mode_at (disk m') d = Some md \<and> and md 0x1FF = 0x1C0
      \<and> mode_at (disk m') p = Some sm \<and> and sm 0x1FF = 0x180"
    using res(2) by auto
qed

lemma sample_bind:
  "snd (server_bind healthy_env sample_machine (abs_path [''v'', ''s''])) =
     Inr \<lparr>srv_socket_path = abs_path [''v'', ''s''], srv_backlog = 16, srv_nonblocking = False\<rparr>"
  by code_simp

theorem server_bind_private_witness:
  "map_of (names (disk sample_machine)) (abs_path [''v'', ''s'']) = None
   \<and> (\<exists>sm. mode_at (disk (fst (server_bind healthy_env sample_machine (abs_path [''v'', ''s'']))))
        (abs_path [''v'', ''s'']) = Some sm \<and> and sm 0x1FF = 0x180)"
proof -
  have "server_bind healthy_env sample_machine (abs_path [''v'', ''s'']) =
      (fst (server_bind healthy_env sample_machine (abs_path [''v'', ''s''])),
       Inr \<lparr>srv_socket_path = abs_path [''v'', ''s''], srv_backlog = 16, srv_nonblocking = False\<rparr>)"
    using sample_bind by (metis prod.collapse)
  then show ?thesis
    using server_bind_private [OF sample_machine_ok(1), of healthy_env "abs_path [''v'', ''s'']"] by blast
qed

text \<open>
  \<^bold>\<open>Only a socket nobody listens on is removed.\<close> \<open>cleanup_stale_socket\<close> unlinks the socket exactly
  when it exists and the probe was refused (or found nothing); a listener that accepts or is too
  busy to accept is reported as the running instance, any other error of the probe is passed on,
  and in all these cases the file system is left as it is.
\<close>

theorem cleanup_stale_socket_spec:
  "case cleanup_stale_socket env new_socket connect_rc m p of
     (m', r) \<Rightarrow>
       (if \<not> path_exists (disk m) p then m' = m \<and> r = Inr ()
        else if (\<exists>u. new_socket = Inr u) \<and> length (path_bytes p) < 108
          \<and> (connect_rc = Inl ECONNREFUSED \<or> connect_rc = Inl ENOENT)
        then (case sys_remove_file env m p of (m1, r1) \<Rightarrow> m' = m1 \<and> r = map_err CIo r1)
        else m' = m \<and>
          (r = Inl (SingleInstanceLockHeld p) \<and> (connect_rc = Inr () \<or> connect_rc = Inl EAGAIN \<or> connect_rc = Inl EINPROGRESS)
           \<or> (\<exists>e. r = Inl (StaleSocketCleanupRefused p e))))"
  by (auto simp: cleanup_stale_socket_def probe_connect_nonblocking_def sun_path_len_def
      split: sum.splits prod.splits)

end
