(* ===== verification/InstanceLock.thy ===== *)
theory InstanceLock
  imports Wire
begin

text \<open>
  \<open>SingleInstanceLock\<close> of \<open>invisibool-control/src/lifecycle.rs\<close>: \<open>acquire\<close> is an open and a non-blocking
  \<open>flock\<close>, \<open>drop\<close> is an unlock and an unlink. Between any two system calls another process may run,
  so the steps are those of a transition system over any number of processes. The kernel's side is
  the inode the lock path names and the holder of each inode's lock.
\<close>

section \<open>The kernel's side\<close>

record lock_world =
  lock_name :: "nat option"
  fresh_inode :: nat
  holders :: "(nat \<times> nat) list"

definition lock_open :: "lock_world \<Rightarrow> lock_world \<times> nat" where
  "lock_open w =
     (case lock_name w of
        Some i \<Rightarrow> (w, i)
      | None \<Rightarrow> (w\<lparr>lock_name := Some (fresh_inode w), fresh_inode := Suc (fresh_inode w)\<rparr>, fresh_inode w))"

definition flock_nb :: "lock_world \<Rightarrow> nat \<Rightarrow> nat \<Rightarrow> lock_world \<times> bool" where
  "flock_nb w pid i =
     (case map_of (holders w) i of
        Some _ \<Rightarrow> (w, False)
      | None \<Rightarrow> (w\<lparr>holders := AList.update i pid (holders w)\<rparr>, True))"

definition flock_unlock :: "lock_world \<Rightarrow> nat \<Rightarrow> lock_world" where
  "flock_unlock w i = w\<lparr>holders := AList.delete i (holders w)\<rparr>"

definition lock_unlink :: "lock_world \<Rightarrow> lock_world" where
  "lock_unlink w = w\<lparr>lock_name := None\<rparr>"

section \<open>One process alone\<close>

record SingleInstanceLock =
  lock_inode :: nat
  lock_path :: path

text \<open>\<open>open_fault\<close> and \<open>flock_fault\<close> are errors of the two system calls other than \<open>EWOULDBLOCK\<close>.\<close>

definition acquire ::
  "io_error option \<Rightarrow> io_error option \<Rightarrow> lock_world \<Rightarrow> nat \<Rightarrow> path
    \<Rightarrow> lock_world \<times> (ControlError + SingleInstanceLock)" where
  "acquire open_fault flock_fault w pid p =
     (case open_fault of
        Some e \<Rightarrow> (w, Inl (CIo e))
      | None \<Rightarrow>
          (case lock_open w of
             (w, i) \<Rightarrow>
               (case flock_fault of
                  Some e \<Rightarrow> (w, Inl (CIo e))
                | None \<Rightarrow>
                    (case flock_nb w pid i of
                       (w, True) \<Rightarrow> (w, Inr \<lparr>lock_inode = i, lock_path = p\<rparr>)
                     | (w, False) \<Rightarrow> (w, Inl (SingleInstanceLockHeld p))))))"

definition drop_lock :: "lock_world \<Rightarrow> SingleInstanceLock \<Rightarrow> lock_world" where
  "drop_lock w l = lock_unlink (flock_unlock w (lock_inode l))"

section \<open>Many processes\<close>

datatype daemon = Idle | Opened nat | Held nat | Unlocked nat

record lock_sys =
  kernel :: lock_world
  procs :: "nat \<Rightarrow> daemon"

definition set_proc :: "lock_sys \<Rightarrow> nat \<Rightarrow> lock_world \<Rightarrow> daemon \<Rightarrow> lock_sys" where
  "set_proc s pid w d = \<lparr>kernel = w, procs = (procs s)(pid := d)\<rparr>"

definition release :: "lock_world \<Rightarrow> daemon \<Rightarrow> lock_world" where
  "release w d = (case d of Held i \<Rightarrow> flock_unlock w i | _ \<Rightarrow> w)"

text \<open>\<open>clean\<close> says whether processes may shut down cleanly; they may always crash.\<close>

inductive lock_step :: "bool \<Rightarrow> lock_sys \<Rightarrow> lock_sys \<Rightarrow> bool" for clean where
  step_open: "procs s pid = Idle \<Longrightarrow> lock_open (kernel s) = (w, i) \<Longrightarrow>
    lock_step clean s (set_proc s pid w (Opened i))"
| step_locked: "procs s pid = Opened i \<Longrightarrow> flock_nb (kernel s) pid i = (w, True) \<Longrightarrow>
    lock_step clean s (set_proc s pid w (Held i))"
| step_refused: "procs s pid = Opened i \<Longrightarrow> flock_nb (kernel s) pid i = (w, False) \<Longrightarrow>
    lock_step clean s (set_proc s pid w Idle)"
| step_unlock: "clean \<Longrightarrow> procs s pid = Held i \<Longrightarrow>
    lock_step clean s (set_proc s pid (flock_unlock (kernel s) i) (Unlocked i))"
| step_unlink: "clean \<Longrightarrow> procs s pid = Unlocked i \<Longrightarrow>
    lock_step clean s (set_proc s pid (lock_unlink (kernel s)) Idle)"
| step_crash: "lock_step clean s (set_proc s pid (release (kernel s) (procs s pid)) Idle)"

inductive_cases lock_stepE: "lock_step clean s s'"

definition lock_init :: lock_sys where
  "lock_init = \<lparr>kernel = \<lparr>lock_name = None, fresh_inode = 0, holders = []\<rparr>, procs = \<lambda>_. Idle\<rparr>"

inductive lock_reach :: "bool \<Rightarrow> lock_sys \<Rightarrow> bool" for clean where
  reach_init: "lock_reach clean lock_init"
| reach_step: "lock_reach clean s \<Longrightarrow> lock_step clean s s' \<Longrightarrow> lock_reach clean s'"

section \<open>Invariants\<close>

definition lock_inv :: "bool \<Rightarrow> lock_sys \<Rightarrow> bool" where
  "lock_inv clean s \<longleftrightarrow>
     (\<forall>p i. procs s p = Held i \<longrightarrow> map_of (holders (kernel s)) i = Some p)
   \<and> (\<not> clean \<longrightarrow> (\<forall>p i. procs s p = Opened i \<or> procs s p = Held i \<longrightarrow> lock_name (kernel s) = Some i))"

lemma lock_inv_set:
  assumes inv: "lock_inv clean s"
    and self: "\<And>i. d = Held i \<Longrightarrow> map_of (holders w) i = Some pid"
    and other: "\<And>p i. p \<noteq> pid \<Longrightarrow> map_of (holders (kernel s)) i = Some p \<Longrightarrow> map_of (holders w) i = Some p"
    and self_name: "\<And>i. \<not> clean \<Longrightarrow> d = Opened i \<or> d = Held i \<Longrightarrow> lock_name w = Some i"
    and name: "\<And>i. \<not> clean \<Longrightarrow> lock_name (kernel s) = Some i \<Longrightarrow> lock_name w = Some i"
  shows "lock_inv clean (set_proc s pid w d)"
  unfolding lock_inv_def set_proc_def
proof (intro conjI allI impI, goal_cases)
  case (1 p i)
  then show ?case
    using self other inv by (cases "p = pid") (simp_all add: lock_inv_def)
next
  case (2 p i)
  then show ?case
    using self_name name inv unfolding lock_inv_def by (cases "p = pid") auto
qed

lemma lock_inv_facts:
  assumes "lock_inv clean s"
  shows "procs s p = Held i \<Longrightarrow> map_of (holders (kernel s)) i = Some p"
    and "\<not> clean \<Longrightarrow> procs s p = Opened i \<or> procs s p = Held i \<Longrightarrow> lock_name (kernel s) = Some i"
  using assms unfolding lock_inv_def by blast+

lemma lock_inv_step:
  assumes "lock_step clean s s'" "lock_inv clean s"
  shows "lock_inv clean s'"
  using assms(1)
proof cases
  case (step_open pid w i)
  then show ?thesis
    by (auto simp: lock_open_def split: option.splits intro!: lock_inv_set [OF assms(2)])
next
  case (step_locked pid i w)
  note name = lock_inv_facts(2) [OF assms(2), of pid i]
  show ?thesis
    unfolding step_locked(1)
    by (rule lock_inv_set [OF assms(2)])
      (use step_locked(2,3) name in \<open>auto simp: flock_nb_def split: option.splits\<close>)
next
  case (step_refused pid i w)
  then show ?thesis
    by (auto simp: flock_nb_def split: option.splits intro!: lock_inv_set [OF assms(2)])
next
  case (step_unlock pid i)
  note held = lock_inv_facts(1) [OF assms(2) step_unlock(3)]
  show ?thesis
    unfolding step_unlock(1)
    by (rule lock_inv_set [OF assms(2)]) (use step_unlock(2) held in \<open>auto simp: flock_unlock_def\<close>)
next
  case (step_unlink pid i)
  show ?thesis
    unfolding step_unlink(1)
    by (rule lock_inv_set [OF assms(2)]) (use step_unlink(2) in \<open>simp_all add: lock_unlink_def\<close>)
next
  case (step_crash pid)
  show ?thesis
    unfolding step_crash
  proof (rule lock_inv_set [OF assms(2)])
    fix p i
    assume "p \<noteq> pid" "map_of (holders (kernel s)) i = Some p"
    then show "map_of (holders (release (kernel s) (procs s pid))) i = Some p"
      using lock_inv_facts(1) [OF assms(2), of pid]
      by (cases "procs s pid") (auto simp: release_def flock_unlock_def)
  qed (auto simp: release_def flock_unlock_def split: daemon.splits)
qed

lemma lock_reach_inv: "lock_reach clean s \<Longrightarrow> lock_inv clean s"
proof (induction rule: lock_reach.induct)
  case reach_init
  then show ?case by (simp add: lock_inv_def lock_init_def)
next
  case (reach_step s s')
  then show ?case using lock_inv_step by blast
qed

text \<open>
  (C31) \<^bold>\<open>One holder, as long as nobody shuts down cleanly.\<close> In every reachable state an inode's lock
  has at most one holder. If processes only ever crash, the lock file keeps its inode, so at most
  one process holds the instance lock at all; a crash releases it.
\<close>

theorem instance_lock_exclusive:
  assumes "lock_reach clean s" "procs s p = Held i" "procs s q = Held j"
  shows "(i = j \<longrightarrow> p = q) \<and> (\<not> clean \<longrightarrow> p = q)"
proof -
  note inv = lock_reach_inv [OF assms(1), unfolded lock_inv_def]
  have held: "map_of (holders (kernel s)) i = Some p" "map_of (holders (kernel s)) j = Some q"
    using inv assms(2,3) by blast+
  have "i = j" if "\<not> clean"
  proof -
    have "lock_name (kernel s) = Some i" "lock_name (kernel s) = Some j"
      using inv that assms(2,3) by blast+
    then show ?thesis by simp
  qed
  with held show ?thesis by auto
qed

text \<open>\<open>acquire\<close> and \<open>drop\<close> that nobody interrupts are two steps each.\<close>

lemma acquire_steps:
  assumes "lock_reach clean s" "procs s pid = Idle" "acquire None None (kernel s) pid p = (w, r)"
  shows "lock_reach clean (set_proc s pid w (case r of Inr l \<Rightarrow> Held (lock_inode l) | Inl _ \<Rightarrow> Idle))"
proof -
  obtain w1 i where o: "lock_open (kernel s) = (w1, i)" by fastforce
  obtain w2 b where f: "flock_nb w1 pid i = (w2, b)" by fastforce
  have 1: "lock_reach clean (set_proc s pid w1 (Opened i))"
    using assms(1,2) o by (blast intro: reach_step step_open)
  have p: "procs (set_proc s pid w1 (Opened i)) pid = Opened i"
    and k: "flock_nb (kernel (set_proc s pid w1 (Opened i))) pid i = (w2, b)"
    using f by (simp_all add: set_proc_def)
  have "lock_step clean (set_proc s pid w1 (Opened i))
      (set_proc (set_proc s pid w1 (Opened i)) pid w2 (if b then Held i else Idle))"
    using step_locked [OF p, of w2 clean] step_refused [OF p, of w2 clean] k by (cases b) simp_all
  from reach_step [OF 1 this] show ?thesis
    using assms(3) o f by (cases b) (auto simp: acquire_def set_proc_def)
qed

lemma drop_lock_steps:
  assumes "lock_reach True s" "procs s pid = Held (lock_inode l)"
  shows "lock_reach True (set_proc s pid (drop_lock (kernel s) l) Idle)"
proof -
  have 1: "lock_reach True (set_proc s pid (flock_unlock (kernel s) (lock_inode l)) (Unlocked (lock_inode l)))"
    by (rule reach_step [OF assms(1) step_unlock]) (use assms(2) in simp_all)
  have p: "procs (set_proc s pid (flock_unlock (kernel s) (lock_inode l)) (Unlocked (lock_inode l))) pid
      = Unlocked (lock_inode l)"
    by (simp add: set_proc_def)
  from reach_step [OF 1 step_unlink [OF _ p]] show ?thesis
    by (simp add: set_proc_def drop_lock_def)
qed

text \<open>A run of one process up to the lock.\<close>

lemma lock_by:
  assumes "lock_reach clean s" "procs s pid = Idle" "lock_open (kernel s) = (w, i)"
    and "map_of (holders w) i = None"
  shows "lock_reach clean (set_proc s pid (fst (flock_nb w pid i)) (Held i))"
proof -
  have "lock_reach clean (set_proc s pid w (Opened i))"
    using assms(1-3) by (blast intro: reach_step step_open)
  moreover have "lock_step clean (set_proc s pid w (Opened i))
      (set_proc (set_proc s pid w (Opened i)) pid (fst (flock_nb w pid i)) (Held i))"
    by (rule step_locked) (use assms(4) in \<open>simp_all add: set_proc_def flock_nb_def\<close>)
  ultimately have "lock_reach clean (set_proc (set_proc s pid w (Opened i)) pid (fst (flock_nb w pid i)) (Held i))"
    by (rule reach_step)
  then show ?thesis
    by (simp add: set_proc_def)
qed

text \<open>
  (C33) \<^bold>\<open>A clean shutdown can leave two instances.\<close> \<open>drop\<close> unlocks before it unlinks: a second process
  that opens the file in between locks the inode that the first one is about to unlink, and a third
  one then creates and locks a new file. Two processes hold the lock at the same time.
\<close>

theorem instance_lock_race:
  "\<exists>s. lock_reach True s \<and> procs s 1 = Held 0 \<and> procs s 2 = Held 1"
proof -
  define s1 where "s1 = set_proc lock_init 0 (fst (flock_nb (fst (lock_open (kernel lock_init))) 0 0)) (Held 0)"
  have s1: "lock_reach True s1"
    unfolding s1_def by (rule lock_by [OF reach_init]) (simp_all add: lock_init_def lock_open_def)
  define s2 where "s2 = set_proc s1 0 (flock_unlock (kernel s1) 0) (Unlocked 0)"
  have s2: "lock_reach True s2"
    unfolding s2_def by (rule reach_step [OF s1 step_unlock]) (simp_all add: s1_def set_proc_def)
  define s3 where "s3 = set_proc s2 1 (fst (flock_nb (kernel s2) 1 0)) (Held 0)"
  have s3: "lock_reach True s3"
    unfolding s3_def by (rule lock_by [OF s2])
      (simp_all add: s2_def s1_def set_proc_def lock_init_def lock_open_def flock_nb_def flock_unlock_def)
  define s4 where "s4 = set_proc s3 0 (lock_unlink (kernel s3)) Idle"
  have s4: "lock_reach True s4"
    unfolding s4_def by (rule reach_step [OF s3 step_unlink]) (simp_all add: s3_def s2_def set_proc_def)
  define s5 where "s5 = set_proc s4 2 (fst (flock_nb (fst (lock_open (kernel s4))) 2 1)) (Held 1)"
  have "lock_reach True s5"
    unfolding s5_def by (rule lock_by [OF s4])
      (simp_all add: s4_def s3_def s2_def s1_def set_proc_def lock_init_def lock_open_def flock_nb_def
        flock_unlock_def lock_unlink_def)
  moreover have "procs s5 1 = Held 0" "procs s5 2 = Held 1"
    by (simp_all add: s5_def s4_def s3_def set_proc_def)
  ultimately show ?thesis by blast
qed

theorem instance_lock_exclusive_witness:
  "{q. \<exists>j. procs (set_proc lock_init 0 (fst (flock_nb (fst (lock_open (kernel lock_init))) 0 0)) (Held 0)) q = Held j}
     = {0}"
proof -
  have "lock_reach False (set_proc lock_init 0 (fst (flock_nb (fst (lock_open (kernel lock_init))) 0 0)) (Held 0))"
    by (rule lock_by [OF reach_init]) (simp_all add: lock_init_def lock_open_def)
  note exclusive = instance_lock_exclusive [OF this]
  have held: "procs (set_proc lock_init 0 (fst (flock_nb (fst (lock_open (kernel lock_init))) 0 0)) (Held 0)) 0 = Held 0"
    by (simp add: set_proc_def)
  have "q = 0" if "procs (set_proc lock_init 0 (fst (flock_nb (fst (lock_open (kernel lock_init))) 0 0)) (Held 0)) q = Held j"
    for q j
    using exclusive [OF that held] by blast
  with held show ?thesis
    by blast
qed

section \<open>Availability\<close>

text \<open>The kernel's locks are those of live processes, and every inode in use was handed out.\<close>

definition lock_live :: "lock_sys \<Rightarrow> bool" where
  "lock_live s \<longleftrightarrow>
     (\<forall>i p. map_of (holders (kernel s)) i = Some p \<longrightarrow> procs s p = Held i)
   \<and> (\<forall>i. lock_name (kernel s) = Some i \<longrightarrow> i < fresh_inode (kernel s))
   \<and> (\<forall>p i. procs s p = Opened i \<or> procs s p = Held i \<longrightarrow> i < fresh_inode (kernel s))"

lemma lock_live_step:
  assumes "lock_step clean s s'" "lock_inv clean s" "lock_live s"
  shows "lock_live s'"
  using assms(1)
proof cases
  case (step_open pid w i)
  then show ?thesis
    using assms(3) by (auto simp: lock_live_def set_proc_def lock_open_def less_Suc_eq split: option.splits)
next
  case (step_locked pid i w)
  then show ?thesis
    using assms(3) by (auto simp: lock_live_def set_proc_def flock_nb_def update_conv' split: option.splits if_splits)
next
  case (step_refused pid i w)
  then show ?thesis
    using assms(3) by (auto simp: lock_live_def set_proc_def flock_nb_def split: option.splits)
next
  case (step_unlock pid i)
  then show ?thesis
    using assms(3) by (auto simp: lock_live_def set_proc_def flock_unlock_def delete_conv' split: if_splits)
next
  case (step_unlink pid i)
  then show ?thesis
    using assms(3) by (auto simp: lock_live_def set_proc_def lock_unlink_def)
next
  case (step_crash pid)
  then show ?thesis
    using assms(3)
    by (cases "procs s pid") (auto simp: lock_live_def set_proc_def release_def flock_unlock_def delete_conv' split: if_splits)
qed

lemma lock_reach_live: "lock_reach clean s \<Longrightarrow> lock_live s"
proof (induction rule: lock_reach.induct)
  case reach_init
  then show ?case by (simp add: lock_live_def lock_init_def)
next
  case (reach_step s s')
  then show ?case using lock_live_step lock_reach_inv by blast
qed

lemma acquire_cases:
  "acquire None None w q path =
     (case map_of (holders (fst (lock_open w))) (snd (lock_open w)) of
        Some _ \<Rightarrow> (fst (lock_open w), Inl (SingleInstanceLockHeld path))
      | None \<Rightarrow> (fst (flock_nb (fst (lock_open w)) q (snd (lock_open w))),
                 Inr \<lparr>lock_inode = snd (lock_open w), lock_path = path\<rparr>))"
  by (cases "lock_open w") (auto simp: acquire_def flock_nb_def split: option.split)

text \<open>The lock is free exactly when no live process holds the inode that the path names.\<close>

lemma lock_taken_iff:
  assumes "lock_reach clean s"
  shows "map_of (holders (fst (lock_open (kernel s)))) (snd (lock_open (kernel s))) \<noteq> None \<longleftrightarrow>
    (\<exists>p i. procs s p = Held i \<and> lock_name (kernel s) = Some i)"
proof -
  note live = lock_reach_live [OF assms, unfolded lock_live_def] and inv = lock_reach_inv [OF assms]
  show ?thesis
  proof (cases "lock_name (kernel s)")
    case None
    have "map_of (holders (kernel s)) (fresh_inode (kernel s)) = None"
      using live by (metis less_irrefl option.exhaust)
    with None show ?thesis by (simp add: lock_open_def)
  next
    case (Some i)
    have "map_of (holders (kernel s)) i = Some p \<longleftrightarrow> procs s p = Held i" for p
      using live lock_inv_facts(1) [OF inv, of p i] by blast
    then have "map_of (holders (kernel s)) i \<noteq> None \<longleftrightarrow> (\<exists>p. procs s p = Held i)"
      by (metis not_None_eq)
    with Some show ?thesis by (simp add: lock_open_def)
  qed
qed

definition crashed :: "nat \<Rightarrow> lock_sys \<Rightarrow> lock_sys" where
  "crashed p s = set_proc s p (release (kernel s) (procs s p)) Idle"

text \<open>
  (C32) \<^bold>\<open>No lock outlives its process.\<close> In every reachable state, with clean shutdowns or without,
  \<open>acquire\<close> is refused with \<open>SingleInstanceLockHeld\<close> exactly while a live process holds the inode
  that the lock path names; when this process crashes, the next \<open>acquire\<close> of any idle process gets
  the lock of the same file. So a crash never locks the daemon out.
\<close>

theorem instance_lock_available:
  assumes "lock_reach clean s" "procs s q = Idle"
  shows "(snd (acquire None None (kernel s) q path) = Inl (SingleInstanceLockHeld path) \<longleftrightarrow>
      (\<exists>p i. procs s p = Held i \<and> lock_name (kernel s) = Some i))
    \<and> (\<forall>p i. procs s p = Held i \<and> lock_name (kernel s) = Some i \<longrightarrow>
        lock_reach clean (crashed p s)
        \<and> snd (acquire None None (kernel (crashed p s)) q path) = Inr \<lparr>lock_inode = i, lock_path = path\<rparr>)"
proof (intro conjI allI impI)
  show "snd (acquire None None (kernel s) q path) = Inl (SingleInstanceLockHeld path) \<longleftrightarrow>
      (\<exists>p i. procs s p = Held i \<and> lock_name (kernel s) = Some i)"
    using lock_taken_iff [OF assms(1)] by (auto simp: acquire_cases split: option.splits)
  fix p i assume held: "procs s p = Held i \<and> lock_name (kernel s) = Some i"
  show "lock_reach clean (crashed p s)"
    unfolding crashed_def by (rule reach_step [OF assms(1) step_crash])
  show "snd (acquire None None (kernel (crashed p s)) q path) = Inr \<lparr>lock_inode = i, lock_path = path\<rparr>"
    using held by (simp add: crashed_def set_proc_def release_def acquire_cases lock_open_def flock_unlock_def delete_conv')
qed

theorem instance_lock_available_witness:
  "snd (acquire None None (kernel (set_proc lock_init 0 (fst (flock_nb (fst (lock_open (kernel lock_init))) 0 0)) (Held 0))) 1 (abs_path [''l'']))
       = Inl (SingleInstanceLockHeld (abs_path [''l'']))
     \<and> snd (acquire None None (kernel (crashed 0 (set_proc lock_init 0
         (fst (flock_nb (fst (lock_open (kernel lock_init))) 0 0)) (Held 0)))) 1 (abs_path [''l'']))
       = Inr \<lparr>lock_inode = 0, lock_path = abs_path [''l'']\<rparr>"
proof -
  let ?s = "set_proc lock_init 0 (fst (flock_nb (fst (lock_open (kernel lock_init))) 0 0)) (Held 0)"
  have "lock_reach True ?s"
    by (rule lock_by [OF reach_init]) (simp_all add: lock_init_def lock_open_def)
  moreover have "procs ?s 1 = Idle" "procs ?s 0 = Held 0" "lock_name (kernel ?s) = Some 0"
    by (simp_all add: set_proc_def lock_init_def lock_open_def flock_nb_def)
  ultimately show ?thesis
    using instance_lock_available [of True ?s 1 "abs_path [''l'']"] by blast
qed

end
