(* ===== verification/Clipboard.thy ===== *)
theory Clipboard
  imports Prelude
begin

text \<open>
  \<open>crates/invisibool-clipboard/src\<close>: the privacy hints (\<open>hints.rs\<close>), the clipboard trait (\<open>lib.rs\<close>) as
  a record of its methods, and the in-memory clipboard (\<open>in_memory.rs\<close>). A callback is its identity
  (what \<open>Arc::ptr_eq\<close> compares); calling it appends the event to a list of deliveries. The mutex
  serialises the methods, so each is one step. The counters are \<open>u64\<close>; their \<open>+= 1\<close> wraps as in a
  release build.
\<close>

section \<open>Errors and hints\<close>

datatype ClipboardError =
    Unsupported string
  | ReadFailed string
  | WriteFailed string
  | ClearFailed string
  | SubscribeFailed string

definition display_clipboard_error :: "ClipboardError \<Rightarrow> string" where
  "display_clipboard_error e =
     (case e of
        Unsupported reason \<Rightarrow> ''clipboard unsupported: '' @ reason
      | ReadFailed msg \<Rightarrow> ''clipboard read failed: '' @ msg
      | WriteFailed msg \<Rightarrow> ''clipboard write failed: '' @ msg
      | ClearFailed msg \<Rightarrow> ''clipboard clear failed: '' @ msg
      | SubscribeFailed msg \<Rightarrow> ''clipboard subscribe failed: '' @ msg)"

record PrivacyHints =
  exclude_from_clipboard_history :: bool
  exclude_from_cloud_sync :: bool
  exclude_from_screen_monitors :: bool
  macos_concealed_type :: bool

definition CONCEAL_ALL :: PrivacyHints where
  "CONCEAL_ALL =
     \<lparr>exclude_from_clipboard_history = True, exclude_from_cloud_sync = True,
      exclude_from_screen_monitors = True, macos_concealed_type = True\<rparr>"

definition NONE :: PrivacyHints where
  "NONE =
     \<lparr>exclude_from_clipboard_history = False, exclude_from_cloud_sync = False,
      exclude_from_screen_monitors = False, macos_concealed_type = False\<rparr>"

definition any_hint :: "PrivacyHints \<Rightarrow> bool" where
  "any_hint h \<longleftrightarrow>
     exclude_from_clipboard_history h \<or> exclude_from_cloud_sync h
     \<or> exclude_from_screen_monitors h \<or> macos_concealed_type h"

section \<open>The trait\<close>

datatype WriteToken = WriteToken (token_number: u64)

record ClipboardEvent =
  ev_change_count :: u64
  matches_our_write :: "WriteToken option"

type_synonym callback = nat

text \<open>A subscription remembers what its drop has to remove.\<close>

datatype Subscription = Subscription (sub_callback: callback)

record 's Clipboard =
  cb_read_text :: "'s \<Rightarrow> 's \<times> (ClipboardError + string option)"
  cb_write_text :: "'s \<Rightarrow> string \<Rightarrow> PrivacyHints \<Rightarrow> 's \<times> (ClipboardError + WriteToken)"
  cb_clear :: "'s \<Rightarrow> 's \<times> (ClipboardError + unit)"
  cb_change_count :: "'s \<Rightarrow> ClipboardError + u64"
  cb_subscribe :: "'s \<Rightarrow> callback \<Rightarrow> 's \<times> (ClipboardError + Subscription)"
  cb_drop_subscription :: "'s \<Rightarrow> Subscription \<Rightarrow> 's"

section \<open>The in-memory clipboard\<close>

datatype WriteSource = OurWrite | SimulatedExternal

record InMemoryWrite =
  iw_token :: WriteToken
  iw_change_count_after :: u64
  iw_text :: string
  iw_hints :: PrivacyHints
  iw_source :: WriteSource

datatype HistoryEntry = WriteEntry InMemoryWrite | ClearEntry u64 WriteSource

record InMemoryRead =
  at_change_count :: u64
  had_text :: bool
  snapshot :: "string option"

record InMemoryState =
  cl_text :: "string option"
  cl_change_count :: u64
  next_token :: u64
  subscribers :: "callback list"
  cl_history :: "HistoryEntry list"
  cl_reads :: "InMemoryRead list"
  forced_read_err :: "ClipboardError option"
  deliveries :: "(callback \<times> ClipboardEvent) list"

definition clipboard_new :: InMemoryState where
  "clipboard_new =
     \<lparr>cl_text = None, cl_change_count = 0, next_token = 1, subscribers = [], cl_history = [],
      cl_reads = [], forced_read_err = None, deliveries = []\<rparr>"

definition notify :: "ClipboardEvent \<Rightarrow> InMemoryState \<Rightarrow> InMemoryState" where
  "notify ev st = st\<lparr>deliveries := deliveries st @ map (\<lambda>s. (s, ev)) (subscribers st)\<rparr>"

definition clip_history :: "InMemoryState \<Rightarrow> HistoryEntry list" where
  "clip_history st = cl_history st"

definition clip_reads :: "InMemoryState \<Rightarrow> InMemoryRead list" where
  "clip_reads st = cl_reads st"

definition simulate_external_write :: "InMemoryState \<Rightarrow> string \<Rightarrow> InMemoryState" where
  "simulate_external_write st t =
     (let cc = cl_change_count st + 1;
          entry = \<lparr>iw_token = WriteToken 0, iw_change_count_after = cc, iw_text = t,
                   iw_hints = NONE, iw_source = SimulatedExternal\<rparr>
      in notify \<lparr>ev_change_count = cc, matches_our_write = None\<rparr>
           (st\<lparr>cl_change_count := cc, cl_text := Some t, cl_history := cl_history st @ [WriteEntry entry]\<rparr>))"

definition force_next_read_fail :: "InMemoryState \<Rightarrow> ClipboardError \<Rightarrow> InMemoryState" where
  "force_next_read_fail st e = st\<lparr>forced_read_err := Some e\<rparr>"

definition clip_read_text :: "InMemoryState \<Rightarrow> InMemoryState \<times> (ClipboardError + string option)" where
  "clip_read_text st =
     (case forced_read_err st of
        Some e \<Rightarrow> (st\<lparr>forced_read_err := None\<rparr>, Inl e)
      | None \<Rightarrow>
          (st\<lparr>cl_reads := cl_reads st @
               [\<lparr>at_change_count = cl_change_count st, had_text = (cl_text st \<noteq> None), snapshot = cl_text st\<rparr>]\<rparr>,
           Inr (cl_text st)))"

definition clip_write_text ::
  "InMemoryState \<Rightarrow> string \<Rightarrow> PrivacyHints \<Rightarrow> InMemoryState \<times> (ClipboardError + WriteToken)" where
  "clip_write_text st t hints =
     (let token = WriteToken (next_token st);
          cc = cl_change_count st + 1;
          entry = \<lparr>iw_token = token, iw_change_count_after = cc, iw_text = t,
                   iw_hints = hints, iw_source = OurWrite\<rparr>
      in (notify \<lparr>ev_change_count = cc, matches_our_write = Some token\<rparr>
            (st\<lparr>next_token := next_token st + 1, cl_change_count := cc, cl_text := Some t,
                cl_history := cl_history st @ [WriteEntry entry]\<rparr>),
          Inr token))"

definition clip_clear :: "InMemoryState \<Rightarrow> InMemoryState \<times> (ClipboardError + unit)" where
  "clip_clear st =
     (let cc = cl_change_count st + 1
      in (notify \<lparr>ev_change_count = cc, matches_our_write = None\<rparr>
            (st\<lparr>cl_change_count := cc, cl_text := None, cl_history := cl_history st @ [ClearEntry cc OurWrite]\<rparr>),
          Inr ()))"

definition clip_change_count :: "InMemoryState \<Rightarrow> ClipboardError + u64" where
  "clip_change_count st = Inr (cl_change_count st)"

definition clip_subscribe :: "InMemoryState \<Rightarrow> callback \<Rightarrow> InMemoryState \<times> (ClipboardError + Subscription)" where
  "clip_subscribe st on_change =
     (st\<lparr>subscribers := subscribers st @ [on_change]\<rparr>, Inr (Subscription on_change))"

definition clip_drop_subscription :: "InMemoryState \<Rightarrow> Subscription \<Rightarrow> InMemoryState" where
  "clip_drop_subscription st h = st\<lparr>subscribers := filter (\<lambda>s. s \<noteq> sub_callback h) (subscribers st)\<rparr>"

definition in_memory_clipboard :: "InMemoryState Clipboard" where
  "in_memory_clipboard =
     \<lparr>cb_read_text = clip_read_text, cb_write_text = clip_write_text, cb_clear = clip_clear,
      cb_change_count = clip_change_count, cb_subscribe = clip_subscribe,
      cb_drop_subscription = clip_drop_subscription\<rparr>"

section \<open>The contract of a clipboard\<close>

text \<open>
  What the daemon relies on: a successful write is what is read, a clear leaves no text, every
  change bumps the generation counter and reads do not.
\<close>

locale clipboard =
  fixes cb :: "'s Clipboard" and content :: "'s \<Rightarrow> string option"
  assumes read_content: "cb_read_text cb s = (s', Inr c) \<Longrightarrow> c = content s"
    and read_keeps: "cb_read_text cb s = (s', r) \<Longrightarrow>
      content s' = content s \<and> cb_change_count cb s' = cb_change_count cb s"
    and write_content: "cb_write_text cb s t h = (s', Inr tok) \<Longrightarrow> content s' = Some t"
    and write_counts: "cb_write_text cb s t h = (s', Inr tok) \<Longrightarrow>
      cb_change_count cb s = Inr n \<Longrightarrow> cb_change_count cb s' = Inr (n + 1)"
    and clear_content: "cb_clear cb s = (s', Inr ()) \<Longrightarrow> content s' = None"
begin

lemma read_after_write:
  assumes "cb_write_text cb s t h = (s1, Inr tok)" "cb_read_text cb s1 = (s2, Inr r)"
  shows "r = Some t"
  using read_content [OF assms(2)] write_content [OF assms(1)] by simp

lemma read_after_clear:
  assumes "cb_clear cb s = (s1, Inr ())" "cb_read_text cb s1 = (s2, Inr r)"
  shows "r = None"
  using read_content [OF assms(2)] clear_content [OF assms(1)] by simp

text \<open>The generation counter tells an unchanged clipboard from a rewritten one.\<close>

lemma write_changes_count:
  assumes "cb_write_text cb s t h = (s1, Inr tok)" "cb_change_count cb s = Inr n"
  shows "cb_change_count cb s1 \<noteq> Inr n"
  using write_counts [OF assms] by simp

end

lemma notify_simps [simp]:
  "cl_text (notify ev st) = cl_text st" "cl_change_count (notify ev st) = cl_change_count st"
  "next_token (notify ev st) = next_token st" "subscribers (notify ev st) = subscribers st"
  "cl_history (notify ev st) = cl_history st" "cl_reads (notify ev st) = cl_reads st"
  "forced_read_err (notify ev st) = forced_read_err st"
  by (simp_all add: notify_def)

lemmas clip_defs = clip_read_text_def clip_write_text_def clip_clear_def clip_change_count_def
  clip_subscribe_def clip_drop_subscription_def simulate_external_write_def force_next_read_fail_def Let_def

interpretation mem_clip: clipboard in_memory_clipboard cl_text
  by unfold_locales (auto simp: in_memory_clipboard_def clip_defs split: option.splits)

section \<open>Runs\<close>

datatype clip_op =
    OpRead
  | OpWrite string PrivacyHints
  | OpClear
  | OpExternal string
  | OpFail ClipboardError
  | OpSubscribe callback
  | OpDrop callback

definition run_op :: "clip_op \<Rightarrow> InMemoryState \<Rightarrow> InMemoryState" where
  "run_op op st =
     (case op of
        OpRead \<Rightarrow> fst (clip_read_text st)
      | OpWrite t h \<Rightarrow> fst (clip_write_text st t h)
      | OpClear \<Rightarrow> fst (clip_clear st)
      | OpExternal t \<Rightarrow> simulate_external_write st t
      | OpFail e \<Rightarrow> force_next_read_fail st e
      | OpSubscribe cb \<Rightarrow> fst (clip_subscribe st cb)
      | OpDrop cb \<Rightarrow> clip_drop_subscription st (Subscription cb))"

text \<open>
  What the history says. Our writes carry the tokens \<open>n\<close>, \<open>n + 1\<close>, ..., an external write the
  sentinel 0 and no hints; the entries are numbered by the counter values after them; the text is
  that of the last entry.
\<close>

fun history_tokens :: "HistoryEntry list \<Rightarrow> u64 \<Rightarrow> bool" where
  "history_tokens [] n = True"
| "history_tokens (WriteEntry w # es) n =
     (if iw_source w = OurWrite then iw_token w = WriteToken n \<and> history_tokens es (n + 1)
      else iw_token w = WriteToken 0 \<and> iw_hints w = NONE \<and> history_tokens es n)"
| "history_tokens (ClearEntry c src # es) n = history_tokens es n"

fun our_write :: "HistoryEntry \<Rightarrow> bool" where
  "our_write (WriteEntry w) = (iw_source w = OurWrite)"
| "our_write (ClearEntry c src) = False"

fun count_after :: "HistoryEntry \<Rightarrow> u64" where
  "count_after (WriteEntry w) = iw_change_count_after w"
| "count_after (ClearEntry c src) = c"

fun text_after :: "HistoryEntry \<Rightarrow> string option" where
  "text_after (WriteEntry w) = Some (iw_text w)"
| "text_after (ClearEntry c src) = None"

definition our_writes :: "HistoryEntry list \<Rightarrow> nat" where
  "our_writes es = length (filter our_write es)"

definition history_counts :: "HistoryEntry list \<Rightarrow> bool" where
  "history_counts es \<longleftrightarrow> map count_after es = map (\<lambda>i. of_nat (i + 1)) [0..<length es]"

definition history_text :: "HistoryEntry list \<Rightarrow> string option" where
  "history_text es = (if es = [] then None else text_after (last es))"

lemma history_tokens_append:
  "history_tokens (es @ fs) n \<longleftrightarrow> history_tokens es n \<and> history_tokens fs (n + of_nat (our_writes es))"
  by (induction es n rule: history_tokens.induct) (auto simp: our_writes_def algebra_simps)

text \<open>The invariant the mutex guards.\<close>

definition clip_inv :: "InMemoryState \<Rightarrow> bool" where
  "clip_inv st \<longleftrightarrow>
     cl_change_count st = of_nat (length (cl_history st))
     \<and> next_token st = 1 + of_nat (our_writes (cl_history st))
     \<and> history_tokens (cl_history st) 1
     \<and> history_counts (cl_history st)
     \<and> cl_text st = history_text (cl_history st)"

lemma clip_inv_same:
  assumes "clip_inv st" "cl_change_count st' = cl_change_count st" "next_token st' = next_token st"
    "cl_history st' = cl_history st" "cl_text st' = cl_text st"
  shows "clip_inv st'"
  using assms by (simp add: clip_inv_def)

lemma clip_inv_entry:
  assumes "clip_inv st" "cl_change_count st' = cl_change_count st + 1" "cl_history st' = cl_history st @ [e]"
    "count_after e = cl_change_count st'" "cl_text st' = text_after e"
    "next_token st' = next_token st + (if our_write e then 1 else 0)"
    "history_tokens [e] (next_token st)"
  shows "clip_inv st'"
  using assms by (auto simp: clip_inv_def history_tokens_append history_counts_def history_text_def our_writes_def
      algebra_simps)

lemma clip_inv_new: "clip_inv clipboard_new"
  by (simp add: clip_inv_def clipboard_new_def our_writes_def history_counts_def history_text_def)

lemma clip_inv_run_op:
  assumes "clip_inv st"
  shows "clip_inv (run_op op st)"
proof (cases op)
  case OpRead
  then show ?thesis
    by (auto simp: run_op_def clip_defs split: option.splits intro: clip_inv_same [OF assms])
next
  case (OpWrite t h)
  then show ?thesis
    by (auto simp: run_op_def clip_defs intro: clip_inv_entry [OF assms])
next
  case OpClear
  then show ?thesis
    by (auto simp: run_op_def clip_defs intro: clip_inv_entry [OF assms])
next
  case (OpExternal t)
  then show ?thesis
    by (auto simp: run_op_def clip_defs intro: clip_inv_entry [OF assms])
qed (auto simp: run_op_def clip_defs intro: clip_inv_same [OF assms])

lemma clip_inv_run: "clip_inv st \<Longrightarrow> clip_inv (fold run_op ops st)"
  by (induction ops arbitrary: st) (simp_all add: clip_inv_run_op)

section \<open>Deliveries\<close>

text \<open>The events one operation sends, and the subscribers it leaves.\<close>

definition op_event :: "clip_op \<Rightarrow> InMemoryState \<Rightarrow> ClipboardEvent option" where
  "op_event op st =
     (case op of
        OpWrite t h \<Rightarrow> Some \<lparr>ev_change_count = cl_change_count st + 1,
                             matches_our_write = Some (WriteToken (next_token st))\<rparr>
      | OpClear \<Rightarrow> Some \<lparr>ev_change_count = cl_change_count st + 1, matches_our_write = None\<rparr>
      | OpExternal t \<Rightarrow> Some \<lparr>ev_change_count = cl_change_count st + 1, matches_our_write = None\<rparr>
      | _ \<Rightarrow> None)"

definition op_subscribers :: "clip_op \<Rightarrow> callback list \<Rightarrow> callback list" where
  "op_subscribers op ss =
     (case op of
        OpSubscribe c \<Rightarrow> ss @ [c]
      | OpDrop c \<Rightarrow> filter (\<lambda>s. s \<noteq> c) ss
      | _ \<Rightarrow> ss)"

lemma run_op_deliveries:
  "deliveries (run_op op st) =
     deliveries st @ (case op_event op st of None \<Rightarrow> [] | Some ev \<Rightarrow> map (\<lambda>s. (s, ev)) (subscribers st))"
  by (cases op) (auto simp: run_op_def op_event_def clip_defs notify_def split: option.splits)

lemma run_op_subscribers: "subscribers (run_op op st) = op_subscribers op (subscribers st)"
  by (cases op) (auto simp: run_op_def op_subscribers_def clip_defs split: option.splits)

lemma unsubscribed_run:
  assumes "c \<notin> set (subscribers st)" "OpSubscribe c \<notin> set ops"
  shows "filter (\<lambda>d. fst d = c) (deliveries (fold run_op ops st)) = filter (\<lambda>d. fst d = c) (deliveries st)"
  using assms
proof (induction ops arbitrary: st)
  case (Cons op ops)
  have s: "c \<notin> set (subscribers (run_op op st))"
    using Cons.prems by (auto simp: run_op_subscribers op_subscribers_def split: clip_op.splits)
  have d: "filter (\<lambda>d. fst d = c) (deliveries (run_op op st)) = filter (\<lambda>d. fst d = c) (deliveries st)"
    using Cons.prems(1) by (auto simp: run_op_deliveries filter_empty_conv split: option.splits)
  show ?case
    using Cons.IH [OF s] Cons.prems(2) d by simp
qed simp

text \<open>(C40) In every state the in-memory clipboard reaches, the generation counter is the number of
  changes recorded in the history (modulo 2^64) and numbers its entries, our writes carry the
  tokens 1, 2, ... in order while external writes carry the sentinel 0 and no privacy hints, and
  the text is that of the last change.\<close>

theorem clipboard_run_invariant:
  "clip_inv (fold run_op ops clipboard_new)"
  by (rule clip_inv_run [OF clip_inv_new])

text \<open>Dropping a subscription ends the deliveries to its callback until the callback is
  subscribed again, and this holds for every registration of the callback: a second subscription
  of the same callback is cancelled by the drop of the first.\<close>

theorem drop_subscription_cancels:
  assumes "OpSubscribe c \<notin> set ops"
  shows "filter (\<lambda>d. fst d = c) (deliveries (fold run_op ops (clip_drop_subscription st (Subscription c))))
       = filter (\<lambda>d. fst d = c) (deliveries st)"
proof -
  have "c \<notin> set (subscribers (clip_drop_subscription st (Subscription c)))"
    by (simp add: clip_drop_subscription_def)
  moreover have "deliveries (clip_drop_subscription st (Subscription c)) = deliveries st"
    by (simp add: clip_drop_subscription_def)
  ultimately show ?thesis
    using unsubscribed_run assms by metis
qed

theorem drop_subscription_cancels_witness:
  "let st = fold run_op [OpSubscribe 7, OpSubscribe 7] clipboard_new
   in filter (\<lambda>d. fst d = 7) (deliveries (fold run_op [OpExternal ''x'']
        (clip_drop_subscription st (Subscription 7)))) = []
      \<and> deliveries (fold run_op [OpExternal ''x''] st) \<noteq> []"
proof -
  have e: "deliveries (fold run_op [OpSubscribe 7, OpSubscribe 7] clipboard_new) = []"
    by (simp add: run_op_deliveries op_event_def clipboard_new_def)
  have "deliveries (fold run_op [OpExternal ''x''] (fold run_op [OpSubscribe 7, OpSubscribe 7] clipboard_new)) \<noteq> []"
    by (simp add: run_op_deliveries run_op_subscribers op_event_def op_subscribers_def clipboard_new_def)
  then show ?thesis
    using drop_subscription_cancels [of 7 "[OpExternal ''x'']" "fold run_op [OpSubscribe 7, OpSubscribe 7] clipboard_new"]
      e by simp
qed

end
