(* ===== verification/X11State.thy ===== *)
theory X11State
  imports Clipboard
begin

text \<open>
  The X11 backend of the clipboard, first half: \<open>x11/atoms.rs\<close>, \<open>x11/pending.rs\<close>, \<open>x11/state.rs\<close> and
  \<open>x11/dispatcher.rs\<close>. The crate x11rb and the X server behind it are a record of functions over a
  state \<open>'x\<close>: each request gives the next server state and a result, an error is the text of its
  \<open>Display\<close>. The \<open>Arc\<close>s of the pending reads are addresses into the list \<open>xi_reads\<close>; the channel to the
  dispatcher thread is the list \<open>xi_channel\<close>. Text is not zeroized in the model.
\<close>

section \<open>The requests\<close>

type_synonym atom = u32
type_synonym window = u32
type_synonym timestamp = u32

definition X_NONE :: u32 where
  "X_NONE = 0"

definition CURRENT_TIME :: timestamp where
  "CURRENT_TIME = 0"

text \<open>The predefined atoms of the core protocol.\<close>

definition ATOM_ATOM :: atom where
  "ATOM_ATOM = 4"

definition ATOM_INTEGER :: atom where
  "ATOM_INTEGER = 19"

datatype PropMode = PropReplace | PropAppend

datatype x_error = SendError string | ReplyError string

record GetPropertyReply =
  gp_type :: atom
  gp_bytes_after :: u32
  gp_value :: "u8 list"

record SelectionNotifyEvent =
  nf_time :: timestamp
  nf_requestor :: window
  nf_selection :: atom
  nf_target :: atom
  nf_property :: atom

record 'x xserver =
  xs_intern_atom :: "string \<Rightarrow> 'x \<Rightarrow> 'x \<times> (x_error + atom)"
  xs_get_property :: "bool \<Rightarrow> window \<Rightarrow> atom \<Rightarrow> u32 \<Rightarrow> u32 \<Rightarrow> 'x \<Rightarrow> 'x \<times> (x_error + GetPropertyReply)"
  xs_change_property :: "PropMode \<Rightarrow> window \<Rightarrow> atom \<Rightarrow> atom \<Rightarrow> nat \<Rightarrow> u32 \<Rightarrow> u8 list \<Rightarrow> 'x \<Rightarrow> 'x \<times> (string + unit)"
  xs_change_property32 :: "PropMode \<Rightarrow> window \<Rightarrow> atom \<Rightarrow> atom \<Rightarrow> u32 list \<Rightarrow> 'x \<Rightarrow> 'x \<times> (string + unit)"
  xs_delete_property :: "window \<Rightarrow> atom \<Rightarrow> 'x \<Rightarrow> 'x \<times> (string + unit)"
  xs_watch_properties :: "window \<Rightarrow> 'x \<Rightarrow> 'x \<times> (string + unit)"
  xs_send_event :: "window \<Rightarrow> SelectionNotifyEvent \<Rightarrow> 'x \<Rightarrow> 'x \<times> (string + unit)"
  xs_convert_selection :: "window \<Rightarrow> atom \<Rightarrow> atom \<Rightarrow> atom \<Rightarrow> timestamp \<Rightarrow> 'x \<Rightarrow> 'x \<times> (string + unit)"
  xs_set_selection_owner :: "window \<Rightarrow> atom \<Rightarrow> timestamp \<Rightarrow> 'x \<Rightarrow> 'x \<times> (string + unit)"
  xs_flush :: "'x \<Rightarrow> 'x \<times> (string + unit)"
  xs_no_operation :: "'x \<Rightarrow> 'x \<times> (string + unit)"
  xs_enable_bigreq :: "'x \<Rightarrow> 'x \<times> (string + unit)"
  xs_query_xfixes :: "u32 \<Rightarrow> u32 \<Rightarrow> 'x \<Rightarrow> 'x \<times> (x_error + unit)"
  xs_generate_id :: "'x \<Rightarrow> 'x \<times> (string + window)"
  xs_create_window :: "window \<Rightarrow> 'x \<Rightarrow> 'x \<times> (string + unit)"
  xs_select_selection_input :: "window \<Rightarrow> atom \<Rightarrow> 'x \<Rightarrow> 'x \<times> (string + unit)"
  xs_big_endian :: bool

section \<open>Atoms\<close>

record AtomTable =
  atom_clipboard :: atom
  atom_utf8_string :: atom
  atom_string :: atom
  atom_targets :: atom
  atom_timestamp :: atom
  atom_incr :: atom
  atom_invisibool_dest :: atom
  atom_invisibool_timestamp_fetch :: atom

definition intern_one :: "'x xserver \<Rightarrow> string \<Rightarrow> 'x \<Rightarrow> 'x \<times> (ClipboardError + atom)" where
  "intern_one xs nm x =
     (case xs_intern_atom xs nm x of
        (x, Inl (SendError e)) \<Rightarrow> (x, Inl (SubscribeFailed (''intern_atom: '' @ e)))
      | (x, Inl (ReplyError e)) \<Rightarrow> (x, Inl (SubscribeFailed (''intern_atom reply: '' @ e)))
      | (x, Inr a) \<Rightarrow> (x, Inr a))"

text \<open>The \<open>?\<close> operator over the server state.\<close>

definition x_try :: "'x \<times> ('e + 'a) \<Rightarrow> ('a \<Rightarrow> 'x \<Rightarrow> 'x \<times> ('e + 'b)) \<Rightarrow> 'x \<times> ('e + 'b)" where
  "x_try m f = (case m of (x, Inl e) \<Rightarrow> (x, Inl e) | (x, Inr a) \<Rightarrow> f a x)"

lemma x_try_simps [simp]:
  "x_try (x, Inl e) f = (x, Inl e)" "x_try (x, Inr a) f = f a x"
  by (simp_all add: x_try_def)

definition intern_table :: "'x xserver \<Rightarrow> 'x \<Rightarrow> 'x \<times> (ClipboardError + AtomTable)" where
  "intern_table xs x =
     x_try (intern_one xs ''CLIPBOARD'' x) (\<lambda>c x.
     x_try (intern_one xs ''UTF8_STRING'' x) (\<lambda>u x.
     x_try (intern_one xs ''STRING'' x) (\<lambda>s x.
     x_try (intern_one xs ''TARGETS'' x) (\<lambda>t x.
     x_try (intern_one xs ''TIMESTAMP'' x) (\<lambda>ts x.
     x_try (intern_one xs ''INCR'' x) (\<lambda>i x.
     x_try (intern_one xs ''INVISIBOOL_DEST'' x) (\<lambda>d x.
     x_try (intern_one xs ''INVISIBOOL_TIMESTAMP_FETCH'' x) (\<lambda>f x.
       (x, Inr \<lparr>atom_clipboard = c, atom_utf8_string = u, atom_string = s, atom_targets = t,
                atom_timestamp = ts, atom_incr = i, atom_invisibool_dest = d,
                atom_invisibool_timestamp_fetch = f\<rparr>)))))))))"

section \<open>Limits\<close>

definition READ_CONVERSION_TIMEOUT :: duration where
  "READ_CONVERSION_TIMEOUT = from_millis 500"

definition INCR_CHUNK_TIMEOUT :: duration where
  "INCR_CHUNK_TIMEOUT = from_millis 500"

definition MAX_CLIPBOARD_BYTES :: nat where
  "MAX_CLIPBOARD_BYTES = 8 * 1024 * 1024"

definition OWNER_SINGLE_SHOT_CAP :: nat where
  "OWNER_SINGLE_SHOT_CAP = 256 * 1024"

definition OWNER_INCR_CHUNK_SIZE :: nat where
  "OWNER_INCR_CHUNK_SIZE = 64 * 1024"

section \<open>Shared state\<close>

datatype PendingReadState = Awaiting | IncrInProgress | Done "ClipboardError + string option"

type_synonym pending = nat

record IncrReceive =
  ir_pending :: pending
  ir_accumulated :: "u8 list"
  ir_last_chunk_at :: instant

record IncrSend =
  is_content :: string
  is_next_offset :: nat
  is_timestamp :: timestamp
  is_target_property :: atom
  is_requestor :: window
  is_target :: atom
  is_started_at :: instant

record OwnedContent =
  oc_text :: string
  oc_hints :: PrivacyHints
  oc_token :: WriteToken
  oc_acquired_at :: timestamp
  oc_set_at :: instant

datatype DispatchMessage = DispatchEvent ClipboardEvent | DispatchShutdown

record X11Inner =
  xi_atoms :: AtomTable
  xi_our_window :: window
  xi_owned :: "OwnedContent option"
  xi_subscribers :: "callback list"
  xi_pending_reads :: "(atom \<times> pending) list"
  xi_incr_receives :: "(atom \<times> IncrReceive) list"
  xi_incr_sends :: "((window \<times> atom) \<times> IncrSend) list"
  xi_next_token :: u64
  xi_shutdown :: bool
  xi_last_change_count :: u64
  xi_pending_timestamp :: "timestamp option option"
  xi_reads :: "PendingReadState list"
  xi_channel :: "DispatchMessage list"

definition inner_new :: "AtomTable \<Rightarrow> window \<Rightarrow> X11Inner" where
  "inner_new ats w =
     \<lparr>xi_atoms = ats, xi_our_window = w, xi_owned = None, xi_subscribers = [], xi_pending_reads = [],
      xi_incr_receives = [], xi_incr_sends = [], xi_next_token = 1, xi_shutdown = False,
      xi_last_change_count = 0, xi_pending_timestamp = None, xi_reads = [], xi_channel = []\<rparr>"

definition new_token :: "X11Inner \<Rightarrow> X11Inner \<times> WriteToken" where
  "new_token st = (st\<lparr>xi_next_token := xi_next_token st + 1\<rparr>, WriteToken (xi_next_token st))"

definition bump_change_count :: "X11Inner \<Rightarrow> X11Inner \<times> u64" where
  "bump_change_count st =
     (let n = xi_last_change_count st + 1 in (st\<lparr>xi_last_change_count := n\<rparr>, n))"

text \<open>\<open>PendingRead::new\<close>, \<open>complete\<close> and \<open>set_incr_in_progress\<close>.\<close>

definition pending_new :: "X11Inner \<Rightarrow> X11Inner \<times> pending" where
  "pending_new st = (st\<lparr>xi_reads := xi_reads st @ [Awaiting]\<rparr>, length (xi_reads st))"

definition pending_complete :: "pending \<Rightarrow> ClipboardError + string option \<Rightarrow> X11Inner \<Rightarrow> X11Inner" where
  "pending_complete p r st = st\<lparr>xi_reads := (xi_reads st)[p := Done r]\<rparr>"

definition set_incr_in_progress :: "pending \<Rightarrow> X11Inner \<Rightarrow> X11Inner" where
  "set_incr_in_progress p st = st\<lparr>xi_reads := (xi_reads st)[p := IncrInProgress]\<rparr>"

section \<open>The dispatcher\<close>

definition send_event :: "ClipboardEvent \<Rightarrow> X11Inner \<Rightarrow> X11Inner" where
  "send_event ev st = st\<lparr>xi_channel := xi_channel st @ [DispatchEvent ev]\<rparr>"

definition signal_shutdown :: "X11Inner \<Rightarrow> X11Inner" where
  "signal_shutdown st = st\<lparr>xi_channel := xi_channel st @ [DispatchShutdown]\<rparr>"

text \<open>
  One turn of \<open>dispatcher_loop\<close>: the calls it makes, and whether the loop goes on. An empty channel
  blocks, so there is no turn then.
\<close>

definition dispatch_turn :: "X11Inner \<Rightarrow> (X11Inner \<times> (callback \<times> ClipboardEvent) list \<times> bool) option" where
  "dispatch_turn st =
     (case xi_channel st of
        [] \<Rightarrow> None
      | DispatchShutdown # ms \<Rightarrow> Some (st\<lparr>xi_channel := ms\<rparr>, [], False)
      | DispatchEvent ev # ms \<Rightarrow> Some (st\<lparr>xi_channel := ms\<rparr>, map (\<lambda>c. (c, ev)) (xi_subscribers st), True))"

end
