(* ===== verification/X11Events.thy ===== *)
theory X11Events
  imports X11State
begin

text \<open>
  \<open>x11/event_thread.rs\<close>: the handlers of the event-reader thread and the sweeps of its watchdog.
  A handler is one step on the shared state; where it may not return (the loop over the parts of a
  property asks the server again and again) it gives an option whose \<open>None\<close> is not returning.
\<close>

section \<open>Requests of the event thread\<close>

definition get_property ::
  "'x xserver \<Rightarrow> window \<Rightarrow> atom \<Rightarrow> bool \<Rightarrow> u32 \<Rightarrow> u32 \<Rightarrow> 'x \<Rightarrow> 'x \<times> (ClipboardError + GetPropertyReply)" where
  "get_property xs w p delete long_offset long_length x =
     (case xs_get_property xs delete w p long_offset long_length x of
        (x, Inl (SendError e)) \<Rightarrow> (x, Inl (ReadFailed (''get_property send: '' @ e)))
      | (x, Inl (ReplyError e)) \<Rightarrow> (x, Inl (ReadFailed (''get_property reply: '' @ e)))
      | (x, Inr r) \<Rightarrow> (x, Inr r))"

definition change_property_u8 ::
  "'x xserver \<Rightarrow> window \<Rightarrow> atom \<Rightarrow> atom \<Rightarrow> u8 list \<Rightarrow> 'x \<Rightarrow> 'x \<times> (ClipboardError + unit)" where
  "change_property_u8 xs w p ty bytes x =
     (case xs_change_property xs PropReplace w p ty 8 (of_nat (length bytes)) bytes x of
        (x, r) \<Rightarrow> (x, map_err (\<lambda>e. WriteFailed (''change_property send: '' @ e)) r))"

text \<open>A request whose result is dropped.\<close>

definition quietly :: "'x \<times> 'r \<Rightarrow> 'x" where
  [simp]: "quietly m = fst m"

section \<open>Events\<close>

record XfixesSelectionNotify =
  xf_owner :: window
  xf_selection :: atom

datatype property_state = NEW_VALUE | DELETE | OtherPropertyState

record PropertyNotifyEvent =
  pn_window :: window
  pn_atom :: atom
  pn_time :: timestamp
  pn_state :: property_state

record SelectionRequestEvent =
  rq_time :: timestamp
  rq_requestor :: window
  rq_selection :: atom
  rq_target :: atom
  rq_property :: atom

datatype x_event =
    XfixesSelection XfixesSelectionNotify
  | SelectionNotify SelectionNotifyEvent
  | SelectionRequest SelectionRequestEvent
  | PropertyNotify PropertyNotifyEvent
  | SelectionClear atom
  | OtherEvent

definition handle_xfixes_selection_notify :: "XfixesSelectionNotify \<Rightarrow> X11Inner \<Rightarrow> X11Inner" where
  "handle_xfixes_selection_notify ev st =
     (if xf_selection ev \<noteq> atom_clipboard (xi_atoms st) then st
      else
        (case bump_change_count st of
           (st, cc) \<Rightarrow>
             let owned_token = map_option oc_token (xi_owned st)
             in send_event \<lparr>ev_change_count = cc,
                  matches_our_write = (if xf_owner ev = xi_our_window st then owned_token else None)\<rparr> st))"

section \<open>Reading: the reply to our request\<close>

definition too_large :: ClipboardError where
  "too_large = ReadFailed ''clipboard content exceeds the 8 MiB limit; not scrubbed''"

definition complete_plain_read :: "pending \<Rightarrow> u8 list \<Rightarrow> X11Inner \<Rightarrow> X11Inner" where
  "complete_plain_read p buf st =
     pending_complete p
       (if is_utf8 (bytes_to_str buf) then Inr (Some (bytes_to_str buf))
        else Inl (ReadFailed ''clipboard content was not valid UTF-8'')) st"

text \<open>The loop over the parts of a property that one reply does not hold.\<close>

partial_function (option) read_parts ::
  "'x xserver \<Rightarrow> window \<Rightarrow> atom \<Rightarrow> u8 list \<Rightarrow> nat \<Rightarrow> 'x \<Rightarrow> ('x \<times> (ClipboardError + u8 list)) option" where
  "read_parts xs w p accumulated bytes_after x =
     (if bytes_after = 0 then Some (x, Inr accumulated)
      else if length accumulated + bytes_after > MAX_CLIPBOARD_BYTES then Some (x, Inl too_large)
      else
        (case get_property xs w p False (of_nat (length accumulated div 4)) (of_nat (MAX_CLIPBOARD_BYTES div 4)) x of
           (x, Inl e) \<Rightarrow> Some (x, Inl e)
         | (x, Inr next) \<Rightarrow> read_parts xs w p (accumulated @ gp_value next) (unat (gp_bytes_after next)) x))"

definition u32_from_ne_bytes :: "'x xserver \<Rightarrow> u8 list \<Rightarrow> u32" where
  "u32_from_ne_bytes xs bs =
     word_of_nat (foldl (\<lambda>n b. n * 256 + unat b) 0 (if xs_big_endian xs then bs else rev bs))"

definition start_incr_receive ::
  "'x xserver \<Rightarrow> instant \<Rightarrow> pending \<Rightarrow> atom \<Rightarrow> X11Inner \<times> 'x \<Rightarrow> X11Inner \<times> 'x" where
  "start_incr_receive xs now p dest_property s =
     (case s of (st, x) \<Rightarrow>
        let st = set_incr_in_progress p st;
            st = st\<lparr>xi_incr_receives := AList.update dest_property
                     \<lparr>ir_pending = p, ir_accumulated = [], ir_last_chunk_at = now\<rparr> (xi_incr_receives st)\<rparr>;
            x = quietly (xs_delete_property xs (xi_our_window st) dest_property x);
            x = quietly (xs_flush xs x)
        in (st, x))"

definition handle_selection_notify ::
  "'x xserver \<Rightarrow> instant \<Rightarrow> SelectionNotifyEvent \<Rightarrow> X11Inner \<times> 'x \<Rightarrow> (X11Inner \<times> 'x) option" where
  "handle_selection_notify xs now ev s =
     (case s of (st, x) \<Rightarrow>
        let dest_property = (if nf_property ev = X_NONE then atom_invisibool_dest (xi_atoms st) else nf_property ev)
        in case map_of (xi_pending_reads st) dest_property of
             None \<Rightarrow> Some (st, x)
           | Some p \<Rightarrow>
               let st = st\<lparr>xi_pending_reads := AList.delete dest_property (xi_pending_reads st)\<rparr>
               in if nf_property ev = X_NONE then Some (pending_complete p (Inr None) st, x)
                  else
                    (case get_property xs (nf_requestor ev) (nf_property ev) False 0 8 x of
                       (x, Inl e) \<Rightarrow> Some (pending_complete p (Inl e) st, x)
                     | (x, Inr peek) \<Rightarrow>
                         if gp_type peek = atom_incr (xi_atoms st) then
                           (if length (gp_value peek) \<ge> 4
                               \<and> unat (u32_from_ne_bytes xs (take 4 (gp_value peek))) > MAX_CLIPBOARD_BYTES
                            then Some (pending_complete p (Inl too_large) st, x)
                            else Some (start_incr_receive xs now p dest_property (st, x)))
                         else
                           (case read_parts xs (nf_requestor ev) (nf_property ev) (gp_value peek)
                                   (unat (gp_bytes_after peek)) x of
                              None \<Rightarrow> None
                            | Some (x, Inl e) \<Rightarrow> Some (pending_complete p (Inl e) st, x)
                            | Some (x, Inr buf) \<Rightarrow> Some (complete_plain_read p buf st, x))))"

section \<open>Reading: the chunks of an incremental transfer\<close>

definition finish_receive :: "atom \<Rightarrow> (IncrReceive \<Rightarrow> X11Inner \<Rightarrow> X11Inner) \<Rightarrow> X11Inner \<Rightarrow> X11Inner" where
  "finish_receive property f st =
     (case map_of (xi_incr_receives st) property of
        None \<Rightarrow> st
      | Some entry \<Rightarrow>
          f entry (st\<lparr>xi_incr_receives := AList.delete property (xi_incr_receives st)\<rparr>))"

definition handle_incr_receive_chunk ::
  "'x xserver \<Rightarrow> instant \<Rightarrow> atom \<Rightarrow> X11Inner \<times> 'x \<Rightarrow> X11Inner \<times> 'x" where
  "handle_incr_receive_chunk xs now property s =
     (case s of (st, x) \<Rightarrow>
        case map_of (xi_incr_receives st) property of
          None \<Rightarrow> (st, x)
        | Some entry \<Rightarrow>
            (case get_property xs (xi_our_window st) property True 0 (of_nat (MAX_CLIPBOARD_BYTES div 4)) x of
               (x, Inl e) \<Rightarrow>
                 (finish_receive property (\<lambda>entry. pending_complete (ir_pending entry) (Inl e)) st, x)
             | (x, Inr peek) \<Rightarrow>
                 if gp_value peek = [] then
                   (finish_receive property (\<lambda>entry. complete_plain_read (ir_pending entry) (ir_accumulated entry)) st, x)
                 else if length (ir_accumulated entry) + length (gp_value peek) > MAX_CLIPBOARD_BYTES then
                   (finish_receive property (\<lambda>entry. pending_complete (ir_pending entry) (Inl too_large)) st, x)
                 else
                   (st\<lparr>xi_incr_receives := AList.update property
                        (entry\<lparr>ir_accumulated := ir_accumulated entry @ gp_value peek, ir_last_chunk_at := now\<rparr>)
                        (xi_incr_receives st)\<rparr>, x)))"

section \<open>Serving: the requests of other clients\<close>

definition send_selection_notify ::
  "'x xserver \<Rightarrow> SelectionRequestEvent \<Rightarrow> atom \<Rightarrow> atom \<Rightarrow> 'x \<Rightarrow> 'x" where
  "send_selection_notify xs request target property x =
     quietly (xs_flush xs (quietly (xs_send_event xs (rq_requestor request)
       \<lparr>nf_time = rq_time request, nf_requestor = rq_requestor request, nf_selection = rq_selection request,
        nf_target = target, nf_property = property\<rparr> x)))"

text \<open>Every branch that writes the property answers with it, or with none when the request failed.\<close>

definition notify_written ::
  "'x xserver \<Rightarrow> SelectionRequestEvent \<Rightarrow> 'x \<times> ('e + unit) \<Rightarrow> 'x" where
  "notify_written xs ev r =
     (case r of
        (x, Inl _) \<Rightarrow> send_selection_notify xs ev (rq_target ev) X_NONE x
      | (x, Inr _) \<Rightarrow> send_selection_notify xs ev (rq_target ev) (rq_property ev) x)"

definition serve_targets :: "'x xserver \<Rightarrow> SelectionRequestEvent \<Rightarrow> X11Inner \<times> 'x \<Rightarrow> X11Inner \<times> 'x" where
  "serve_targets xs ev s =
     (case s of (st, x) \<Rightarrow>
        let ats = xi_atoms st
        in (st, notify_written xs ev
              (xs_change_property32 xs PropReplace (rq_requestor ev) (rq_property ev) ATOM_ATOM
                 [atom_utf8_string ats, atom_string ats, atom_targets ats, atom_timestamp ats] x)))"

definition serve_timestamp :: "'x xserver \<Rightarrow> SelectionRequestEvent \<Rightarrow> X11Inner \<times> 'x \<Rightarrow> X11Inner \<times> 'x" where
  "serve_timestamp xs ev s =
     (case s of (st, x) \<Rightarrow>
        case xi_owned st of
          None \<Rightarrow> (st, send_selection_notify xs ev (rq_target ev) X_NONE x)
        | Some c \<Rightarrow>
            (st, notify_written xs ev
               (xs_change_property32 xs PropReplace (rq_requestor ev) (rq_property ev) ATOM_INTEGER
                  [oc_acquired_at c] x)))"

definition serve_incr ::
  "'x xserver \<Rightarrow> instant \<Rightarrow> SelectionRequestEvent \<Rightarrow> string \<Rightarrow> X11Inner \<times> 'x \<Rightarrow> X11Inner \<times> 'x" where
  "serve_incr xs now ev t s =
     (case s of (st, x) \<Rightarrow>
        let x = quietly (xs_watch_properties xs (rq_requestor ev) x)
        in case xs_change_property32 xs PropReplace (rq_requestor ev) (rq_property ev)
                  (atom_incr (xi_atoms st)) [of_nat (length t)] x of
             (x, Inl _) \<Rightarrow> (st, send_selection_notify xs ev (rq_target ev) X_NONE x)
           | (x, Inr _) \<Rightarrow>
               (st\<lparr>xi_incr_sends := AList.update (rq_requestor ev, rq_property ev)
                    \<lparr>is_content = t, is_next_offset = 0, is_timestamp = rq_time ev,
                     is_target_property = rq_property ev, is_requestor = rq_requestor ev,
                     is_target = atom_utf8_string (xi_atoms st), is_started_at = now\<rparr> (xi_incr_sends st)\<rparr>,
                send_selection_notify xs ev (rq_target ev) (rq_property ev) x))"

definition serve_text ::
  "'x xserver \<Rightarrow> instant \<Rightarrow> SelectionRequestEvent \<Rightarrow> X11Inner \<times> 'x \<Rightarrow> X11Inner \<times> 'x" where
  "serve_text xs now ev s =
     (case s of (st, x) \<Rightarrow>
        case xi_owned st of
          None \<Rightarrow> (st, send_selection_notify xs ev (rq_target ev) X_NONE x)
        | Some c \<Rightarrow>
            if length (oc_text c) \<le> OWNER_SINGLE_SHOT_CAP then
              (st, notify_written xs ev
                 (change_property_u8 xs (rq_requestor ev) (rq_property ev) (atom_utf8_string (xi_atoms st))
                    (as_bytes (oc_text c)) x))
            else serve_incr xs now ev (oc_text c) (st, x))"

definition handle_selection_request ::
  "'x xserver \<Rightarrow> instant \<Rightarrow> SelectionRequestEvent \<Rightarrow> X11Inner \<times> 'x \<Rightarrow> X11Inner \<times> 'x" where
  "handle_selection_request xs now ev s =
     (let ats = xi_atoms (fst s)
      in if rq_target ev = atom_targets ats then serve_targets xs ev s
         else if rq_target ev = atom_timestamp ats then serve_timestamp xs ev s
         else if rq_target ev = atom_utf8_string ats \<or> rq_target ev = atom_string ats then serve_text xs now ev s
         else (fst s, send_selection_notify xs ev (rq_target ev) X_NONE (snd s)))"

definition serve_next_incr_chunk :: "'x xserver \<Rightarrow> window \<times> atom \<Rightarrow> X11Inner \<times> 'x \<Rightarrow> X11Inner \<times> 'x" where
  "serve_next_incr_chunk xs k s =
     (case s of (st, x) \<Rightarrow>
        case map_of (xi_incr_sends st) k of
          None \<Rightarrow> (st, x)
        | Some entry \<Rightarrow>
            let bytes = as_bytes (is_content entry);
                remaining = length bytes - is_next_offset entry
            in if remaining = 0 then
                 (st\<lparr>xi_incr_sends := AList.delete k (xi_incr_sends st)\<rparr>,
                  quietly (xs_flush xs (quietly
                    (change_property_u8 xs (is_requestor entry) (is_target_property entry) (is_target entry) [] x))))
               else
                 let take_n = min remaining OWNER_INCR_CHUNK_SIZE;
                     stop = is_next_offset entry + take_n;
                     chunk = take take_n (drop (is_next_offset entry) bytes)
                 in (st\<lparr>xi_incr_sends := AList.update k (entry\<lparr>is_next_offset := stop\<rparr>) (xi_incr_sends st)\<rparr>,
                     quietly (xs_flush xs (quietly
                       (change_property_u8 xs (fst k) (snd k) (atom_utf8_string (xi_atoms st)) chunk x)))))"

section \<open>Property changes\<close>

definition handle_property_notify ::
  "'x xserver \<Rightarrow> instant \<Rightarrow> PropertyNotifyEvent \<Rightarrow> X11Inner \<times> 'x \<Rightarrow> X11Inner \<times> 'x" where
  "handle_property_notify xs now ev s =
     (case s of (st, x) \<Rightarrow>
        if pn_window ev = xi_our_window st \<and> pn_atom ev = atom_invisibool_timestamp_fetch (xi_atoms st) then
          (case xi_pending_timestamp st of
             Some None \<Rightarrow> (st\<lparr>xi_pending_timestamp := Some (Some (pn_time ev))\<rparr>, x)
           | _ \<Rightarrow> (st, x))
        else if pn_state ev = NEW_VALUE \<and> pn_window ev = xi_our_window st then
          handle_incr_receive_chunk xs now (pn_atom ev) (st, x)
        else if pn_state ev = DELETE then
          (let k = (pn_window ev, pn_atom ev)
           in if map_of (xi_incr_sends st) k \<noteq> None then serve_next_incr_chunk xs k (st, x) else (st, x))
        else (st, x))"

section \<open>The loop and the watchdog\<close>

definition handle_event ::
  "'x xserver \<Rightarrow> instant \<Rightarrow> x_event \<Rightarrow> X11Inner \<times> 'x \<Rightarrow> (X11Inner \<times> 'x) option" where
  "handle_event xs now e s =
     (case e of
        XfixesSelection ev \<Rightarrow> Some (handle_xfixes_selection_notify ev (fst s), snd s)
      | SelectionNotify ev \<Rightarrow> handle_selection_notify xs now ev s
      | SelectionRequest ev \<Rightarrow> Some (handle_selection_request xs now ev s)
      | PropertyNotify ev \<Rightarrow> Some (handle_property_notify xs now ev s)
      | SelectionClear selection \<Rightarrow>
          Some (if selection = atom_clipboard (xi_atoms (fst s)) then ((fst s)\<lparr>xi_owned := None\<rparr>, snd s) else s)
      | OtherEvent \<Rightarrow> Some s)"

text \<open>
  One turn of the loop of \<open>run\<close>: what \<open>wait_for_event\<close> returned (\<open>Inl\<close> is a broken connection), and
  whether the loop goes on.
\<close>

definition event_turn ::
  "'x xserver \<Rightarrow> instant \<Rightarrow> string + x_event \<Rightarrow> X11Inner \<times> 'x \<Rightarrow> ((X11Inner \<times> 'x) \<times> bool) option" where
  "event_turn xs now r s =
     (if xi_shutdown (fst s) then Some ((signal_shutdown (fst s), snd s), False)
      else
        (case r of
           Inl _ \<Rightarrow> Some ((signal_shutdown (fst s), snd s), False)
         | Inr e \<Rightarrow> map_option (\<lambda>s'. (s', True)) (handle_event xs now e s)))"

definition late_chunk :: ClipboardError where
  "late_chunk = ReadFailed ''clipboard owner did not send the next chunk within the timeout''"

definition sweep_incr_receive_timeouts :: "instant \<Rightarrow> X11Inner \<Rightarrow> X11Inner" where
  "sweep_incr_receive_timeouts now st =
     (let to_fail = map fst (filter (\<lambda>(a, entry). now - ir_last_chunk_at entry > INCR_CHUNK_TIMEOUT)
            (xi_incr_receives st))
      in fold (\<lambda>a. finish_receive a (\<lambda>entry. pending_complete (ir_pending entry) (Inl late_chunk))) to_fail st)"

definition sweep_incr_send_timeouts :: "instant \<Rightarrow> X11Inner \<Rightarrow> X11Inner" where
  "sweep_incr_send_timeouts now st =
     st\<lparr>xi_incr_sends := filter (\<lambda>(k, entry). now - is_started_at entry < from_millis 10000) (xi_incr_sends st)\<rparr>"

end
