(* ===== verification/X11Clipboard.thy ===== *)
theory X11Clipboard
  imports X11Events
begin

text \<open>
  \<open>x11/mod.rs\<close>: opening the backend and the methods of the clipboard trait. A method that waits on a
  condition variable is a small machine: one function for its start and one for each time it holds
  the lock again, with the time of that moment; between them the other threads step.
\<close>

section \<open>Opening\<close>

definition unsupported_from :: "string \<Rightarrow> ClipboardError" where
  "unsupported_from msg = ReadFailed msg"

definition x_err :: "string \<Rightarrow> 'x \<times> (string + 'a) \<Rightarrow> 'x \<times> (ClipboardError + 'a)" where
  "x_err what m = (case m of (x, r) \<Rightarrow> (x, map_err (\<lambda>e. unsupported_from (what @ '': '' @ e)) r))"

text \<open>\<open>X11Clipboard::new\<close>; \<open>spawn\<close> is what starting the two threads gives.\<close>

definition x11_new ::
  "'x xserver \<Rightarrow> string + 'x \<Rightarrow> string + unit \<Rightarrow> string + unit \<Rightarrow> ClipboardError + X11Inner \<times> 'x" where
  "x11_new xs conn spawn_dispatcher spawn_events =
     (case conn of
        Inl e \<Rightarrow> Inl (unsupported_from (''open X connection: '' @ e))
      | Inr x \<Rightarrow>
          let x = quietly (xs_enable_bigreq xs x);
              xfixes = (case xs_query_xfixes xs 5 0 x of
                   (x, Inl (SendError e)) \<Rightarrow> (x, Inl (unsupported_from (''xfixes query: '' @ e)))
                 | (x, Inl (ReplyError e)) \<Rightarrow> (x, Inl (unsupported_from (''xfixes reply: '' @ e)))
                 | (x, Inr u) \<Rightarrow> (x, Inr u));
              opened =
                x_try xfixes (\<lambda>_ x.
                x_try (intern_table xs x) (\<lambda>ats x.
                x_try (x_err ''generate_id'' (xs_generate_id xs x)) (\<lambda>w x.
                x_try (x_err ''create_window'' (xs_create_window xs w x)) (\<lambda>_ x.
                x_try (case xs_select_selection_input xs w (atom_clipboard ats) x of
                         (x, r) \<Rightarrow> (x, map_err (\<lambda>e. SubscribeFailed (''select_selection_input: '' @ e)) r)) (\<lambda>_ x.
                x_try (x_err ''flush'' (xs_flush xs x)) (\<lambda>_ x.
                x_try (x_err ''spawn dispatcher'' (x, spawn_dispatcher)) (\<lambda>_ x.
                x_try (x_err ''spawn event thread'' (x, spawn_events)) (\<lambda>_ x.
                  (x, Inr (inner_new ats w))))))))))
          in (case opened of (x, Inl e) \<Rightarrow> Inl e | (x, Inr st) \<Rightarrow> Inr (st, x)))"

section \<open>The time of the server\<close>

text \<open>
  \<open>fetch_server_time\<close>: it waits while another writer holds the slot (\<open>None\<close>), then asks for a
  property change that carries the time. The \<open>?\<close> of the two requests leaves the slot taken.
\<close>

definition fetch_start ::
  "'x xserver \<Rightarrow> instant \<Rightarrow> X11Inner \<times> 'x \<Rightarrow> ((X11Inner \<times> 'x) \<times> (ClipboardError + instant)) option" where
  "fetch_start xs now s =
     (case s of (st, x) \<Rightarrow>
        if xi_pending_timestamp st \<noteq> None then None
        else
          (let st = st\<lparr>xi_pending_timestamp := Some None\<rparr>
           in case xs_change_property xs PropAppend (xi_our_window st)
                     (atom_invisibool_timestamp_fetch (xi_atoms st)) ATOM_ATOM 32 0 [] x of
                (x, Inl e) \<Rightarrow> Some ((st, x), Inl (WriteFailed (''change_property (ts fetch): '' @ e)))
              | (x, Inr _) \<Rightarrow>
                  (case xs_flush xs x of
                     (x, Inl e) \<Rightarrow> Some ((st, x), Inl (WriteFailed (''flush (ts fetch): '' @ e)))
                   | (x, Inr _) \<Rightarrow> Some ((st, x), Inr (now + from_millis 500)))))"

definition fetch_wake :: "instant \<Rightarrow> instant \<Rightarrow> X11Inner \<Rightarrow> (X11Inner \<times> (ClipboardError + timestamp)) option" where
  "fetch_wake deadline now st =
     (case xi_pending_timestamp st of
        Some (Some t) \<Rightarrow> Some (st\<lparr>xi_pending_timestamp := None\<rparr>, Inr t)
      | _ \<Rightarrow>
          if now \<ge> deadline then
            Some (st\<lparr>xi_pending_timestamp := None\<rparr>,
                  Inl (WriteFailed ''timed out fetching a server timestamp for SetSelectionOwner''))
          else None)"

section \<open>Writing\<close>

datatype writer =
    WriteWaiting string PrivacyHints
  | WriteFetching string PrivacyHints instant
  | WriteStamped string PrivacyHints timestamp
  | WriteStored WriteToken timestamp
  | WriteDone "ClipboardError + WriteToken"

definition write_start :: "string \<Rightarrow> PrivacyHints \<Rightarrow> writer" where
  "write_start t hints =
     (if length t > MAX_CLIPBOARD_BYTES
      then WriteDone (Inl (WriteFailed ''clipboard content exceeds the 8 MiB limit''))
      else WriteWaiting t hints)"

definition store_content :: "string \<Rightarrow> PrivacyHints \<Rightarrow> timestamp \<Rightarrow> instant \<Rightarrow> X11Inner \<Rightarrow> X11Inner \<times> WriteToken" where
  "store_content t hints acquired_at now st =
     (case new_token st of (st, token) \<Rightarrow>
        (st\<lparr>xi_owned := Some \<lparr>oc_text = t, oc_hints = hints, oc_token = token,
              oc_acquired_at = acquired_at, oc_set_at = now\<rparr>\<rparr>, token))"

definition claim_selection ::
  "'x xserver \<Rightarrow> WriteToken \<Rightarrow> timestamp \<Rightarrow> X11Inner \<times> 'x \<Rightarrow> 'x \<times> (ClipboardError + WriteToken)" where
  "claim_selection xs token acquired_at s =
     (case s of (st, x) \<Rightarrow>
        case xs_set_selection_owner xs (xi_our_window st) (atom_clipboard (xi_atoms st)) acquired_at x of
          (x, Inl e) \<Rightarrow> (x, Inl (WriteFailed (''set_selection_owner: '' @ e)))
        | (x, Inr _) \<Rightarrow>
            (case xs_flush xs x of
               (x, Inl e) \<Rightarrow> (x, Inl (WriteFailed (''flush: '' @ e)))
             | (x, Inr _) \<Rightarrow> (x, Inr token)))"

definition write_step :: "'x xserver \<Rightarrow> instant \<Rightarrow> writer \<Rightarrow> X11Inner \<times> 'x \<Rightarrow> (X11Inner \<times> 'x) \<times> writer" where
  "write_step xs now w s =
     (case w of
        WriteWaiting t hints \<Rightarrow>
          (case fetch_start xs now s of
             None \<Rightarrow> (s, w)
           | Some (s', Inl e) \<Rightarrow> (s', WriteDone (Inl e))
           | Some (s', Inr deadline) \<Rightarrow> (s', WriteFetching t hints deadline))
      | WriteFetching t hints deadline \<Rightarrow>
          (case fetch_wake deadline now (fst s) of
             None \<Rightarrow> (s, w)
           | Some (st, Inl e) \<Rightarrow> ((st, snd s), WriteDone (Inl e))
           | Some (st, Inr ts) \<Rightarrow> ((st, snd s), WriteStamped t hints ts))
      | WriteStamped t hints ts \<Rightarrow>
          (case store_content t hints ts now (fst s) of (st, token) \<Rightarrow> ((st, snd s), WriteStored token ts))
      | WriteStored token ts \<Rightarrow>
          (case claim_selection xs token ts s of (x, r) \<Rightarrow> ((fst s, x), WriteDone r))
      | WriteDone r \<Rightarrow> (s, w))"

section \<open>Reading\<close>

definition read_busy :: ClipboardError where
  "read_busy = ReadFailed ''another read is already in progress on this backend''"

definition read_timeout :: ClipboardError where
  "read_timeout = ReadFailed ''clipboard owner did not respond within the timeout''"

definition drop_pending_read :: "X11Inner \<Rightarrow> X11Inner" where
  "drop_pending_read st =
     st\<lparr>xi_pending_reads := AList.delete (atom_invisibool_dest (xi_atoms st)) (xi_pending_reads st)\<rparr>"

definition read_start :: "'x xserver \<Rightarrow> X11Inner \<times> 'x \<Rightarrow> (X11Inner \<times> 'x) \<times> (ClipboardError + pending)" where
  "read_start xs s =
     (case s of (st, x) \<Rightarrow>
        let dest = atom_invisibool_dest (xi_atoms st)
        in case pending_new st of (st, p) \<Rightarrow>
          if map_of (xi_pending_reads st) dest \<noteq> None then ((st, x), Inl read_busy)
          else
            (let st = st\<lparr>xi_pending_reads := AList.update dest p (xi_pending_reads st)\<rparr>
             in case xs_convert_selection xs (xi_our_window st) (atom_clipboard (xi_atoms st))
                       (atom_utf8_string (xi_atoms st)) dest CURRENT_TIME x of
                  (x, Inl e) \<Rightarrow> ((drop_pending_read st, x), Inl (ReadFailed (''convert_selection: '' @ e)))
                | (x, Inr _) \<Rightarrow>
                    (case xs_flush xs x of
                       (x, Inl e) \<Rightarrow> ((drop_pending_read st, x), Inl (ReadFailed (''flush: '' @ e)))
                     | (x, Inr _) \<Rightarrow> ((st, x), Inr p))))"

text \<open>One turn of the waiting loop; \<open>None\<close> is to wait on.\<close>

definition read_bound :: "PendingReadState \<Rightarrow> duration" where
  "read_bound s = (case s of Awaiting \<Rightarrow> READ_CONVERSION_TIMEOUT | _ \<Rightarrow> from_millis 15000)"

definition read_wake ::
  "pending \<Rightarrow> instant \<Rightarrow> instant \<Rightarrow> X11Inner \<Rightarrow> (X11Inner \<times> (ClipboardError + string option)) option" where
  "read_wake p start now st =
     (case xi_reads st ! p of
        Done r \<Rightarrow> Some (drop_pending_read (pending_complete p (Inl (ReadFailed ''consumed'')) st), r)
      | s \<Rightarrow>
          if read_bound s - (now - start) = 0 then Some (drop_pending_read st, Inl read_timeout) else None)"

section \<open>The other methods\<close>

definition x11_clear :: "'x xserver \<Rightarrow> X11Inner \<times> 'x \<Rightarrow> (X11Inner \<times> 'x) \<times> (ClipboardError + unit)" where
  "x11_clear xs s =
     (case s of (st, x) \<Rightarrow>
        let st = st\<lparr>xi_owned := None\<rparr>
        in case xs_set_selection_owner xs X_NONE (atom_clipboard (xi_atoms st)) CURRENT_TIME x of
             (x, Inl e) \<Rightarrow> ((st, x), Inl (ClearFailed (''set_selection_owner(None): '' @ e)))
           | (x, Inr _) \<Rightarrow>
               (case xs_flush xs x of
                  (x, Inl e) \<Rightarrow> ((st, x), Inl (ClearFailed (''flush: '' @ e)))
                | (x, Inr _) \<Rightarrow> ((fst (bump_change_count st), x), Inr ())))"

definition x11_change_count :: "X11Inner \<Rightarrow> ClipboardError + u64" where
  "x11_change_count st = Inr (xi_last_change_count st)"

definition x11_subscribe :: "X11Inner \<Rightarrow> callback \<Rightarrow> X11Inner \<times> (ClipboardError + Subscription)" where
  "x11_subscribe st on_change =
     (st\<lparr>xi_subscribers := xi_subscribers st @ [on_change]\<rparr>, Inr (Subscription on_change))"

definition x11_drop_subscription :: "X11Inner \<Rightarrow> Subscription \<Rightarrow> X11Inner" where
  "x11_drop_subscription st h = st\<lparr>xi_subscribers := filter (\<lambda>c. c \<noteq> sub_callback h) (xi_subscribers st)\<rparr>"

definition x11_drop :: "'x xserver \<Rightarrow> X11Inner \<times> 'x \<Rightarrow> X11Inner \<times> 'x" where
  "x11_drop xs s =
     (signal_shutdown ((fst s)\<lparr>xi_shutdown := True\<rparr>),
      quietly (xs_flush xs (quietly (xs_no_operation xs (snd s)))))"

end
