(* ===== verification/X11System.thy ===== *)
theory X11System
  imports X11Clipboard
begin

text \<open>
  The threads of the X11 backend together: the event thread, its watchdog, the dispatcher and any
  number of callers of the trait's methods step on the shared state in any order. The server may
  change its state between any two steps and report any event.
\<close>

section \<open>Handlers return\<close>

text \<open>
  A server makes progress if a reply that says there is more is not empty. Then the loop over the
  parts ends: each turn lengthens what was read, and the limit stops it.
\<close>

definition makes_progress :: "'x xserver \<Rightarrow> bool" where
  "makes_progress xs \<longleftrightarrow>
     (\<forall>d w p a x x' r. xs_get_property xs d w p a (of_nat (MAX_CLIPBOARD_BYTES div 4)) x = (x', Inr r) \<longrightarrow>
        gp_bytes_after r \<noteq> 0 \<longrightarrow> gp_value r \<noteq> [])"

lemma get_property_Inr:
  "get_property xs w p d off len x = (x', Inr r) \<longleftrightarrow> xs_get_property xs d w p off len x = (x', Inr r)"
  by (auto simp: get_property_def split: prod.splits sum.splits x_error.splits)

lemma read_parts_returns:
  assumes "makes_progress xs"
  shows "\<exists>x' r. read_parts xs w p acc n x = Some (x', r)"
proof (induction "MAX_CLIPBOARD_BYTES - length acc" arbitrary: acc n x rule: less_induct)
  case less
  show ?case
  proof (cases "n = 0 \<or> length acc + n > MAX_CLIPBOARD_BYTES")
    case True
    then show ?thesis
      by (subst read_parts.simps) auto
  next
    case go: False
    obtain x1 r where g: "get_property xs w p False (of_nat (length acc div 4)) (of_nat (MAX_CLIPBOARD_BYTES div 4)) x
        = (x1, r)"
      by fastforce
    show ?thesis
    proof (cases r)
      case (Inl e)
      then show ?thesis
        using g go by (subst read_parts.simps) simp
    next
      case (Inr reply)
      have "\<exists>x' r. read_parts xs w p (acc @ gp_value reply) (unat (gp_bytes_after reply)) x1 = Some (x', r)"
      proof (cases "gp_bytes_after reply = 0")
        case True
        then show ?thesis
          by (subst read_parts.simps) simp
      next
        case False
        then have "gp_value reply \<noteq> []"
          using assms g [unfolded Inr get_property_Inr] unfolding makes_progress_def by blast
        then show ?thesis
          using go by (intro less.hyps) (simp add: not_less diff_less_mono2)
      qed
      then show ?thesis
        using g go Inr by (subst read_parts.simps) simp
    qed
  qed
qed

lemma handle_event_returns: "makes_progress xs \<Longrightarrow> handle_event xs now e s \<noteq> None"
  using read_parts_returns [of xs]
  by (auto simp: handle_event_def handle_selection_notify_def Let_def split: x_event.splits option.splits
      prod.splits sum.splits) (metis option.distinct(1))+

section \<open>The well-formedness of the shared state\<close>

text \<open>
  A registered read is waiting for its reply, a registered transfer belongs to a read that was told
  so, no read is registered twice; nothing above the limit is held, and a transfer that is served
  stands within its text.
\<close>

definition send_ok :: "window \<times> atom \<Rightarrow> IncrSend \<Rightarrow> bool" where
  "send_ok k e \<longleftrightarrow>
     is_next_offset e \<le> length (is_content e) \<and> length (is_content e) \<le> MAX_CLIPBOARD_BYTES
     \<and> k = (is_requestor e, is_target_property e)"

definition x_inv :: "X11Inner \<Rightarrow> bool" where
  "x_inv st \<longleftrightarrow>
     (\<forall>a p. map_of (xi_pending_reads st) a = Some p \<longrightarrow> p < length (xi_reads st) \<and> xi_reads st ! p = Awaiting)
     \<and> (\<forall>a b p. map_of (xi_pending_reads st) a = Some p \<and> map_of (xi_pending_reads st) b = Some p \<longrightarrow> a = b)
     \<and> (\<forall>a e. map_of (xi_incr_receives st) a = Some e \<longrightarrow>
          ir_pending e < length (xi_reads st) \<and> xi_reads st ! ir_pending e = IncrInProgress
          \<and> length (ir_accumulated e) \<le> MAX_CLIPBOARD_BYTES)
     \<and> (\<forall>a b e f. map_of (xi_incr_receives st) a = Some e \<and> map_of (xi_incr_receives st) b = Some f
          \<and> ir_pending e = ir_pending f \<longrightarrow> a = b)
     \<and> (\<forall>p t. p < length (xi_reads st) \<and> xi_reads st ! p = Done (Inr (Some t)) \<longrightarrow> is_utf8 t)
     \<and> (\<forall>c. xi_owned st = Some c \<longrightarrow> length (oc_text c) \<le> MAX_CLIPBOARD_BYTES)
     \<and> distinct (map fst (xi_incr_sends st))
     \<and> (\<forall>k e. map_of (xi_incr_sends st) k = Some e \<longrightarrow> send_ok k e)"

text \<open>A result that a read was given is not changed by another thread.\<close>

definition keeps_results :: "X11Inner \<Rightarrow> X11Inner \<Rightarrow> bool" where
  "keeps_results st st' \<longleftrightarrow>
     length (xi_reads st) \<le> length (xi_reads st')
     \<and> (\<forall>p r. p < length (xi_reads st) \<and> xi_reads st ! p = Done r \<longrightarrow> xi_reads st' ! p = Done r)"

definition x_ok :: "X11Inner \<Rightarrow> X11Inner \<Rightarrow> bool" where
  "x_ok st st' \<longleftrightarrow> x_inv st' \<and> keeps_results st st'"

lemma x_ok_refl: "x_inv st \<Longrightarrow> x_ok st st"
  by (simp add: x_ok_def keeps_results_def)

lemma x_ok_trans: "x_ok st st' \<Longrightarrow> x_ok st' st'' \<Longrightarrow> x_ok st st''"
  by (simp add: x_ok_def keeps_results_def)

lemma x_ok_inv: "x_ok st st' \<Longrightarrow> x_inv st'"
  by (simp add: x_ok_def)

text \<open>The fields that the invariant does not look at.\<close>

lemma x_ok_frame:
  assumes "x_inv st" "xi_pending_reads st' = xi_pending_reads st" "xi_incr_receives st' = xi_incr_receives st"
    "xi_reads st' = xi_reads st" "xi_owned st' = xi_owned st \<or> xi_owned st' = None" "xi_incr_sends st' = xi_incr_sends st"
  shows "x_ok st st'"
  using assms by (auto simp: x_ok_def x_inv_def keeps_results_def)

lemma x_ok_fields [simp]:
  assumes "x_inv st"
  shows "x_ok st (st\<lparr>xi_pending_timestamp := slot\<rparr>)" "x_ok st (st\<lparr>xi_channel := ms\<rparr>)"
    "x_ok st (st\<lparr>xi_subscribers := cs\<rparr>)" "x_ok st (st\<lparr>xi_shutdown := b, xi_channel := ms\<rparr>)"
  using assms by (auto intro: x_ok_frame)

lemma x_ok_complete:
  assumes "x_inv st" "map_of (xi_pending_reads st) a = Some p" "\<And>t. r = Inr (Some t) \<Longrightarrow> is_utf8 t"
  shows "x_ok st (pending_complete p r (st\<lparr>xi_pending_reads := AList.delete a (xi_pending_reads st)\<rparr>))"
  using assms unfolding x_ok_def x_inv_def keeps_results_def pending_complete_def
  by (auto simp: nth_list_update split: if_splits) (metis PendingReadState.distinct(1))

lemma x_ok_finish_receive:
  assumes "x_inv st" "\<And>e t. map_of (xi_incr_receives st) a = Some e \<Longrightarrow> r e = Inr (Some t) \<Longrightarrow> is_utf8 t"
  shows "x_ok st (finish_receive a (\<lambda>e. pending_complete (ir_pending e) (r e)) st)"
proof (cases "map_of (xi_incr_receives st) a")
  case None
  then show ?thesis
    using assms(1) by (simp add: finish_receive_def x_ok_refl)
next
  case (Some e)
  then show ?thesis
    using assms unfolding x_ok_def x_inv_def keeps_results_def pending_complete_def finish_receive_def
    by (auto simp: nth_list_update split: if_splits) (metis PendingReadState.distinct(1))
qed

lemma x_ok_start_incr_receive:
  assumes "x_inv st" "map_of (xi_pending_reads st) a = Some p"
  shows "x_ok st (fst (start_incr_receive xs now p a (st\<lparr>xi_pending_reads := AList.delete a (xi_pending_reads st)\<rparr>, x)))"
  using assms unfolding x_ok_def x_inv_def keeps_results_def start_incr_receive_def set_incr_in_progress_def
  by (auto simp: nth_list_update Let_def split: if_splits) (metis PendingReadState.distinct(1))+

lemma x_ok_more_received:
  assumes "x_inv st" "map_of (xi_incr_receives st) a = Some e" "ir_pending e' = ir_pending e"
    "length (ir_accumulated e') \<le> MAX_CLIPBOARD_BYTES"
  shows "x_ok st (st\<lparr>xi_incr_receives := AList.update a e' (xi_incr_receives st)\<rparr>)"
  using assms unfolding x_ok_def x_inv_def keeps_results_def
  by (auto split: if_splits)

lemma x_ok_sends:
  assumes "x_inv st" "distinct (map fst sends)"
    and "\<And>k e. map_of sends k = Some e \<Longrightarrow> map_of (xi_incr_sends st) k = Some e \<or> send_ok k e"
  shows "x_ok st (st\<lparr>xi_incr_sends := sends\<rparr>)"
  using assms unfolding x_ok_def x_inv_def keeps_results_def
  by (simp del: map_of_eq_Some_iff split_paired_All) blast

lemma x_invD:
  assumes "x_inv st"
  shows "xi_owned st = Some c \<Longrightarrow> length (oc_text c) \<le> MAX_CLIPBOARD_BYTES"
    "map_of (xi_incr_sends st) k = Some e \<Longrightarrow> send_ok k e"
    "distinct (map fst (xi_incr_sends st))"
    "map_of (xi_pending_reads st) a = Some p \<Longrightarrow> p < length (xi_reads st) \<and> xi_reads st ! p = Awaiting"
  using assms unfolding x_inv_def by blast+

section \<open>Every handler keeps it\<close>

lemma x_ok_plain_read:
  assumes "x_inv st" "map_of (xi_pending_reads st) a = Some p"
  shows "x_ok st (complete_plain_read p buf (st\<lparr>xi_pending_reads := AList.delete a (xi_pending_reads st)\<rparr>))"
  unfolding complete_plain_read_def by (rule x_ok_complete [OF assms]) (auto split: if_splits)

lemma handle_selection_notify_ok:
  assumes "x_inv st" "handle_selection_notify xs now ev (st, x) = Some (st', x')"
  shows "x_ok st st'"
  using assms(2) x_ok_refl [OF assms(1)] x_ok_plain_read [OF assms(1)]
    x_ok_complete [OF assms(1), where r = "Inl _"] x_ok_complete [OF assms(1), where r = "Inr None"]
    x_ok_start_incr_receive [OF assms(1), where xs = xs and now = now]
  by (auto simp: handle_selection_notify_def Let_def split: option.splits prod.splits sum.splits if_splits)
    (metis fst_conv)+

lemma handle_incr_receive_chunk_ok:
  assumes "x_inv st"
  shows "x_ok st (fst (handle_incr_receive_chunk xs now a (st, x)))"
proof -
  have "x_ok st (finish_receive a (\<lambda>e. complete_plain_read (ir_pending e) (ir_accumulated e)) st)"
    unfolding complete_plain_read_def by (rule x_ok_finish_receive [OF assms]) (auto split: if_splits)
  then show ?thesis
    using x_ok_refl [OF assms]
    by (auto simp: handle_incr_receive_chunk_def split: option.splits prod.splits sum.splits
        intro!: x_ok_more_received [OF assms] x_ok_finish_receive [OF assms])
qed

lemma distinct_keys_update: "distinct (map fst al) \<Longrightarrow> distinct (map fst (AList.update k v al))"
  by (rule distinct_update)

lemma distinct_keys_delete: "distinct (map fst al) \<Longrightarrow> distinct (map fst (AList.delete k al))"
  by (rule distinct_delete)

lemma handle_selection_request_ok:
  assumes "x_inv st"
  shows "x_ok st (fst (handle_selection_request xs now ev (st, x)))"
  using x_ok_refl [OF assms] x_invD(1,3) [OF assms]
  by (auto simp del: map_of_eq_Some_iff simp: send_ok_def handle_selection_request_def serve_targets_def serve_timestamp_def serve_text_def serve_incr_def
      Let_def distinct_keys_update split: option.splits prod.splits sum.splits if_splits
      intro!: x_ok_sends [OF assms])

lemma serve_next_incr_chunk_ok:
  assumes "x_inv st"
  shows "x_ok st (fst (serve_next_incr_chunk xs k (st, x)))"
  using x_ok_refl [OF assms] x_invD(2,3) [OF assms]
  by (auto simp del: map_of_eq_Some_iff simp: send_ok_def serve_next_incr_chunk_def Let_def distinct_keys_update distinct_keys_delete split: option.splits
      if_splits intro!: x_ok_sends [OF assms])

lemma handle_event_ok:
  assumes "x_inv st" "handle_event xs now e (st, x) = Some (st', x')"
  shows "x_ok st st'"
proof (cases e)
  case (SelectionNotify ev)
  then show ?thesis
    using assms handle_selection_notify_ok by (simp add: handle_event_def)
next
  case (SelectionRequest ev)
  then show ?thesis
    using assms handle_selection_request_ok [OF assms(1), of xs now ev x] by (simp add: handle_event_def)
next
  case (PropertyNotify ev)
  then show ?thesis
    using assms handle_incr_receive_chunk_ok [OF assms(1), of xs now "pn_atom ev" x]
      serve_next_incr_chunk_ok [OF assms(1), of xs "(pn_window ev, pn_atom ev)" x] x_ok_refl [OF assms(1)]
    by (auto simp: handle_event_def handle_property_notify_def Let_def split: if_splits option.splits
        intro: x_ok_frame [OF assms(1)])
qed (use assms x_ok_refl [OF assms(1)] in \<open>auto simp: handle_event_def handle_xfixes_selection_notify_def
      bump_change_count_def send_event_def Let_def split: if_splits intro: x_ok_frame [OF assms(1)]\<close>)

section \<open>The sweeps and the methods keep it\<close>

lemma sweep_receives_ok:
  assumes "x_inv st"
  shows "x_ok st (sweep_incr_receive_timeouts now st)"
proof -
  have "x_ok st (fold (\<lambda>a. finish_receive a (\<lambda>e. pending_complete (ir_pending e) (Inl late_chunk))) as st)" for as
    using assms
  proof (induction as arbitrary: st)
    case (Cons a as)
    have "x_ok st (finish_receive a (\<lambda>e. pending_complete (ir_pending e) (Inl late_chunk)) st)"
      using Cons.prems by (rule x_ok_finish_receive) simp
    then show ?case
      using Cons.IH x_ok_inv x_ok_trans by fastforce
  qed (simp add: x_ok_refl)
  then show ?thesis
    by (simp add: sweep_incr_receive_timeouts_def)
qed

lemma map_of_filter_distinct:
  "distinct (map fst al) \<Longrightarrow> map_of (filter P al) k = Some e \<Longrightarrow> map_of al k = Some e"
  by (auto simp: distinct_map_filter dest: map_of_SomeD)

lemma sweep_sends_ok:
  assumes "x_inv st"
  shows "x_ok st (sweep_incr_send_timeouts now st)"
  unfolding sweep_incr_send_timeouts_def using x_invD(3) [OF assms]
  by (intro x_ok_sends [OF assms]) (auto simp: distinct_map_filter intro: map_of_filter_distinct)

lemma x_ok_drop_pending: "x_inv st \<Longrightarrow> x_ok st (drop_pending_read st)"
  unfolding x_ok_def x_inv_def keeps_results_def drop_pending_read_def by auto

lemma read_start_ok:
  assumes "x_inv st" "read_start xs (st, x) = ((st', x'), r)"
  shows "x_ok st st'" "r = Inr p \<Longrightarrow> p = length (xi_reads st) \<and> length (xi_reads st') = Suc p \<and> xi_reads st' ! p = Awaiting"
proof -
  let ?d = "atom_invisibool_dest (xi_atoms st)" and ?p = "length (xi_reads st)"
  let ?new = "st\<lparr>xi_reads := xi_reads st @ [Awaiting]\<rparr>"
  have new: "x_ok st ?new"
    using assms(1) unfolding x_ok_def x_inv_def keeps_results_def
    by (auto simp: nth_append less_Suc_eq split: if_splits)
  have "x_ok st (?new\<lparr>xi_pending_reads := AList.update ?d ?p (xi_pending_reads st)\<rparr>)" (is "x_ok st ?reg")
    using assms(1) unfolding x_ok_def x_inv_def keeps_results_def
    by (auto simp: nth_append less_Suc_eq split: if_splits)
  moreover from this have "x_ok st (drop_pending_read ?reg)"
    using x_ok_drop_pending x_ok_inv x_ok_trans by blast
  ultimately show "x_ok st st'"
    using assms(2) new
    by (auto simp: read_start_def pending_new_def Let_def split: prod.splits sum.splits if_splits)
  show "r = Inr p \<Longrightarrow> p = length (xi_reads st) \<and> length (xi_reads st') = Suc p \<and> xi_reads st' ! p = Awaiting"
    using assms(2)
    by (auto simp: read_start_def pending_new_def Let_def split: prod.splits sum.splits if_splits)
qed

lemma read_wake_ok:
  assumes "x_inv st" "p < length (xi_reads st)" "read_wake p start now st = Some (st', r)"
  shows "x_inv st'" "length (xi_reads st') = length (xi_reads st)" "q \<noteq> p \<Longrightarrow> xi_reads st' ! q = xi_reads st ! q"
proof -
  have taken: "x_inv (pending_complete p (Inl e) st)" if "xi_reads st ! p = Done r0" for e r0
    using assms(1,2) that unfolding x_inv_def pending_complete_def
    by (auto simp: nth_list_update split: if_splits)
  show "x_inv st'"
    using assms(3) taken x_ok_drop_pending x_ok_inv assms(1)
    by (auto simp: read_wake_def split: PendingReadState.splits if_splits) blast+
  show "length (xi_reads st') = length (xi_reads st)" "q \<noteq> p \<Longrightarrow> xi_reads st' ! q = xi_reads st ! q"
    using assms(3) by (auto simp: read_wake_def drop_pending_read_def pending_complete_def
        split: PendingReadState.splits if_splits)
qed

fun small_writer :: "writer \<Rightarrow> bool" where
  "small_writer (WriteWaiting t h) = (length t \<le> MAX_CLIPBOARD_BYTES)"
| "small_writer (WriteFetching t h d) = (length t \<le> MAX_CLIPBOARD_BYTES)"
| "small_writer (WriteStamped t h ts) = (length t \<le> MAX_CLIPBOARD_BYTES)"
| "small_writer (WriteStored k ts) = True"
| "small_writer (WriteDone r) = True"

fun is_fetching :: "writer \<Rightarrow> bool" where
  "is_fetching (WriteFetching t h d) = True"
| "is_fetching w = False"

lemma write_step_ok:
  assumes "x_inv (fst s)" "small_writer w" "write_step xs now w s = (s', w')"
  shows "x_ok (fst s) (fst s')" "small_writer w'"
proof -
  show "x_ok (fst s) (fst s')"
  proof (cases w)
    case (WriteStamped t h ts)
    then show ?thesis
      using assms unfolding x_ok_def x_inv_def keeps_results_def
      by (auto simp: write_step_def store_content_def new_token_def)
  qed (use assms in \<open>auto simp: write_step_def fetch_start_def fetch_wake_def Let_def claim_selection_def x_ok_refl
      split: option.splits prod.splits sum.splits if_splits\<close>)
  show "small_writer w'"
    using assms(2,3) by (auto simp: write_step_def split: writer.splits option.splits prod.splits sum.splits)
qed

lemma clear_ok:
  "x_inv (fst s) \<Longrightarrow> x_ok (fst s) (fst (fst (x11_clear xs s)))"
  by (auto simp: x11_clear_def bump_change_count_def Let_def split: prod.splits sum.splits intro!: x_ok_frame)

section \<open>The system\<close>

record 'x x_system =
  sys_inner :: X11Inner
  sys_server :: 'x
  sys_readers :: "(pending \<times> instant) list"
  sys_writers :: "writer list"
  sys_events :: bool
  sys_dispatcher :: bool

definition sys_new :: "AtomTable \<Rightarrow> window \<Rightarrow> 'x \<Rightarrow> 'x x_system" where
  "sys_new ats w x = \<lparr>sys_inner = inner_new ats w, sys_server = x, sys_readers = [], sys_writers = [],
     sys_events = True, sys_dispatcher = True\<rparr>"

text \<open>The shared state and the server after a step.\<close>

definition sys_set :: "X11Inner \<times> 'x \<Rightarrow> 'x x_system \<Rightarrow> 'x x_system" where
  "sys_set p s = s\<lparr>sys_inner := fst p, sys_server := snd p\<rparr>"

abbreviation sys_at :: "'x x_system \<Rightarrow> X11Inner \<times> 'x" where
  "sys_at s \<equiv> (sys_inner s, sys_server s)"

inductive x_step :: "'x xserver \<Rightarrow> 'x x_system \<Rightarrow> 'x x_system \<Rightarrow> bool" for xs where
  step_event: "sys_events s \<Longrightarrow> event_turn xs now r (sys_at s) = Some (p, go)
     \<Longrightarrow> x_step xs s ((sys_set p s)\<lparr>sys_events := go\<rparr>)"
| step_sweep_receives: "x_step xs s (s\<lparr>sys_inner := sweep_incr_receive_timeouts now (sys_inner s)\<rparr>)"
| step_sweep_sends: "x_step xs s (s\<lparr>sys_inner := sweep_incr_send_timeouts now (sys_inner s)\<rparr>)"
| step_dispatch: "sys_dispatcher s \<Longrightarrow> dispatch_turn (sys_inner s) = Some (st, calls, go)
     \<Longrightarrow> x_step xs s (s\<lparr>sys_inner := st, sys_dispatcher := go\<rparr>)"
| step_server: "x_step xs s (s\<lparr>sys_server := x\<rparr>)"
| step_read_start: "read_start xs (sys_at s) = (p, r)
     \<Longrightarrow> x_step xs s ((sys_set p s)\<lparr>sys_readers := (case r of Inl _ \<Rightarrow> sys_readers s | Inr k \<Rightarrow> (k, now) # sys_readers s)\<rparr>)"
| step_read_wake: "(k, start) \<in> set (sys_readers s) \<Longrightarrow> read_wake k start now (sys_inner s) = Some (st, r)
     \<Longrightarrow> x_step xs s (s\<lparr>sys_inner := st, sys_readers := filter (\<lambda>q. fst q \<noteq> k) (sys_readers s)\<rparr>)"
| step_write_start: "x_step xs s (s\<lparr>sys_writers := sys_writers s @ [write_start t h]\<rparr>)"
| step_write: "i < length (sys_writers s) \<Longrightarrow> write_step xs now (sys_writers s ! i) (sys_at s) = (p, w)
     \<Longrightarrow> x_step xs s ((sys_set p s)\<lparr>sys_writers := (sys_writers s)[i := w]\<rparr>)"
| step_clear: "x_step xs s (sys_set (fst (x11_clear xs (sys_at s))) s)"
| step_subscribe: "x_step xs s (s\<lparr>sys_inner := fst (x11_subscribe (sys_inner s) c)\<rparr>)"
| step_unsubscribe: "x_step xs s (s\<lparr>sys_inner := x11_drop_subscription (sys_inner s) h\<rparr>)"
| step_drop: "x_step xs s (sys_set (x11_drop xs (sys_at s)) s)"

inductive_cases x_stepE: "x_step xs s s'"

inductive x_run :: "'x xserver \<Rightarrow> 'x x_system \<Rightarrow> 'x x_system \<Rightarrow> bool" for xs where
  run_nil: "x_run xs s s"
| run_step: "x_run xs s s' \<Longrightarrow> x_step xs s' s'' \<Longrightarrow> x_run xs s s''"

lemma sys_set_simps [simp]:
  "sys_inner (sys_set p s) = fst p" "sys_server (sys_set p s) = snd p" "sys_readers (sys_set p s) = sys_readers s"
  "sys_writers (sys_set p s) = sys_writers s" "sys_events (sys_set p s) = sys_events s"
  by (simp_all add: sys_set_def)

text \<open>The invariant of the system: every waiting read has its own slot, and at most one writer fetches the time.\<close>

definition readers_ok :: "'x x_system \<Rightarrow> bool" where
  "readers_ok s \<longleftrightarrow> distinct (map fst (sys_readers s))
     \<and> (\<forall>(k, start) \<in> set (sys_readers s). k < length (xi_reads (sys_inner s)))"

definition writers_ok :: "'x x_system \<Rightarrow> bool" where
  "writers_ok s \<longleftrightarrow> (\<forall>w \<in> set (sys_writers s). small_writer w)
     \<and> length (filter is_fetching (sys_writers s)) \<le> (if xi_pending_timestamp (sys_inner s) = None then 0 else 1)"

definition sys_inv :: "'x x_system \<Rightarrow> bool" where
  "sys_inv s \<longleftrightarrow> x_inv (sys_inner s) \<and> readers_ok s \<and> writers_ok s"

lemma readers_ok_same:
  assumes "readers_ok s" "sys_readers s' = sys_readers s" "keeps_results (sys_inner s) (sys_inner s')"
  shows "readers_ok s'"
  using assms unfolding readers_ok_def keeps_results_def by fastforce

lemma writers_ok_same:
  assumes "writers_ok s" "sys_writers s' = sys_writers s"
    "xi_pending_timestamp (sys_inner s') = None \<longleftrightarrow> xi_pending_timestamp (sys_inner s) = None"
  shows "writers_ok s'"
  using assms unfolding writers_ok_def by simp

section \<open>The slot of the server time\<close>

lemma slot_simps [simp]:
  "xi_pending_timestamp (pending_complete p r st) = xi_pending_timestamp st"
  "xi_pending_timestamp (complete_plain_read p buf st) = xi_pending_timestamp st"
  "xi_pending_timestamp (drop_pending_read st) = xi_pending_timestamp st"
  "xi_pending_timestamp (signal_shutdown st) = xi_pending_timestamp st"
  by (simp_all add: pending_complete_def complete_plain_read_def drop_pending_read_def signal_shutdown_def)

lemma slot_finish_receive:
  "(\<And>e st. xi_pending_timestamp (f e st) = xi_pending_timestamp st)
    \<Longrightarrow> xi_pending_timestamp (finish_receive a f st) = xi_pending_timestamp st"
  by (simp add: finish_receive_def split: option.split)

lemma slot_handlers:
  "xi_pending_timestamp (fst (handle_incr_receive_chunk xs now a s)) = xi_pending_timestamp (fst s)"
  "xi_pending_timestamp (fst (serve_next_incr_chunk xs k s)) = xi_pending_timestamp (fst s)"
  "xi_pending_timestamp (fst (handle_selection_request xs now rq s)) = xi_pending_timestamp (fst s)"
  "handle_selection_notify xs now nf s = Some s' \<Longrightarrow> xi_pending_timestamp (fst s') = xi_pending_timestamp (fst s)"
  by (auto simp: handle_incr_receive_chunk_def serve_next_incr_chunk_def handle_selection_request_def serve_targets_def
      serve_timestamp_def serve_text_def serve_incr_def handle_selection_notify_def start_incr_receive_def
      set_incr_in_progress_def slot_finish_receive Let_def split: option.splits prod.splits sum.splits if_splits)

lemma slot_event:
  assumes "event_turn xs now r s = Some (s', go)"
  shows "xi_pending_timestamp (fst s') = None \<longleftrightarrow> xi_pending_timestamp (fst s) = None"
  using assms
  by (cases s, auto simp: event_turn_def handle_event_def handle_property_notify_def handle_xfixes_selection_notify_def
      bump_change_count_def send_event_def Let_def
      split: sum.splits x_event.splits if_splits option.splits)
    (metis slot_handlers fst_conv)+

lemma slot_methods [simp]:
  "xi_pending_timestamp (sweep_incr_receive_timeouts now st) = xi_pending_timestamp st"
  "xi_pending_timestamp (sweep_incr_send_timeouts now st) = xi_pending_timestamp st"
  "dispatch_turn st = Some (st', calls, go) \<Longrightarrow> xi_pending_timestamp st' = xi_pending_timestamp st"
  "read_start xs s = (s', r) \<Longrightarrow> xi_pending_timestamp (fst s') = xi_pending_timestamp (fst s)"
  "read_wake p start now st = Some (st', r') \<Longrightarrow> xi_pending_timestamp st' = xi_pending_timestamp st"
  "xi_pending_timestamp (fst (fst (x11_clear xs s))) = xi_pending_timestamp (fst s)"
  "xi_pending_timestamp (fst (x11_subscribe st c)) = xi_pending_timestamp st"
  "xi_pending_timestamp (x11_drop_subscription st h) = xi_pending_timestamp st"
  "xi_pending_timestamp (fst (x11_drop xs s)) = xi_pending_timestamp (fst s)"
proof -
  have "xi_pending_timestamp (fold (\<lambda>a. finish_receive a (\<lambda>e. pending_complete (ir_pending e) (Inl late_chunk))) as st)
      = xi_pending_timestamp st" for as
    by (induction as arbitrary: st) (simp_all add: slot_finish_receive)
  then show "xi_pending_timestamp (sweep_incr_receive_timeouts now st) = xi_pending_timestamp st"
    by (simp add: sweep_incr_receive_timeouts_def)
qed (auto simp: sweep_incr_send_timeouts_def dispatch_turn_def read_start_def pending_new_def read_wake_def x11_clear_def
    bump_change_count_def x11_subscribe_def x11_drop_subscription_def x11_drop_def Let_def
    split: list.splits DispatchMessage.splits prod.splits sum.splits if_splits PendingReadState.splits)

text \<open>What a step of a writer does with the slot.\<close>

lemma slot_write:
  assumes "write_step xs now w s = (s', w')"
  shows "\<not> is_fetching w \<and> is_fetching w' \<Longrightarrow> xi_pending_timestamp (fst s) = None \<and> xi_pending_timestamp (fst s') \<noteq> None"
    "\<not> is_fetching w \<and> xi_pending_timestamp (fst s) \<noteq> None \<Longrightarrow> \<not> is_fetching w' \<and> xi_pending_timestamp (fst s') = xi_pending_timestamp (fst s)"
    "is_fetching w \<and> is_fetching w' \<Longrightarrow> xi_pending_timestamp (fst s') = xi_pending_timestamp (fst s)"
  using assms
  by (auto simp: write_step_def fetch_start_def fetch_wake_def store_content_def new_token_def claim_selection_def Let_def
      split: writer.splits option.splits prod.splits sum.splits if_splits)

section \<open>Every step keeps the invariant\<close>

lemma event_turn_ok:
  assumes "x_inv (fst s)" "event_turn xs now r s = Some (s', go)"
  shows "x_ok (fst s) (fst s')"
  using assms handle_event_ok [OF assms(1), of xs now _ "snd s" "fst s'" "snd s'"]
  by (auto simp: event_turn_def signal_shutdown_def split: if_splits sum.splits)

lemma fetching_update:
  assumes "i < length ws"
  shows "length (filter is_fetching (ws[i := w])) + (if is_fetching (ws ! i) then 1 else 0)
    = length (filter is_fetching ws) + (if is_fetching w then 1 else 0)"
proof -
  have ws: "ws = take i ws @ ws ! i # drop (Suc i) ws"
    using assms by (rule id_take_nth_drop)
  have "length (filter is_fetching ws) = length (filter is_fetching (take i ws))
      + (if is_fetching (ws ! i) then 1 else 0) + length (filter is_fetching (drop (Suc i) ws))"
    by (subst ws) simp
  then show ?thesis
    using assms by (simp add: upd_conv_take_nth_drop)
qed

text \<open>Results stay until the read that waits for them takes them.\<close>

definition results_stay :: "'x x_system \<Rightarrow> 'x x_system \<Rightarrow> bool" where
  "results_stay s s' \<longleftrightarrow>
     (\<forall>(k, start) \<in> set (sys_readers s'). \<forall>r. (k, start) \<in> set (sys_readers s) \<and> xi_reads (sys_inner s) ! k = Done r
        \<longrightarrow> xi_reads (sys_inner s') ! k = Done r)"

lemma step_same:
  assumes "sys_inv s" "x_ok (sys_inner s) (sys_inner s')" "sys_readers s' = sys_readers s"
    "sys_writers s' = sys_writers s" "xi_pending_timestamp (sys_inner s') = None \<longleftrightarrow> xi_pending_timestamp (sys_inner s) = None"
  shows "sys_inv s' \<and> results_stay s s'"
proof -
  have "results_stay s s'"
    using assms(1-3) unfolding results_stay_def sys_inv_def readers_ok_def x_ok_def keeps_results_def by fastforce
  then show ?thesis
    using assms readers_ok_same [of s s'] writers_ok_same [of s s'] by (simp add: sys_inv_def x_ok_def)
qed

lemma step_read_start_ok:
  assumes "sys_inv s" "read_start xs (sys_at s) = (p, r)"
    and s': "s' = (sys_set p s)\<lparr>sys_readers := (case r of Inl _ \<Rightarrow> sys_readers s | Inr k \<Rightarrow> (k, now) # sys_readers s)\<rparr>"
  shows "sys_inv s' \<and> results_stay s s'"
proof -
  obtain st x where p: "p = (st, x)" by (cases p)
  have inv: "x_inv (sys_inner s)" "readers_ok s" "writers_ok s"
    using assms(1) by (simp_all add: sys_inv_def)
  note ok = read_start_ok [OF inv(1) assms(2) [unfolded p]]
  have "readers_ok s'"
  proof (cases r)
    case (Inl e)
    then show ?thesis
      using readers_ok_same [OF inv(2), of s'] ok(1) s' p by (simp add: x_ok_def)
  next
    case (Inr k)
    then have "k \<notin> fst ` set (sys_readers s)"
      using ok(2) [OF Inr] inv(2) by (auto simp: readers_ok_def)
    then show ?thesis
      using Inr ok(2) [OF Inr] inv(2) s' p by (auto simp: readers_ok_def)
  qed
  moreover have "results_stay s s'"
    using ok(1) inv(2) s' p by (fastforce simp: results_stay_def readers_ok_def x_ok_def keeps_results_def split: sum.splits)
  ultimately show ?thesis
    using inv ok(1) s' p slot_methods(4) [OF assms(2)] by (auto simp: sys_inv_def x_ok_def intro: writers_ok_same)
qed

lemma step_read_wake_ok:
  assumes "sys_inv s" "(k, start) \<in> set (sys_readers s)" "read_wake k start now (sys_inner s) = Some (st, r)"
    and s': "s' = s\<lparr>sys_inner := st, sys_readers := filter (\<lambda>q. fst q \<noteq> k) (sys_readers s)\<rparr>"
  shows "sys_inv s' \<and> results_stay s s'"
proof -
  have inv: "x_inv (sys_inner s)" "readers_ok s" "writers_ok s"
    using assms(1) by (simp_all add: sys_inv_def)
  have k: "k < length (xi_reads (sys_inner s))"
    using inv(2) assms(2) by (auto simp: readers_ok_def)
  note ok = read_wake_ok [OF inv(1) k assms(3)]
  have "readers_ok s'"
    using inv(2) ok(2) s' by (auto simp: readers_ok_def distinct_map_filter)
  moreover have "results_stay s s'"
    using ok(3) s' by (auto simp: results_stay_def)
  ultimately show ?thesis
    using inv ok(1) s' slot_methods(5) [OF assms(3)] by (auto simp: sys_inv_def intro: writers_ok_same)
qed

lemma step_write_ok:
  assumes "sys_inv s" "i < length (sys_writers s)" "write_step xs now (sys_writers s ! i) (sys_at s) = (p, w)"
    and s': "s' = (sys_set p s)\<lparr>sys_writers := (sys_writers s)[i := w]\<rparr>"
  shows "sys_inv s' \<and> results_stay s s'"
proof -
  let ?w = "sys_writers s ! i"
  have inv: "x_inv (sys_inner s)" "readers_ok s" "writers_ok s"
    using assms(1) by (simp_all add: sys_inv_def)
  have small: "small_writer ?w"
    using inv(3) assms(2) by (simp add: writers_ok_def)
  have ok: "x_ok (sys_inner s) (fst p)" "small_writer w"
    using write_step_ok [OF _ small assms(3)] inv(1) by simp_all
  have "length (filter is_fetching ((sys_writers s)[i := w])) \<le> (if xi_pending_timestamp (fst p) = None then 0 else 1)"
    using inv(3) fetching_update [OF assms(2), of w] slot_write [OF assms(3)]
    by (cases "is_fetching ?w"; cases "is_fetching w") (auto simp: writers_ok_def simp del: length_0_conv split: if_splits)
  then have "writers_ok s'"
    using inv(3) ok(2) s' set_update_subset_insert [of "sys_writers s" i w] by (auto simp: writers_ok_def)
  moreover have "results_stay s s'"
    using ok(1) inv(2) s' by (fastforce simp: results_stay_def readers_ok_def x_ok_def keeps_results_def)
  ultimately show ?thesis
    using ok(1) s' readers_ok_same [OF inv(2), of s'] by (simp add: sys_inv_def x_ok_def)
qed

lemma x_step_ok:
  assumes "x_step xs s s'" "sys_inv s"
  shows "sys_inv s' \<and> results_stay s s'"
proof -
  have inv: "x_inv (sys_inner s)" "readers_ok s" "writers_ok s"
    using assms(2) by (simp_all add: sys_inv_def)
  show ?thesis
    using assms(1)
  proof cases
    case (step_event now r p go)
    then show ?thesis
      using event_turn_ok [of "sys_at s" xs now r p go] inv(1) slot_event [OF step_event(3)]
      by (intro step_same [OF assms(2)]) simp_all
  next
    case (step_sweep_receives now)
    then show ?thesis
      using sweep_receives_ok [OF inv(1)] by (intro step_same [OF assms(2)]) simp_all
  next
    case (step_sweep_sends now)
    then show ?thesis
      using sweep_sends_ok [OF inv(1)] by (intro step_same [OF assms(2)]) simp_all
  next
    case (step_dispatch st calls go)
    then have "x_ok (sys_inner s) st"
      using inv(1) by (auto simp: dispatch_turn_def split: list.splits DispatchMessage.splits)
    then show ?thesis
      using step_dispatch slot_methods(3) [OF step_dispatch(3)] by (intro step_same [OF assms(2)]) simp_all
  next
    case (step_server x)
    then show ?thesis
      using x_ok_refl [OF inv(1)] by (intro step_same [OF assms(2)]) simp_all
  next
    case (step_read_start p r now)
    then show ?thesis
      using step_read_start_ok [OF assms(2)] by blast
  next
    case (step_read_wake k start now st r)
    then show ?thesis
      using step_read_wake_ok [OF assms(2)] by blast
  next
    case (step_write_start t h)
    then show ?thesis
      using inv by (auto simp: sys_inv_def readers_ok_def writers_ok_def results_stay_def write_start_def)
  next
    case (step_write i now p w)
    then show ?thesis
      using step_write_ok [OF assms(2)] by blast
  next
    case step_clear
    then show ?thesis
      using clear_ok [of "sys_at s" xs] inv(1) by (intro step_same [OF assms(2)]) simp_all
  next
    case (step_subscribe c)
    then show ?thesis
      using inv(1) by (intro step_same [OF assms(2)]) (simp_all add: x11_subscribe_def)
  next
    case (step_unsubscribe h)
    then show ?thesis
      using inv(1) by (intro step_same [OF assms(2)]) (simp_all add: x11_drop_subscription_def)
  next
    case step_drop
    then show ?thesis
      using inv(1) by (intro step_same [OF assms(2)]) (simp_all add: x11_drop_def signal_shutdown_def)
  qed
qed

lemma sys_new_inv: "sys_inv (sys_new ats w x)"
  by (simp add: sys_inv_def sys_new_def x_inv_def inner_new_def readers_ok_def writers_ok_def)

lemma x_run_inv: "x_run xs s s' \<Longrightarrow> sys_inv s \<Longrightarrow> sys_inv s'"
  by (induction rule: x_run.induct) (auto dest: x_step_ok)

end
