(* ===== verification/X11Transfer.thy ===== *)
theory X11Transfer
  imports X11System
begin

text \<open>
  Serving and reading between two clients of one server. The server is known by two views: the
  properties of its windows and the events that clients were sent; the locale \<open>x_server\<close> is what the X protocol
  says of the requests on a connection that works.
\<close>

section \<open>The server\<close>

definition ne_bytes :: "'x xserver \<Rightarrow> u32 \<Rightarrow> u8 list" where
  "ne_bytes xs n =
     (let le = map (\<lambda>i. word_of_nat (unat n div 256 ^ i)) [0..<4] in if xs_big_endian xs then rev le else le)"

type_synonym properties = "window \<times> atom \<Rightarrow> (atom \<times> u8 list) option"

type_synonym sent_events = "(window \<times> SelectionNotifyEvent) list"

definition reply_of :: "atom \<times> u8 list \<Rightarrow> nat \<Rightarrow> nat \<Rightarrow> GetPropertyReply" where
  "reply_of q off len =
     (case q of (ty, v) \<Rightarrow>
        \<lparr>gp_type = ty, gp_bytes_after = of_nat (length v - 4 * off - 4 * len), gp_value = take (4 * len) (drop (4 * off) v)\<rparr>)"

locale x_server =
  fixes xs :: "'x xserver" and held :: "'x \<Rightarrow> properties" and sent :: "'x \<Rightarrow> sent_events"
  assumes change: "xs_change_property xs PropReplace w p ty fmt n bytes x = (x', r) \<Longrightarrow>
      r = Inr () \<and> held x' = (held x)((w, p) \<mapsto> (ty, bytes)) \<and> sent x' = sent x"
    and change32: "xs_change_property32 xs PropReplace w p ty vs x = (x', r) \<Longrightarrow>
      r = Inr () \<and> held x' = (held x)((w, p) \<mapsto> (ty, concat (map (ne_bytes xs) vs))) \<and> sent x' = sent x"
    and delete: "xs_delete_property xs w p x = (x', r) \<Longrightarrow>
      r = Inr () \<and> held x' = (held x)((w, p) := None) \<and> sent x' = sent x"
    and send: "xs_send_event xs w ev x = (x', r) \<Longrightarrow>
      r = Inr () \<and> held x' = held x \<and> sent x' = sent x @ [(w, ev)]"
    and watch: "xs_watch_properties xs w x = (x', r) \<Longrightarrow> r = Inr () \<and> held x' = held x \<and> sent x' = sent x"
    and flush: "xs_flush xs x = (x', r) \<Longrightarrow> r = Inr () \<and> held x' = held x \<and> sent x' = sent x"
    and get: "xs_get_property xs d w p off len x = (x', g) \<Longrightarrow> held x (w, p) = Some q \<Longrightarrow>
      4 * unat off \<le> length (snd q) \<Longrightarrow> length (snd q) < 2 ^ 32 \<Longrightarrow>
      g = Inr (reply_of q (unat off) (unat len)) \<and> sent x' = sent x
      \<and> held x' = (if d \<and> length (snd q) \<le> 4 * unat off + 4 * unat len then (held x)((w, p) := None) else held x)"
    and get_missing: "xs_get_property xs d w p off len x = (x', g) \<Longrightarrow> held x (w, p) = None \<Longrightarrow>
      g = Inr \<lparr>gp_type = X_NONE, gp_bytes_after = 0, gp_value = []\<rparr> \<and> held x' = held x \<and> sent x' = sent x"
begin

lemma get_property_held:
  assumes "held x (w, p) = Some q" "4 * unat off \<le> length (snd q)" "length (snd q) < 2 ^ 32"
  obtains x' where "get_property xs w p d off len x = (x', Inr (reply_of q (unat off) (unat len)))" "sent x' = sent x"
    "held x' = (if d \<and> length (snd q) \<le> 4 * unat off + 4 * unat len then (held x)((w, p) := None) else held x)"
proof -
  obtain x' r where g: "xs_get_property xs d w p off len x = (x', r)"
    by fastforce
  with get [OF g assms] that show thesis
    by (auto simp: get_property_def)
qed

lemma notify_spec:
  "held (send_selection_notify xs rq ty p x) = held x"
  "sent (send_selection_notify xs rq ty p x) = sent x @ [(rq_requestor rq, \<lparr>nf_time = rq_time rq,
     nf_requestor = rq_requestor rq, nf_selection = rq_selection rq, nf_target = ty, nf_property = p\<rparr>)]"
  unfolding send_selection_notify_def quietly_def
  by (metis flush send prod.collapse)+

lemma written_u8:
  "held (notify_written xs rq (change_property_u8 xs w p ty bytes x)) = (held x)((w, p) \<mapsto> (ty, bytes))"
  "sent (notify_written xs rq (change_property_u8 xs w p ty bytes x)) = sent (send_selection_notify xs rq (rq_target rq) (rq_property rq) x)"
proof -
  obtain x' r where c: "xs_change_property xs PropReplace w p ty 8 (of_nat (length bytes)) bytes x = (x', r)"
    by fastforce
  from change [OF c] c
  show "held (notify_written xs rq (change_property_u8 xs w p ty bytes x)) = (held x)((w, p) \<mapsto> (ty, bytes))"
    "sent (notify_written xs rq (change_property_u8 xs w p ty bytes x)) = sent (send_selection_notify xs rq (rq_target rq) (rq_property rq) x)"
    by (simp_all add: notify_written_def change_property_u8_def map_err_def notify_spec)
qed

lemma written_32:
  "held (notify_written xs rq (xs_change_property32 xs PropReplace w p ty vs x)) = (held x)((w, p) \<mapsto> (ty, concat (map (ne_bytes xs) vs)))"
  "sent (notify_written xs rq (xs_change_property32 xs PropReplace w p ty vs x)) = sent (send_selection_notify xs rq (rq_target rq) (rq_property rq) x)"
proof -
  obtain x' r where c: "xs_change_property32 xs PropReplace w p ty vs x = (x', r)"
    by fastforce
  from change32 [OF c] c
  show "held (notify_written xs rq (xs_change_property32 xs PropReplace w p ty vs x)) = (held x)((w, p) \<mapsto> (ty, concat (map (ne_bytes xs) vs)))"
    "sent (notify_written xs rq (xs_change_property32 xs PropReplace w p ty vs x)) = sent (send_selection_notify xs rq (rq_target rq) (rq_property rq) x)"
    by (simp_all add: notify_written_def notify_spec)
qed

end

section \<open>What a request is answered with\<close>

text \<open>
  The answer to a request: the list of targets and the time of acquisition as they are, the text
  itself up to \<open>OWNER_SINGLE_SHOT_CAP\<close> and its size above; nothing without owned content, and
  nothing for other targets (\<open>MULTIPLE\<close> among them).
\<close>

definition selection_answer :: "'x xserver \<Rightarrow> X11Inner \<Rightarrow> atom \<Rightarrow> (atom \<times> u8 list) option" where
  "selection_answer xs st target =
     (let ats = xi_atoms st
      in if target = atom_targets ats then
           Some (ATOM_ATOM, concat (map (ne_bytes xs)
             [atom_utf8_string ats, atom_string ats, atom_targets ats, atom_timestamp ats]))
         else if target = atom_timestamp ats then
           map_option (\<lambda>c. (ATOM_INTEGER, ne_bytes xs (oc_acquired_at c))) (xi_owned st)
         else if target = atom_utf8_string ats \<or> target = atom_string ats then
           map_option (\<lambda>c. if length (oc_text c) \<le> OWNER_SINGLE_SHOT_CAP
               then (atom_utf8_string ats, as_bytes (oc_text c))
               else (atom_incr ats, ne_bytes xs (of_nat (length (oc_text c))))) (xi_owned st)
         else None)"

definition starts_transfer :: "X11Inner \<Rightarrow> atom \<Rightarrow> string option" where
  "starts_transfer st target =
     (let ats = xi_atoms st
      in if target \<noteq> atom_targets ats \<and> target \<noteq> atom_timestamp ats
            \<and> (target = atom_utf8_string ats \<or> target = atom_string ats)
         then (case xi_owned st of
                 Some c \<Rightarrow> if OWNER_SINGLE_SHOT_CAP < length (oc_text c) then Some (oc_text c) else None
               | None \<Rightarrow> None)
         else None)"

context x_server
begin

lemma serve_incr_spec:
  fixes st :: X11Inner
  defines "new \<equiv> \<lambda>rq t now. \<lparr>is_content = t, is_next_offset = 0, is_timestamp = rq_time rq,
    is_target_property = rq_property rq, is_requestor = rq_requestor rq,
    is_target = atom_utf8_string (xi_atoms st), is_started_at = now\<rparr>"
  shows "held (snd (serve_incr xs now rq t (st, x))) = (held x)((rq_requestor rq, rq_property rq) \<mapsto>
      (atom_incr (xi_atoms st), ne_bytes xs (of_nat (length t))))"
    "sent (snd (serve_incr xs now rq t (st, x))) = sent (send_selection_notify xs rq (rq_target rq) (rq_property rq) x)"
    "fst (serve_incr xs now rq t (st, x)) = st\<lparr>xi_incr_sends :=
      AList.update (rq_requestor rq, rq_property rq) (new rq t now) (xi_incr_sends st)\<rparr>"
proof -
  obtain x1 r1 where w: "xs_watch_properties xs (rq_requestor rq) x = (x1, r1)"
    by fastforce
  obtain x2 r2 where c: "xs_change_property32 xs PropReplace (rq_requestor rq) (rq_property rq)
      (atom_incr (xi_atoms st)) [of_nat (length t)] x1 = (x2, r2)"
    by fastforce
  note facts = watch [OF w] change32 [OF c]
  show "held (snd (serve_incr xs now rq t (st, x))) = (held x)((rq_requestor rq, rq_property rq) \<mapsto>
      (atom_incr (xi_atoms st), ne_bytes xs (of_nat (length t))))"
    "sent (snd (serve_incr xs now rq t (st, x))) = sent (send_selection_notify xs rq (rq_target rq) (rq_property rq) x)"
    "fst (serve_incr xs now rq t (st, x)) = st\<lparr>xi_incr_sends :=
      AList.update (rq_requestor rq, rq_property rq) (new rq t now) (xi_incr_sends st)\<rparr>"
    using facts w c by (simp_all add: serve_incr_def notify_spec new_def)
qed

lemma request_answer:
  assumes "handle_selection_request xs now rq (st, x) = (st', x')"
  shows "sent x' = sent x @ [(rq_requestor rq, \<lparr>nf_time = rq_time rq, nf_requestor = rq_requestor rq,
      nf_selection = rq_selection rq, nf_target = rq_target rq,
      nf_property = (if selection_answer xs st (rq_target rq) = None then X_NONE else rq_property rq)\<rparr>)]"
    and "held x' = (case selection_answer xs st (rq_target rq) of
      None \<Rightarrow> held x | Some v \<Rightarrow> (held x)((rq_requestor rq, rq_property rq) \<mapsto> v))"
    and "st' = (case starts_transfer st (rq_target rq) of
      None \<Rightarrow> st
    | Some t \<Rightarrow> st\<lparr>xi_incr_sends := AList.update (rq_requestor rq, rq_property rq)
        \<lparr>is_content = t, is_next_offset = 0, is_timestamp = rq_time rq, is_target_property = rq_property rq,
         is_requestor = rq_requestor rq, is_target = atom_utf8_string (xi_atoms st), is_started_at = now\<rparr>
        (xi_incr_sends st)\<rparr>)"
proof -
  have s': "st' = fst (handle_selection_request xs now rq (st, x))" "x' = snd (handle_selection_request xs now rq (st, x))"
    using assms by simp_all
  show "sent x' = sent x @ [(rq_requestor rq, \<lparr>nf_time = rq_time rq, nf_requestor = rq_requestor rq,
      nf_selection = rq_selection rq, nf_target = rq_target rq,
      nf_property = (if selection_answer xs st (rq_target rq) = None then X_NONE else rq_property rq)\<rparr>)]"
    unfolding s' by (auto simp: handle_selection_request_def selection_answer_def serve_targets_def
      serve_timestamp_def serve_text_def serve_incr_spec written_u8 written_32 notify_spec Let_def split: option.splits)
  show "held x' = (case selection_answer xs st (rq_target rq) of
      None \<Rightarrow> held x | Some v \<Rightarrow> (held x)((rq_requestor rq, rq_property rq) \<mapsto> v))"
    unfolding s' by (auto simp: handle_selection_request_def selection_answer_def serve_targets_def
      serve_timestamp_def serve_text_def serve_incr_spec written_u8 written_32 notify_spec Let_def split: option.splits)
  show "st' = (case starts_transfer st (rq_target rq) of
      None \<Rightarrow> st
    | Some t \<Rightarrow> st\<lparr>xi_incr_sends := AList.update (rq_requestor rq, rq_property rq)
        \<lparr>is_content = t, is_next_offset = 0, is_timestamp = rq_time rq, is_target_property = rq_property rq,
         is_requestor = rq_requestor rq, is_target = atom_utf8_string (xi_atoms st), is_started_at = now\<rparr>
        (xi_incr_sends st)\<rparr>)"
    unfolding s' by (auto simp: handle_selection_request_def starts_transfer_def serve_targets_def
      serve_timestamp_def serve_text_def serve_incr_spec Let_def split: option.splits)
qed

end

section \<open>One chunk\<close>

lemma bytes_of_str [simp]: "bytes_to_str (as_bytes s) = s"
  by (simp add: bytes_to_str_def as_bytes_def comp_def)

context x_server
begin

lemma served_chunk:
  assumes "map_of (xi_incr_sends st) (w, p) = Some e" "send_ok (w, p) e" "is_target e = atom_utf8_string (xi_atoms st)"
    and "serve_next_incr_chunk xs (w, p) (st, x) = (st', x')"
  shows "held x' = (held x)((w, p) \<mapsto> (atom_utf8_string (xi_atoms st),
      take OWNER_INCR_CHUNK_SIZE (drop (is_next_offset e) (as_bytes (is_content e)))))"
    and "st' = st\<lparr>xi_incr_sends :=
      if is_next_offset e = length (is_content e) then AList.delete (w, p) (xi_incr_sends st)
      else AList.update (w, p) (e\<lparr>is_next_offset := min (length (is_content e)) (is_next_offset e + OWNER_INCR_CHUNK_SIZE)\<rparr>)
        (xi_incr_sends st)\<rparr>"
proof -
  let ?bytes = "as_bytes (is_content e)"
  let ?rest = "length ?bytes - is_next_offset e"
  let ?chunk = "take (min ?rest OWNER_INCR_CHUNK_SIZE) (drop (is_next_offset e) ?bytes)"
  have e: "is_next_offset e \<le> length (is_content e)" "is_requestor e = w" "is_target_property e = p"
    using assms(2) by (simp_all add: send_ok_def)
  have chunk: "take OWNER_INCR_CHUNK_SIZE (drop (is_next_offset e) ?bytes) = ?chunk"
    by (simp add: min_def)
  have x': "x' = quietly (xs_flush xs (quietly (change_property_u8 xs w p (atom_utf8_string (xi_atoms st)) ?chunk x)))"
    using assms(1,3,4) e by (cases "?rest = 0") (simp_all add: serve_next_incr_chunk_def Let_def)
  obtain x1 r1 where c: "xs_change_property xs PropReplace w p (atom_utf8_string (xi_atoms st)) 8
      (of_nat (length ?chunk)) ?chunk x = (x1, r1)"
    by fastforce
  obtain x2 r2 where f: "xs_flush xs x1 = (x2, r2)"
    by fastforce
  have "x' = x2"
    unfolding x' change_property_u8_def quietly_def c by (simp add: f)
  then show "held x' = (held x)((w, p) \<mapsto> (atom_utf8_string (xi_atoms st),
      take OWNER_INCR_CHUNK_SIZE (drop (is_next_offset e) ?bytes)))"
    using change [OF c] flush [OF f] by (simp only: chunk)
  show "st' = st\<lparr>xi_incr_sends :=
      if is_next_offset e = length (is_content e) then AList.delete (w, p) (xi_incr_sends st)
      else AList.update (w, p) (e\<lparr>is_next_offset := min (length (is_content e)) (is_next_offset e + OWNER_INCR_CHUNK_SIZE)\<rparr>)
        (xi_incr_sends st)\<rparr>"
  proof (cases "is_next_offset e = length (is_content e)")
    case True
    then show ?thesis
      using assms(1,4) by (simp add: serve_next_incr_chunk_def)
  next
    case False
    have "is_next_offset e + min ?rest OWNER_INCR_CHUNK_SIZE
        = min (length (is_content e)) (is_next_offset e + OWNER_INCR_CHUNK_SIZE)"
      using e(1) by simp
    then show ?thesis
      using assms(1,4) e(1) False by (auto simp: serve_next_incr_chunk_def Let_def)
  qed
qed

lemma received_chunk:
  assumes "map_of (xi_incr_receives st) p = Some e" "held x (xi_our_window st, p) = Some (ty, v)"
    and "length (ir_accumulated e) + length v \<le> MAX_CLIPBOARD_BYTES"
    and "handle_incr_receive_chunk xs now p (st, x) = (st', x')"
  shows "st' = (if v = [] then complete_plain_read (ir_pending e) (ir_accumulated e)
        (st\<lparr>xi_incr_receives := AList.delete p (xi_incr_receives st)\<rparr>)
      else st\<lparr>xi_incr_receives := AList.update p
        (e\<lparr>ir_accumulated := ir_accumulated e @ v, ir_last_chunk_at := now\<rparr>) (xi_incr_receives st)\<rparr>)"
    and "held x' = (held x)((xi_our_window st, p) := None)"
proof -
  have small: "length v \<le> 4 * unat (of_nat (MAX_CLIPBOARD_BYTES div 4) :: u32)" "length v < 2 ^ 32"
    using assms(3) by (simp_all add: MAX_CLIPBOARD_BYTES_def)
  obtain x1 where got: "get_property xs (xi_our_window st) p True 0 (of_nat (MAX_CLIPBOARD_BYTES div 4)) x
      = (x1, Inr (reply_of (ty, v) 0 (unat (of_nat (MAX_CLIPBOARD_BYTES div 4) :: u32))))"
      "held x1 = (held x)((xi_our_window st, p) := None)"
    using get_property_held [OF assms(2), of 0 True "of_nat (MAX_CLIPBOARD_BYTES div 4)"] small by auto
  then have g: "get_property xs (xi_our_window st) p True 0 (of_nat (MAX_CLIPBOARD_BYTES div 4)) x
      = (x1, Inr \<lparr>gp_type = ty, gp_bytes_after = 0, gp_value = v\<rparr>)"
    using small(1) by (simp add: reply_of_def)
  then show "st' = (if v = [] then complete_plain_read (ir_pending e) (ir_accumulated e)
        (st\<lparr>xi_incr_receives := AList.delete p (xi_incr_receives st)\<rparr>)
      else st\<lparr>xi_incr_receives := AList.update p
        (e\<lparr>ir_accumulated := ir_accumulated e @ v, ir_last_chunk_at := now\<rparr>) (xi_incr_receives st)\<rparr>)"
    using assms(1,3,4) by (auto simp: handle_incr_receive_chunk_def finish_receive_def)
  have "x' = x1"
    using g assms(1,4) by (auto simp: handle_incr_receive_chunk_def split: if_splits)
  then show "held x' = (held x)((xi_our_window st, p) := None)"
    using got(2) by simp
qed

end

section \<open>A transfer from owner to reader\<close>

text \<open>
  Two processes with this backend on one server: the first owns the selection, the second reads it.
  \<open>paste\<close> is the conversion request at the owner and what it causes at the reader: the new value of
  the property, then the answer. \<open>pump_round\<close> is one round of a transfer: the owner sees that the
  property was deleted, and the reader sees its new value.
\<close>

definition new_value :: "window \<times> atom \<Rightarrow> PropertyNotifyEvent" where
  "new_value k = \<lparr>pn_window = fst k, pn_atom = snd k, pn_time = CURRENT_TIME, pn_state = NEW_VALUE\<rparr>"

definition deleted :: "window \<times> atom \<Rightarrow> PropertyNotifyEvent" where
  "deleted k = \<lparr>pn_window = fst k, pn_atom = snd k, pn_time = CURRENT_TIME, pn_state = DELETE\<rparr>"

definition paste ::
  "'x xserver \<Rightarrow> instant \<Rightarrow> instant \<Rightarrow> SelectionRequestEvent \<Rightarrow> X11Inner \<times> X11Inner \<times> 'x
   \<Rightarrow> (X11Inner \<times> X11Inner \<times> 'x) option" where
  "paste xs t0 t1 rq s =
     (case s of (so, sr, x) \<Rightarrow>
        case handle_selection_request xs t0 rq (so, x) of (so, x) \<Rightarrow>
        case handle_property_notify xs t1 (new_value (rq_requestor rq, rq_property rq)) (sr, x) of (sr, x) \<Rightarrow>
          map_option (\<lambda>(sr, x). (so, sr, x))
            (handle_selection_notify xs t1 \<lparr>nf_time = rq_time rq, nf_requestor = rq_requestor rq,
               nf_selection = rq_selection rq, nf_target = rq_target rq, nf_property = rq_property rq\<rparr> (sr, x)))"

definition pump_round ::
  "'x xserver \<Rightarrow> window \<times> atom \<Rightarrow> instant \<times> instant \<Rightarrow> X11Inner \<times> X11Inner \<times> 'x \<Rightarrow> X11Inner \<times> X11Inner \<times> 'x" where
  "pump_round xs k ts s =
     (case s of (so, sr, x) \<Rightarrow>
        case handle_property_notify xs (fst ts) (deleted k) (so, x) of (so, x) \<Rightarrow>
        case handle_property_notify xs (snd ts) (new_value k) (sr, x) of (sr, x) \<Rightarrow>
          (so, sr, x))"

definition transferring :: "window \<times> atom \<Rightarrow> pending \<Rightarrow> string \<Rightarrow> nat \<Rightarrow> X11Inner \<Rightarrow> X11Inner \<Rightarrow> bool" where
  "transferring k p t n so sr \<longleftrightarrow>
     xi_our_window sr = fst k \<and> p < length (xi_reads sr)
     \<and> snd k \<noteq> atom_invisibool_timestamp_fetch (xi_atoms so) \<and> snd k \<noteq> atom_invisibool_timestamp_fetch (xi_atoms sr)
     \<and> (\<exists>e r. map_of (xi_incr_sends so) k = Some e \<and> send_ok k e \<and> is_content e = t \<and> is_next_offset e = n
          \<and> is_target e = atom_utf8_string (xi_atoms so)
          \<and> map_of (xi_incr_receives sr) (snd k) = Some r \<and> ir_pending r = p \<and> ir_accumulated r = take n (as_bytes t))"

context x_server
begin

lemma pump_round_parts:
  assumes "transferring k p t n so sr"
  obtains x1 x2 so' sr' where
    "serve_next_incr_chunk xs k (so, x) = (so', x1)"
    "handle_incr_receive_chunk xs (snd ts) (snd k) (sr, x1) = (sr', x2)" "pump_round xs k ts (so, sr, x) = (so', sr', x2)"
proof -
  obtain so' x1 where o': "serve_next_incr_chunk xs k (so, x) = (so', x1)"
    by fastforce
  obtain sr' x2 where r': "handle_incr_receive_chunk xs (snd ts) (snd k) (sr, x1) = (sr', x2)"
    by fastforce
  have "handle_property_notify xs (fst ts) (deleted k) (so, x) = (so', x1)"
    using assms o' by (auto simp: transferring_def handle_property_notify_def deleted_def)
  moreover have "handle_property_notify xs (snd ts) (new_value k) (sr, x1) = (sr', x2)"
    using assms r' by (auto simp: transferring_def handle_property_notify_def new_value_def)
  ultimately show thesis
    using that [OF o' r'] by (simp add: pump_round_def)
qed

lemma pump_round_chunk:
  assumes "transferring k p t n so sr" "pump_round xs k ts (so, sr, x) = (so', sr', x')"
  shows "if n = length t then xi_reads sr' ! p = Done (if is_utf8 t then Inr (Some t)
        else Inl (ReadFailed ''clipboard content was not valid UTF-8''))
      \<and> map_of (xi_incr_sends so') k = None \<and> map_of (xi_incr_receives sr') (snd k) = None
    else transferring k p t (min (length t) (n + OWNER_INCR_CHUNK_SIZE)) so' sr'"
proof -
  obtain w a where k: "k = (w, a)"
    by (cases k)
  obtain e r where er: "map_of (xi_incr_sends so) k = Some e" "send_ok k e" "is_content e = t" "is_next_offset e = n"
      "is_target e = atom_utf8_string (xi_atoms so)" "map_of (xi_incr_receives sr) (snd k) = Some r" "ir_pending r = p"
      "ir_accumulated r = take n (as_bytes t)"
    using assms(1) by (auto simp: transferring_def)
  have n: "n \<le> length t" "length t \<le> MAX_CLIPBOARD_BYTES"
    using er(2-4) by (simp_all add: send_ok_def)
  obtain x1 where parts: "serve_next_incr_chunk xs k (so, x) = (so', x1)"
      "handle_incr_receive_chunk xs (snd ts) (snd k) (sr, x1) = (sr', x')"
    using pump_round_parts [OF assms(1), of x ts] assms(2) by (metis prod.inject)
  let ?v = "take OWNER_INCR_CHUNK_SIZE (drop n (as_bytes t))"
  have sent: "held x1 = (held x)(k \<mapsto> (atom_utf8_string (xi_atoms so), ?v))"
      "so' = so\<lparr>xi_incr_sends := if n = length t then AList.delete k (xi_incr_sends so)
        else AList.update k (e\<lparr>is_next_offset := min (length t) (n + OWNER_INCR_CHUNK_SIZE)\<rparr>) (xi_incr_sends so)\<rparr>"
    using served_chunk [OF er(1) [unfolded k] er(2) [unfolded k] er(5) parts(1) [unfolded k]] er(3,4) k by simp_all
  have got: "sr' = (if ?v = [] then complete_plain_read p (take n (as_bytes t))
        (sr\<lparr>xi_incr_receives := AList.delete a (xi_incr_receives sr)\<rparr>)
      else sr\<lparr>xi_incr_receives := AList.update a
        (r\<lparr>ir_accumulated := take n (as_bytes t) @ ?v, ir_last_chunk_at := snd ts\<rparr>) (xi_incr_receives sr)\<rparr>)"
  proof -
    have "held x1 (xi_our_window sr, a) = Some (atom_utf8_string (xi_atoms so), ?v)"
      using sent(1) assms(1) k by (simp add: transferring_def)
    moreover have "length (ir_accumulated r) + length ?v \<le> MAX_CLIPBOARD_BYTES"
      using n er(8) by simp
    ultimately show ?thesis
      using received_chunk(1) [OF er(6) [unfolded k snd_conv] _ _ parts(2) [unfolded k snd_conv]] er(7,8) by simp
  qed
  show ?thesis
  proof (cases "n = length t")
    case True
    then have "take n (as_bytes t) = as_bytes t"
      by simp
    then show ?thesis
      using True got sent(2) assms(1) k by (auto simp: transferring_def complete_plain_read_def pending_complete_def)
  next
    case False
    have "?v \<noteq> []"
      using False n(1) by (simp add: OWNER_INCR_CHUNK_SIZE_def)
    moreover have "take n (as_bytes t) @ ?v = take (min (length t) (n + OWNER_INCR_CHUNK_SIZE)) (as_bytes t)"
      by (simp add: take_add min_def)
    ultimately show ?thesis
      using False got sent(2) assms(1) er n k by (auto simp: transferring_def send_ok_def)
  qed
qed

lemma chunks_left:
  assumes "n < l"
  shows "(l - n + OWNER_INCR_CHUNK_SIZE - 1) div OWNER_INCR_CHUNK_SIZE
    = Suc ((l - min l (n + OWNER_INCR_CHUNK_SIZE) + OWNER_INCR_CHUNK_SIZE - 1) div OWNER_INCR_CHUNK_SIZE)"
proof (cases "l \<le> n + OWNER_INCR_CHUNK_SIZE")
  case True
  then have "l - n + OWNER_INCR_CHUNK_SIZE - 1 = OWNER_INCR_CHUNK_SIZE + (l - n - 1)" "l - n - 1 < OWNER_INCR_CHUNK_SIZE"
    using assms by (simp_all add: OWNER_INCR_CHUNK_SIZE_def)
  then show ?thesis
    using True by (simp add: OWNER_INCR_CHUNK_SIZE_def)
next
  case False
  then have "l - n + OWNER_INCR_CHUNK_SIZE - 1
      = OWNER_INCR_CHUNK_SIZE + (l - min l (n + OWNER_INCR_CHUNK_SIZE) + OWNER_INCR_CHUNK_SIZE - 1)"
    by (simp add: OWNER_INCR_CHUNK_SIZE_def)
  then show ?thesis
    by (simp add: OWNER_INCR_CHUNK_SIZE_def)
qed

text \<open>The rounds a transfer takes: one for each chunk and one for the empty end.\<close>

lemma pump_all:
  assumes "transferring k p t n so sr" "is_utf8 t"
    and "length ts = Suc ((length t - n + OWNER_INCR_CHUNK_SIZE - 1) div OWNER_INCR_CHUNK_SIZE)"
  shows "\<exists>so' sr' x'. fold (pump_round xs k) ts (so, sr, x) = (so', sr', x')
    \<and> xi_reads sr' ! p = Done (Inr (Some t)) \<and> map_of (xi_incr_sends so') k = None
    \<and> map_of (xi_incr_receives sr') (snd k) = None"
  using assms(1,3)
proof (induction ts arbitrary: n so sr x)
  case (Cons q ts)
  obtain so' sr' x' where round: "pump_round xs k q (so, sr, x) = (so', sr', x')"
    by (cases "pump_round xs k q (so, sr, x)") auto
  note chunk = pump_round_chunk [OF Cons.prems(1) round]
  have n: "n \<le> length t"
    using Cons.prems(1) by (auto simp: transferring_def send_ok_def)
  show ?case
  proof (cases "n = length t")
    case True
    then have "ts = []"
      using Cons.prems(2) by (simp add: OWNER_INCR_CHUNK_SIZE_def)
    then show ?thesis
      using chunk True assms(2) round by simp
  next
    case False
    let ?n = "min (length t) (n + OWNER_INCR_CHUNK_SIZE)"
    have "length ts = Suc ((length t - ?n + OWNER_INCR_CHUNK_SIZE - 1) div OWNER_INCR_CHUNK_SIZE)"
      using Cons.prems(2) False n chunks_left [of n "length t"] by simp
    then show ?thesis
      using Cons.IH [of ?n so' sr' x'] chunk False round by simp
  qed
qed simp

end

section \<open>Starting a transfer\<close>

definition distinct_atoms :: "AtomTable \<Rightarrow> bool" where
  "distinct_atoms ats \<longleftrightarrow>
     distinct [X_NONE, atom_clipboard ats, atom_utf8_string ats, atom_string ats, atom_targets ats, atom_timestamp ats,
       atom_incr ats, atom_invisibool_dest ats, atom_invisibool_timestamp_fetch ats]"

text \<open>The request the server sends the owner for the \<open>ConvertSelection\<close> of \<open>read_start\<close>.\<close>

definition conversion_request :: "X11Inner \<Rightarrow> timestamp \<Rightarrow> SelectionRequestEvent" where
  "conversion_request sr t =
     \<lparr>rq_time = t, rq_requestor = xi_our_window sr, rq_selection = atom_clipboard (xi_atoms sr),
      rq_target = atom_utf8_string (xi_atoms sr), rq_property = atom_invisibool_dest (xi_atoms sr)\<rparr>"

lemma ne_bytes_length [simp]: "length (ne_bytes xs n) = 4"
  by (simp add: ne_bytes_def Let_def)

lemma ne_bytes_value: "u32_from_ne_bytes xs (ne_bytes xs n) = n"
proof -
  let ?b = "\<lambda>i. word_of_nat (unat n div 256 ^ i) :: u8"
  have "[0..<4] = [0, 1, 2, 3 :: nat]"
    by (simp add: upt_rec)
  then have le: "map ?b [0..<4] = [?b 0, ?b 1, ?b 2, ?b 3]"
    by simp
  have n: "unat n < 256 * 256 * 256 * 256"
    using unsigned_less [of n] by simp
  have "u32_from_ne_bytes xs (ne_bytes xs n)
      = word_of_nat (foldl (\<lambda>n b. n * 256 + unat b) 0 [?b 3, ?b 2, ?b 1, ?b 0])"
    by (simp add: u32_from_ne_bytes_def ne_bytes_def Let_def le)
  also have "foldl (\<lambda>n b. n * 256 + unat b) 0 [?b 3, ?b 2, ?b 1, ?b 0] = unat n"
  proof -
    define m1 m2 m3 where m: "m1 = unat n div 256" "m2 = m1 div 256" "m3 = m2 div 256"
    have p: "unat n div 256 ^ 2 = m2" "unat n div 256 ^ 3 = m3"
      by (simp_all add: m power2_eq_square power3_eq_cube div_mult2_eq)
    have byte: "unat (word_of_nat k :: u8) = k mod 256" for k
      by (simp add: unat_of_nat)
    have "m3 < 256"
      using n by (simp add: m div_mult2_eq [symmetric] less_mult_imp_div_less)
    then have b: "unat (?b 0) = unat n mod 256" "unat (?b 1) = m1 mod 256" "unat (?b 2) = m2 mod 256" "unat (?b 3) = m3"
      unfolding byte p by (simp_all add: m)
    have "m3 * 256 + m2 mod 256 = m2" "m2 * 256 + m1 mod 256 = m1" "m1 * 256 + unat n mod 256 = unat n"
      by (simp_all add: m)
    then show ?thesis
      by (simp only: foldl.simps b mult_0 add_0)
  qed
  finally show ?thesis
    by simp
qed

context x_server
begin

lemma read_parts_static:
  assumes "held x (w, p) = Some (ty, v)" "length v \<le> MAX_CLIPBOARD_BYTES"
  shows "\<exists>x'. read_parts xs w p (take 32 v) (length v - 32) x = Some (x', Inr v)"
proof (cases "length v \<le> 32")
  case True
  then show ?thesis
    by (subst read_parts.simps) simp
next
  case False
  have len: "(of_nat (MAX_CLIPBOARD_BYTES div 4) :: u32) = 2097152" "(of_nat (length (take 32 v) div 4) :: u32) = 8"
    using False by (simp_all add: MAX_CLIPBOARD_BYTES_def)
  obtain x' where g: "get_property xs w p False 8 2097152 x = (x', Inr (reply_of (ty, v) 8 2097152))"
    using get_property_held [OF assms(1), of 8 False 2097152] False assms(2) by (auto simp: MAX_CLIPBOARD_BYTES_def)
  have "reply_of (ty, v) 8 2097152 = \<lparr>gp_type = ty, gp_bytes_after = 0, gp_value = drop 32 v\<rparr>"
    using assms(2) by (simp add: reply_of_def MAX_CLIPBOARD_BYTES_def)
  moreover have "read_parts xs w p v 0 x' = Some (x', Inr v)"
    by (subst read_parts.simps) simp
  ultimately show ?thesis
    using g False assms(2) len by (subst read_parts.simps) (simp add: not_less)
qed

end

text \<open>A reader that waits for the reply, with no transfer under way.\<close>

definition awaits :: "pending \<Rightarrow> X11Inner \<Rightarrow> bool" where
  "awaits p sr \<longleftrightarrow>
     (let dest = atom_invisibool_dest (xi_atoms sr)
      in x_inv sr \<and> distinct_atoms (xi_atoms sr) \<and> map_of (xi_pending_reads sr) dest = Some p
         \<and> map_of (xi_incr_receives sr) dest = None)"

context x_server
begin

lemma paste_notify:
  fixes sr :: X11Inner
  defines "dest \<equiv> atom_invisibool_dest (xi_atoms sr)"
  defines "sr1 \<equiv> sr\<lparr>xi_pending_reads := AList.delete dest (xi_pending_reads sr)\<rparr>"
  assumes reader: "awaits p sr" and found: "held x (xi_our_window sr, dest) = Some (ty, v)" "length v \<le> MAX_CLIPBOARD_BYTES"
    and nf: "nf_requestor nf = xi_our_window sr" "nf_property nf = dest"
  shows "ty \<noteq> atom_incr (xi_atoms sr) \<Longrightarrow>
      \<exists>x'. handle_selection_notify xs now nf (sr, x) = Some (complete_plain_read p v sr1, x')"
    and "ty = atom_incr (xi_atoms sr) \<Longrightarrow> v = ne_bytes xs (of_nat n) \<Longrightarrow> n \<le> MAX_CLIPBOARD_BYTES \<Longrightarrow>
      \<exists>x'. handle_selection_notify xs now nf (sr, x) = Some (start_incr_receive xs now p dest (sr1, x'))"
proof -
  have dest: "map_of (xi_pending_reads sr) dest = Some p" "dest \<noteq> X_NONE"
    using reader by (auto simp: awaits_def dest_def distinct_atoms_def Let_def)
  obtain x1 where g: "get_property xs (xi_our_window sr) dest False 0 8 x = (x1, Inr (reply_of (ty, v) 0 8))"
      "held x1 = held x"
    using get_property_held [OF found(1), of 0 False 8] found(2) by (auto simp: MAX_CLIPBOARD_BYTES_def)
  have reply: "reply_of (ty, v) 0 8 = \<lparr>gp_type = ty, gp_bytes_after = of_nat (length v - 32), gp_value = take 32 v\<rparr>"
    by (simp add: reply_of_def)
  have rest: "unat (of_nat (length v - 32) :: u32) = length v - 32"
    using found(2) by (simp add: MAX_CLIPBOARD_BYTES_def unat_of_nat)
  obtain x2 where parts: "read_parts xs (xi_our_window sr) dest (take 32 v) (length v - 32) x1 = Some (x2, Inr v)"
    using read_parts_static [of x1 "xi_our_window sr" dest ty v] g(2) found by auto
  show "\<exists>x'. handle_selection_notify xs now nf (sr, x) = Some (complete_plain_read p v sr1, x')"
    if "ty \<noteq> atom_incr (xi_atoms sr)"
    using that dest nf g(1) reply parts rest by (simp add: handle_selection_notify_def sr1_def)
  show "\<exists>x'. handle_selection_notify xs now nf (sr, x) = Some (start_incr_receive xs now p dest (sr1, x'))"
    if "ty = atom_incr (xi_atoms sr)" "v = ne_bytes xs (of_nat n)" "n \<le> MAX_CLIPBOARD_BYTES"
  proof -
    have "unat (of_nat n :: u32) = n"
      using that(3) by (simp add: MAX_CLIPBOARD_BYTES_def unat_of_nat)
    then have "\<not> MAX_CLIPBOARD_BYTES < unat (u32_from_ne_bytes xs v)"
      using that(2,3) by (simp add: ne_bytes_value)
    then show ?thesis
      using that(1,2) dest nf g(1) reply by (auto simp: handle_selection_notify_def sr1_def)
  qed
qed

end

definition transfer_rounds :: "string \<Rightarrow> nat" where
  "transfer_rounds t =
     (if length t \<le> OWNER_SINGLE_SHOT_CAP then 0
      else Suc ((length t + OWNER_INCR_CHUNK_SIZE - 1) div OWNER_INCR_CHUNK_SIZE))"

context x_server
begin

lemma transfer_done:
  assumes owner: "x_inv so" "xi_owned so = Some c" "is_utf8 (oc_text c)"
    and reader: "awaits p sr" "xi_atoms sr = xi_atoms so"
    and rounds: "length ts = transfer_rounds (oc_text c)"
  shows "\<exists>so' sr' x'. map_option (fold (pump_round xs (xi_our_window sr, atom_invisibool_dest (xi_atoms sr))) ts)
      (paste xs t0 t1 (conversion_request sr rt) (so, sr, x)) = Some (so', sr', x')
    \<and> xi_reads sr' ! p = Done (Inr (Some (oc_text c)))"
proof -
  let ?dest = "atom_invisibool_dest (xi_atoms sr)" and ?t = "oc_text c" and ?rq = "conversion_request sr rt"
  let ?k = "(xi_our_window sr, ?dest)"
  let ?sr1 = "sr\<lparr>xi_pending_reads := AList.delete ?dest (xi_pending_reads sr)\<rparr>"
  have small: "length ?t \<le> MAX_CLIPBOARD_BYTES"
    using x_invD(1) [OF owner(1,2)] .
  have ats: "distinct_atoms (xi_atoms so)" "map_of (xi_incr_receives sr) ?dest = None" "p < length (xi_reads sr)"
    using reader x_invD(4) [of sr ?dest p] by (auto simp: awaits_def Let_def)
  obtain so1 x1 where req: "handle_selection_request xs t0 ?rq (so, x) = (so1, x1)"
    by fastforce
  have rq: "rq_target ?rq = atom_utf8_string (xi_atoms so)" "rq_requestor ?rq = xi_our_window sr" "rq_property ?rq = ?dest"
    by (simp_all add: conversion_request_def reader(2))
  have gate: "handle_property_notify xs t1 (new_value ?k) (sr, x1) = (sr, x1)"
    using ats(1,2) reader(2)
    by (auto simp: handle_property_notify_def new_value_def handle_incr_receive_chunk_def distinct_atoms_def)
  show ?thesis
  proof (cases "length ?t \<le> OWNER_SINGLE_SHOT_CAP")
    case True
    have "held x1 ?k = Some (atom_utf8_string (xi_atoms so), as_bytes ?t)"
      using request_answer(2) [OF req] ats(1) owner(2) True
      by (simp add: rq selection_answer_def distinct_atoms_def)
    then obtain x2 where "handle_selection_notify xs t1 \<lparr>nf_time = rq_time ?rq, nf_requestor = rq_requestor ?rq,
        nf_selection = rq_selection ?rq, nf_target = rq_target ?rq, nf_property = rq_property ?rq\<rparr> (sr, x1)
        = Some (complete_plain_read p (as_bytes ?t) ?sr1, x2)"
      using paste_notify(1) [OF reader(1), of x1 "atom_utf8_string (xi_atoms so)" "as_bytes ?t"] small ats(1) reader(2)
      by (fastforce simp: rq distinct_atoms_def)
    then show ?thesis
      using req gate rounds True ats(3) owner(3)
      by (simp add: paste_def rq transfer_rounds_def complete_plain_read_def pending_complete_def)
  next
    case False
    have starts: "starts_transfer so (rq_target ?rq) = Some ?t"
      using ats(1) owner(2) False by (simp add: rq starts_transfer_def distinct_atoms_def)
    have "held x1 ?k = Some (atom_incr (xi_atoms so), ne_bytes xs (of_nat (length ?t)))"
      using request_answer(2) [OF req] ats(1) owner(2) False
      by (simp add: rq selection_answer_def distinct_atoms_def)
    then obtain x2 where notify: "handle_selection_notify xs t1 \<lparr>nf_time = rq_time ?rq, nf_requestor = rq_requestor ?rq,
        nf_selection = rq_selection ?rq, nf_target = rq_target ?rq, nf_property = rq_property ?rq\<rparr> (sr, x1)
        = Some (start_incr_receive xs t1 p ?dest (?sr1, x2))"
      using paste_notify(2) [OF reader(1), of x1 "atom_incr (xi_atoms so)" _ _ "length ?t"] small reader(2)
      by (fastforce simp: rq MAX_CLIPBOARD_BYTES_def)
    obtain sr2 x3 where sr2: "start_incr_receive xs t1 p ?dest (?sr1, x2) = (sr2, x3)"
      by fastforce
    have "transferring ?k p ?t 0 so1 sr2"
      using sr2 request_answer(3) [OF req] starts ats reader(2) small
      by (auto simp: transferring_def start_incr_receive_def set_incr_in_progress_def rq Let_def send_ok_def
          distinct_atoms_def)
    then show ?thesis
      using pump_all [of ?k p ?t 0 so1 sr2 ts x3] owner(3) rounds False req gate notify sr2
      by (auto simp: paste_def rq transfer_rounds_def)
  qed
qed

end

end
