(* ===== verification/X11.thy ===== *)
theory X11
  imports X11Transfer
begin

text \<open>
  What the X11 backend promises: its threads keep the shared state well-formed and end their waits,
  requests are answered from the owned content, a text of any admitted length arrives whole; and
  two ways in which it fails: a request error that blocks all later writes, and a second read during
  an incremental transfer. A small server shows that the assumptions on the X server hold together.
\<close>

section \<open>A server\<close>

record ref_server =
  rs_props :: "((window \<times> atom) \<times> atom \<times> u8 list) list"
  rs_sent :: "(window \<times> SelectionNotifyEvent) list"
  rs_owner :: "window option"

definition ref_names :: "string list" where
  "ref_names = [''CLIPBOARD'', ''UTF8_STRING'', ''STRING'', ''TARGETS'', ''TIMESTAMP'', ''INCR'', ''INVISIBOOL_DEST'',
     ''INVISIBOOL_TIMESTAMP_FETCH'']"

definition ref_set :: "window \<Rightarrow> atom \<Rightarrow> atom \<Rightarrow> u8 list \<Rightarrow> ref_server \<Rightarrow> ref_server" where
  "ref_set w p ty v x = x\<lparr>rs_props := AList.update (w, p) (ty, v) (rs_props x)\<rparr>"

definition ref_get :: "bool \<Rightarrow> window \<Rightarrow> atom \<Rightarrow> u32 \<Rightarrow> u32 \<Rightarrow> ref_server \<Rightarrow> ref_server \<times> (x_error + GetPropertyReply)" where
  "ref_get d w p off len x =
     (case map_of (rs_props x) (w, p) of
        None \<Rightarrow> (x, Inr \<lparr>gp_type = X_NONE, gp_bytes_after = 0, gp_value = []\<rparr>)
      | Some q \<Rightarrow>
          if 4 * unat off > length (snd q) then (x, Inl (ReplyError ''BadValue''))
          else (if d \<and> length (snd q) \<le> 4 * unat off + 4 * unat len
                then x\<lparr>rs_props := AList.delete (w, p) (rs_props x)\<rparr> else x,
                Inr (reply_of q (unat off) (unat len))))"

text \<open>The bytes of 32-bit values, on a little-endian machine.\<close>

definition le_bytes :: "u32 \<Rightarrow> u8 list" where
  "le_bytes n = map (\<lambda>i. word_of_nat (unat n div 256 ^ i)) [0..<4]"

definition ref_x :: "ref_server xserver" where
  "ref_x =
     \<lparr>xs_intern_atom = (\<lambda>nm x. (x, Inr (100 + of_nat (length (takeWhile (\<lambda>m. m \<noteq> nm) ref_names))))),
      xs_get_property = ref_get,
      xs_change_property = (\<lambda>m w p ty fmt n v x. (ref_set w p ty v x, Inr ())),
      xs_change_property32 = (\<lambda>m w p ty vs x. (ref_set w p ty (concat (map le_bytes vs)) x, Inr ())),
      xs_delete_property = (\<lambda>w p x. (x\<lparr>rs_props := AList.delete (w, p) (rs_props x)\<rparr>, Inr ())),
      xs_watch_properties = (\<lambda>w x. (x, Inr ())),
      xs_send_event = (\<lambda>w ev x. (x\<lparr>rs_sent := rs_sent x @ [(w, ev)]\<rparr>, Inr ())),
      xs_convert_selection = (\<lambda>w s ty p t x. (x, Inr ())),
      xs_set_selection_owner = (\<lambda>w s t x. (x\<lparr>rs_owner := if w = X_NONE then None else Some w\<rparr>, Inr ())),
      xs_flush = (\<lambda>x. (x, Inr ())),
      xs_no_operation = (\<lambda>x. (x, Inr ())),
      xs_enable_bigreq = (\<lambda>x. (x, Inr ())),
      xs_query_xfixes = (\<lambda>a b x. (x, Inr ())),
      xs_generate_id = (\<lambda>x. (x, Inr 7)),
      xs_create_window = (\<lambda>w x. (x, Inr ())),
      xs_select_selection_input = (\<lambda>w s x. (x, Inr ())),
      xs_big_endian = False\<rparr>"

definition ref_held :: "ref_server \<Rightarrow> properties" where
  "ref_held x = map_of (rs_props x)"

lemma ref_ne_bytes: "ne_bytes ref_x = le_bytes"
  by (rule ext) (simp add: ne_bytes_def le_bytes_def ref_x_def)

interpretation ref_x: x_server ref_x ref_held rs_sent
proof unfold_locales
  fix w p ty vs x x' r
  assume "xs_change_property32 ref_x PropReplace w p ty vs x = (x', r)"
  then show "r = Inr () \<and> ref_held x' = (ref_held x)((w, p) \<mapsto> (ty, concat (map (ne_bytes ref_x) vs))) \<and> rs_sent x' = rs_sent x"
    unfolding ref_ne_bytes by (auto simp: ref_x_def ref_set_def ref_held_def)
qed (auto simp: ref_x_def ref_set_def ref_get_def ref_held_def split: option.splits if_splits)

lemma ref_progress: "makes_progress ref_x"
  by (auto simp: makes_progress_def ref_x_def ref_get_def reply_of_def MAX_CLIPBOARD_BYTES_def split: option.splits if_splits)

section \<open>Opening\<close>

definition empty_server :: ref_server where
  "empty_server = \<lparr>rs_props = [], rs_sent = [], rs_owner = None\<rparr>"

definition sample_atoms :: AtomTable where
  "sample_atoms = \<lparr>atom_clipboard = 100, atom_utf8_string = 101, atom_string = 102, atom_targets = 103,
     atom_timestamp = 104, atom_incr = 105, atom_invisibool_dest = 106, atom_invisibool_timestamp_fetch = 107\<rparr>"

lemma sample_opens:
  "x11_new ref_x (Inr empty_server) (Inr ()) (Inr ()) = Inr (inner_new sample_atoms 7, empty_server)"
  by (simp add: x11_new_def intern_table_def intern_one_def x_err_def map_err_def sample_atoms_def ref_x_def ref_names_def)

lemma sample_atoms_distinct: "distinct_atoms sample_atoms"
  by (simp add: distinct_atoms_def sample_atoms_def X_NONE_def)

lemma inner_new_inv: "x_inv (inner_new ats w)"
  by (simp add: x_inv_def inner_new_def)

section \<open>The slot of the server time, once lost\<close>

text \<open>The slot is taken and nobody waits for its value.\<close>

definition slot_lost :: "'x x_system \<Rightarrow> bool" where
  "slot_lost s \<longleftrightarrow> xi_pending_timestamp (sys_inner s) \<noteq> None \<and> (\<forall>w \<in> set (sys_writers s). \<not> is_fetching w)"

lemma slot_lost_step:
  assumes "x_step xs s s'" "slot_lost s"
  shows "slot_lost s'"
  using assms
proof cases
  case (step_event now r p go)
  then show ?thesis
    using slot_event [OF step_event(3)] assms(2) by (simp add: slot_lost_def)
next
  case (step_write i now p w)
  have "\<not> is_fetching (sys_writers s ! i)"
    using assms(2) step_write(2) by (simp add: slot_lost_def)
  then show ?thesis
    using slot_write(2) [OF step_write(3)] step_write(1) assms(2) set_update_subset_insert [of "sys_writers s" i w]
    by (auto simp: slot_lost_def)
qed (auto simp: slot_lost_def write_start_def)

lemma slot_lost_run: "x_run xs s s' \<Longrightarrow> slot_lost s \<Longrightarrow> slot_lost s'"
  by (induction rule: x_run.induct) (auto intro: slot_lost_step)

lemma slot_lost_waits:
  "slot_lost s \<Longrightarrow> write_step xs now (WriteWaiting t h) (sys_at s) = (sys_at s, WriteWaiting t h)"
  by (simp add: slot_lost_def write_step_def fetch_start_def)

section \<open>A reply settles the read\<close>

lemma reply_cases:
  assumes "makes_progress xs" "x_inv st" "map_of (xi_pending_reads st) dest = Some p"
    and "dest = (if nf_property nf = X_NONE then atom_invisibool_dest (xi_atoms st) else nf_property nf)"
  obtains r x' where "handle_selection_notify xs now nf (st, x)
      = Some (pending_complete p r (st\<lparr>xi_pending_reads := AList.delete dest (xi_pending_reads st)\<rparr>), x')"
    "nf_property nf = X_NONE \<Longrightarrow> r = Inr None"
  | x' where "handle_selection_notify xs now nf (st, x)
      = Some (start_incr_receive xs now p dest (st\<lparr>xi_pending_reads := AList.delete dest (xi_pending_reads st)\<rparr>, x'))"
    "nf_property nf \<noteq> X_NONE"
proof (cases "nf_property nf = X_NONE")
  case True
  then show thesis
    using that(1) [of "Inr None" x] assms(3,4) by (simp add: handle_selection_notify_def)
next
  case False
  obtain x1 peek where g: "get_property xs (nf_requestor nf) (nf_property nf) False 0 8 x = (x1, peek)"
    by fastforce
  show thesis
  proof (cases peek)
    case (Inl e)
    then show thesis
      using that(1) [of "Inl e" x1] assms(3,4) False g by (simp add: handle_selection_notify_def)
  next
    case (Inr reply)
    obtain x2 r where parts: "read_parts xs (nf_requestor nf) (nf_property nf) (gp_value reply)
        (unat (gp_bytes_after reply)) x1 = Some (x2, r)"
      using read_parts_returns [OF assms(1)] by blast
    let ?st = "st\<lparr>xi_pending_reads := AList.delete dest (xi_pending_reads st)\<rparr>"
    have eq: "handle_selection_notify xs now nf (st, x) =
        (if gp_type reply = atom_incr (xi_atoms st) then
           (if length (gp_value reply) \<ge> 4
               \<and> unat (u32_from_ne_bytes xs (take 4 (gp_value reply))) > MAX_CLIPBOARD_BYTES
            then Some (pending_complete p (Inl too_large) ?st, x1)
            else Some (start_incr_receive xs now p dest (?st, x1)))
         else Some (case r of Inl e \<Rightarrow> pending_complete p (Inl e) ?st | Inr buf \<Rightarrow> complete_plain_read p buf ?st, x2))"
      using assms(3,4) False g Inr parts by (simp add: handle_selection_notify_def Let_def split: sum.split)
    show thesis
    proof (cases "gp_type reply = atom_incr (xi_atoms st)")
      case True
      then show thesis
        using that(1) [of "Inl too_large" x1] that(2) [of x1] False eq by (auto split: if_splits)
    next
      case plain: False
      then show thesis
        using that(1) [of _ x2] False eq by (cases r) (auto simp: complete_plain_read_def)
    qed
  qed
qed

section \<open>Properties\<close>

text \<open>
  (C34) \<^bold>\<open>A text arrives whole.\<close> Two processes with this backend on one X server: when the first owns a
  text of at most 8 MiB and the second waits for a reply with no transfer under way, then the
  conversion and the rounds of the incremental transfer (none up to 256 KiB, else one for each 64 KiB
  and one for the end) leave exactly this text as the result, and the waiting read returns it.
\<close>

theorem clipboard_transfer:
  assumes server: "x_server xs held sent"
    and owner: "x_inv so" "xi_owned so = Some c" "is_utf8 (oc_text c)"
    and reader: "awaits p sr" "xi_atoms sr = xi_atoms so"
    and rounds: "length ts = transfer_rounds (oc_text c)"
  shows "\<exists>so' sr' x' sr''. map_option (fold (pump_round xs (xi_our_window sr, atom_invisibool_dest (xi_atoms sr))) ts)
      (paste xs t0 t1 (conversion_request sr rt) (so, sr, x)) = Some (so', sr', x')
    \<and> read_wake p start t2 sr' = Some (sr'', Inr (Some (oc_text c)))"
proof -
  obtain so' sr' x' where "map_option (fold (pump_round xs (xi_our_window sr, atom_invisibool_dest (xi_atoms sr))) ts)
      (paste xs t0 t1 (conversion_request sr rt) (so, sr, x)) = Some (so', sr', x')"
      "xi_reads sr' ! p = Done (Inr (Some (oc_text c)))"
    using x_server.transfer_done [OF assms] by blast
  moreover have "\<exists>sr''. read_wake p start t2 sr' = Some (sr'', Inr (Some (oc_text c)))"
    using calculation(2) by (simp add: read_wake_def)
  ultimately show ?thesis
    by blast
qed

text \<open>
  (C37) \<^bold>\<open>What other clients are told.\<close> Every \<open>SelectionRequest\<close> is answered by one event to the requestor:
  the property is written with the list of targets, the time of acquisition, the text (up to 256 KiB)
  or the announcement of a transfer, and named in the event; any other target, and any request for
  content while nothing is owned, changes no property and is refused. Only an announced transfer
  changes the state.
\<close>

theorem selection_request_answered:
  assumes server: "x_server xs held sent" and request: "handle_selection_request xs now rq (st, x) = (st', x')"
  shows "sent x' = sent x @ [(rq_requestor rq, \<lparr>nf_time = rq_time rq, nf_requestor = rq_requestor rq,
      nf_selection = rq_selection rq, nf_target = rq_target rq,
      nf_property = (if selection_answer xs st (rq_target rq) = None then X_NONE else rq_property rq)\<rparr>)]
    \<and> held x' = (case selection_answer xs st (rq_target rq) of
        None \<Rightarrow> held x | Some v \<Rightarrow> (held x)((rq_requestor rq, rq_property rq) \<mapsto> v))
    \<and> st' = (case starts_transfer st (rq_target rq) of
        None \<Rightarrow> st
      | Some t \<Rightarrow> st\<lparr>xi_incr_sends := AList.update (rq_requestor rq, rq_property rq)
          \<lparr>is_content = t, is_next_offset = 0, is_timestamp = rq_time rq, is_target_property = rq_property rq,
           is_requestor = rq_requestor rq, is_target = atom_utf8_string (xi_atoms st), is_started_at = now\<rparr>
          (xi_incr_sends st)\<rparr>)"
  using x_server.request_answer [OF assms] by blast

text \<open>
  (C35) \<^bold>\<open>The shared state is well-formed.\<close> In every state that the threads reach, with any events and any
  answers of the server, a registered read waits for its reply and a registered transfer for its
  chunks, none twice, every waiting read has its own slot, nothing longer than 8 MiB is held or
  served, results are UTF-8, and at most one writer fetches the server time. A result is not changed
  by another thread while its read still waits.
\<close>

theorem x11_run_invariant:
  assumes "x_run xs (sys_new ats w x) s" "x_step xs s s'"
  shows "sys_inv s' \<and> results_stay s s'"
  using x_step_ok [OF assms(2)] x_run_inv [OF assms(1) sys_new_inv] by blast

lemma read_wake_answer:
  "read_wake q t now st = (case xi_reads st ! q of
       Done r \<Rightarrow> Some (drop_pending_read (pending_complete q (Inl (ReadFailed ''consumed'')) st), r)
     | Awaiting \<Rightarrow> if from_millis 500 \<le> now - t then Some (drop_pending_read st, Inl read_timeout) else None
     | IncrInProgress \<Rightarrow> if from_millis 15000 \<le> now - t then Some (drop_pending_read st, Inl read_timeout) else None)"
  by (simp add: read_wake_def read_bound_def READ_CONVERSION_TIMEOUT_def split: PendingReadState.split)

text \<open>
  (C36) \<^bold>\<open>Reads end.\<close> When the server makes progress, the handler of a reply to a waiting read returns,
  for every text and every size, and the read is no longer waiting for the reply: it has its result,
  or it is a transfer with its own slot. Whatever state the threads are in, a waiting thread that looks
  returns its result if it is there; a read without a reply gives up exactly from 500 ms after its
  start, one whose transfer goes on exactly from 15 s; and a read that gives up no longer blocks the
  next one.
\<close>

theorem reply_settles_read:
  assumes "makes_progress xs" "x_inv st" "map_of (xi_pending_reads st) dest = Some p"
    and "dest = (if nf_property nf = X_NONE then atom_invisibool_dest (xi_atoms st) else nf_property nf)"
  shows "(\<exists>st' x'. handle_selection_notify xs now nf (st, x) = Some (st', x')
      \<and> map_of (xi_pending_reads st') dest = None
      \<and> (case xi_reads st' ! p of
           Awaiting \<Rightarrow> False
         | IncrInProgress \<Rightarrow> map_option ir_pending (map_of (xi_incr_receives st') dest) = Some p
         | Done r \<Rightarrow> nf_property nf \<noteq> X_NONE \<or> r = Inr None))
    \<and> (\<forall>s q t late. case xi_reads s ! q of
          Done r \<Rightarrow> \<exists>s'. read_wake q t late s = Some (s', r)
        | waiting \<Rightarrow>
            if from_millis (if waiting = Awaiting then 500 else 15000) \<le> late - t
            then \<exists>s'. read_wake q t late s = Some (s', Inl read_timeout)
              \<and> map_of (xi_pending_reads s') (atom_invisibool_dest (xi_atoms s)) = None
            else read_wake q t late s = None)"
proof
  have p: "p < length (xi_reads st)"
    using x_invD(4) [OF assms(2,3)] by simp
  show "\<exists>st' x'. handle_selection_notify xs now nf (st, x) = Some (st', x')
      \<and> map_of (xi_pending_reads st') dest = None
      \<and> (case xi_reads st' ! p of
           Awaiting \<Rightarrow> False
         | IncrInProgress \<Rightarrow> map_option ir_pending (map_of (xi_incr_receives st') dest) = Some p
         | Done r \<Rightarrow> nf_property nf \<noteq> X_NONE \<or> r = Inr None)"
    using reply_cases [OF assms, of now x] p
    by cases (auto simp: pending_complete_def start_incr_receive_def set_incr_in_progress_def Let_def)
qed (auto simp: read_wake_answer drop_pending_read_def split: PendingReadState.split)

text \<open>
  (C38) \<^bold>\<open>A failed request blocks all later writes.\<close> \<open>fetch_server_time\<close> takes the slot before its two
  requests and leaves it taken when one of them fails. From then on, whatever the threads do, no
  other writer gets past the wait for the slot.
\<close>

theorem timestamp_slot_lost:
  assumes run: "x_run xs (sys_new ats w x) s"
    and writer: "i < length (sys_writers s)" "sys_writers s ! i = WriteWaiting t h"
    and failed: "fetch_start xs now (sys_at s) = Some (p, Inl e)"
    and later: "x_run xs ((sys_set p s)\<lparr>sys_writers := (sys_writers s)[i := WriteDone (Inl e)]\<rparr>) s'"
  shows "x_step xs s ((sys_set p s)\<lparr>sys_writers := (sys_writers s)[i := WriteDone (Inl e)]\<rparr>)
    \<and> write_step xs now' (WriteWaiting t' h') (sys_at s') = (sys_at s', WriteWaiting t' h')"
proof -
  let ?s = "(sys_set p s)\<lparr>sys_writers := (sys_writers s)[i := WriteDone (Inl e)]\<rparr>"
  have step: "write_step xs now (sys_writers s ! i) (sys_at s) = (p, WriteDone (Inl e))"
    using writer(2) failed by (simp add: write_step_def)
  have free: "xi_pending_timestamp (sys_inner s) = None" "xi_pending_timestamp (fst p) \<noteq> None"
    using failed by (auto simp: fetch_start_def Let_def split: if_splits prod.splits sum.splits)
  have "writers_ok s"
    using x_run_inv [OF run sys_new_inv] by (simp add: sys_inv_def)
  then have "\<forall>w \<in> set (sys_writers s). \<not> is_fetching w"
    using free(1) by (simp add: writers_ok_def filter_empty_conv)
  then have "slot_lost ?s"
    using free(2) set_update_subset_insert [of "sys_writers s" i "WriteDone (Inl e)"] by (auto simp: slot_lost_def)
  then show ?thesis
    using slot_lost_run [OF later] slot_lost_waits step_write [OF writer(1) step] by blast
qed

text \<open>
  (C39) \<^bold>\<open>A second read during a transfer.\<close> The test for a read in progress looks at the registered reads
  only, and a read whose transfer has begun is no longer among them. So a second read is admitted
  while the transfer of the first goes on, and asks for the same property. The text that the owner
  then writes there, if it is not empty and fits into what is left of the 8 MiB, is taken for a chunk
  of the first read's transfer, and the second read returns the empty text.
\<close>

theorem second_read_mixed:
  fixes st :: X11Inner
  defines "dest \<equiv> atom_invisibool_dest (xi_atoms st)"
  assumes server: "x_server xs held sent" and state: "x_inv st" "distinct_atoms (xi_atoms st)"
    and transfer: "map_of (xi_incr_receives st) dest = Some e"
      "map_of (xi_pending_reads st) dest = None"
    and asked: "xs_convert_selection xs (xi_our_window st) (atom_clipboard (xi_atoms st))
      (atom_utf8_string (xi_atoms st)) dest CURRENT_TIME x = (xa, Inr ())"
    and reply: "held x2 (xi_our_window st, dest) = Some (ty, v)" "v \<noteq> []"
      "length (ir_accumulated e) + length v \<le> MAX_CLIPBOARD_BYTES"
      "nf_requestor nf = xi_our_window st" "nf_property nf = dest"
  shows "\<exists>st1 x1 q st2 x3 st3 x4. read_start xs (st, x) = ((st1, x1), Inr q)
    \<and> handle_property_notify xs now (new_value (xi_our_window st, dest)) (st1, x2) = (st2, x3)
    \<and> map_option ir_accumulated (map_of (xi_incr_receives st2) dest) = Some (ir_accumulated e @ v)
    \<and> handle_selection_notify xs now' nf (st2, x3) = Some (st3, x4)
    \<and> xi_reads st3 ! q = Done (Inr (Some []))"
proof -
  obtain st1 x1 q where second: "read_start xs (st, x) = ((st1, x1), Inr q)"
    using asked transfer(2) x_server.flush [OF server, of xa]
    by (cases "xs_flush xs xa") (simp add: read_start_def pending_new_def dest_def)
  obtain st2 x3 where chunk: "handle_property_notify xs now (new_value (xi_our_window st, dest)) (st1, x2) = (st2, x3)"
    by fastforce
  note new = read_start_ok(2) [OF state(1) second refl]
  have st1: "xi_incr_receives st1 = xi_incr_receives st" "xi_our_window st1 = xi_our_window st"
      "xi_atoms st1 = xi_atoms st" "map_of (xi_pending_reads st1) dest = Some q"
    using second by (auto simp: read_start_def pending_new_def dest_def Let_def split: prod.splits sum.splits if_splits)
  have ats: "dest \<noteq> atom_invisibool_timestamp_fetch (xi_atoms st)" "dest \<noteq> X_NONE" "atom_incr (xi_atoms st) \<noteq> X_NONE"
    using state(2) by (auto simp: distinct_atoms_def dest_def)
  have "handle_incr_receive_chunk xs now dest (st1, x2) = (st2, x3)"
    using chunk ats(1) st1 by (simp add: handle_property_notify_def new_value_def)
  note got = x_server.received_chunk [OF server _ _ reply(3) this, unfolded st1(1,2), OF transfer(1) reply(1)]
  have st2: "map_of (xi_pending_reads st2) dest = Some q" "xi_reads st2 = xi_reads st1" "xi_atoms st2 = xi_atoms st"
      "map_of (xi_incr_receives st2) dest = Some (e\<lparr>ir_accumulated := ir_accumulated e @ v, ir_last_chunk_at := now\<rparr>)"
    using got(1) reply(2) st1 by simp_all
  obtain x4 where "get_property xs (xi_our_window st) dest False 0 8 x3
      = (x4, Inr \<lparr>gp_type = X_NONE, gp_bytes_after = 0, gp_value = []\<rparr>)"
    using x_server.get_missing [OF server, of False "xi_our_window st" dest 0 8 x3] got(2)
    by (cases "xs_get_property xs False (xi_our_window st) dest 0 8 x3") (auto simp: get_property_def)
  moreover have "read_parts xs (xi_our_window st) dest [] 0 x4 = Some (x4, Inr [])"
    by (subst read_parts.simps) simp
  ultimately have "handle_selection_notify xs now' nf (st2, x3) = Some (complete_plain_read q []
      (st2\<lparr>xi_pending_reads := AList.delete dest (xi_pending_reads st2)\<rparr>), x4)"
    using st2 ats reply(4,5) by (simp add: handle_selection_notify_def)
  moreover have "xi_reads (complete_plain_read q [] (st2\<lparr>xi_pending_reads :=
      AList.delete dest (xi_pending_reads st2)\<rparr>)) ! q = Done (Inr (Some []))"
    using st2(2) new by (simp add: complete_plain_read_def pending_complete_def bytes_to_str_def)
  moreover have "map_option ir_accumulated (map_of (xi_incr_receives st2) dest) = Some (ir_accumulated e @ v)"
    using st2(4) by simp
  ultimately show ?thesis
    using second chunk by blast
qed

section \<open>Witnesses\<close>

definition sample_owner :: "string \<Rightarrow> X11Inner" where
  "sample_owner t = (inner_new sample_atoms 8)\<lparr>xi_owned := Some \<lparr>oc_text = t, oc_hints = CONCEAL_ALL,
     oc_token = WriteToken 1, oc_acquired_at = 42, oc_set_at = 0\<rparr>, xi_next_token := 2\<rparr>"

definition sample_reader :: X11Inner where
  "sample_reader = (inner_new sample_atoms 7)\<lparr>xi_pending_reads := [(106, 0)], xi_reads := [Awaiting]\<rparr>"

definition long_text :: string where
  "long_text = replicate 300000 (CHR ''x'')"

lemma long_text_facts: "length long_text = 300000" "is_utf8 long_text"
proof -
  have "is_ascii long_text"
    by (simp add: long_text_def is_ascii_def list_all_iff)
  then show "is_utf8 long_text"
    by (rule ascii_is_utf8)
qed (simp add: long_text_def)

lemma sample_owner_inv: "length t \<le> MAX_CLIPBOARD_BYTES \<Longrightarrow> x_inv (sample_owner t)"
  by (simp add: sample_owner_def x_inv_def inner_new_def)

lemma sample_reader_awaits: "awaits 0 sample_reader" "x_inv sample_reader"
proof -
  show "x_inv sample_reader"
    by (simp add: sample_reader_def x_inv_def inner_new_def)
  then show "awaits 0 sample_reader"
    using sample_atoms_distinct by (simp add: awaits_def sample_reader_def inner_new_def sample_atoms_def)
qed

theorem clipboard_transfer_witness:
  "\<exists>so' sr' x' sr''. map_option (fold (pump_round ref_x (7, 106)) (replicate 6 (0, 0)))
      (paste ref_x 0 0 (conversion_request sample_reader 0) (sample_owner long_text, sample_reader, empty_server))
        = Some (so', sr', x')
    \<and> read_wake 0 0 0 sr' = Some (sr'', Inr (Some long_text))"
proof -
  have owned: "xi_owned (sample_owner long_text) = Some \<lparr>oc_text = long_text, oc_hints = CONCEAL_ALL,
      oc_token = WriteToken 1, oc_acquired_at = 42, oc_set_at = 0\<rparr>"
    by (simp add: sample_owner_def)
  have rounds: "length (replicate 6 (0, 0) :: (instant \<times> instant) list) = transfer_rounds long_text"
    by (simp add: transfer_rounds_def long_text_facts OWNER_SINGLE_SHOT_CAP_def OWNER_INCR_CHUNK_SIZE_def)
  have "x_inv (sample_owner long_text)"
    by (rule sample_owner_inv) (simp add: long_text_facts MAX_CLIPBOARD_BYTES_def)
  moreover have "xi_atoms sample_reader = xi_atoms (sample_owner long_text)" "xi_our_window sample_reader = 7"
      "atom_invisibool_dest (xi_atoms sample_reader) = 106"
    by (simp_all add: sample_reader_def sample_owner_def inner_new_def sample_atoms_def)
  ultimately show ?thesis
    using clipboard_transfer [OF ref_x.x_server_axioms _ owned _ sample_reader_awaits(1), of "replicate 6 (0, 0)"]
      rounds long_text_facts(2) by simp
qed

theorem selection_request_answered_witness:
  "\<exists>st' x'. handle_selection_request ref_x 0 (conversion_request sample_reader 3) (sample_owner ''hi'', empty_server) = (st', x')
    \<and> ref_held x' (7, 106) = Some (101, as_bytes ''hi'')
    \<and> map (\<lambda>(w, ev). (w, nf_property ev)) (rs_sent x') = [(7, 106)]"
proof -
  obtain st' x' where r: "handle_selection_request ref_x 0 (conversion_request sample_reader 3)
      (sample_owner ''hi'', empty_server) = (st', x')"
    by fastforce
  from selection_request_answered [OF ref_x.x_server_axioms r] r show ?thesis
    by (simp add: selection_answer_def sample_owner_def sample_reader_def inner_new_def sample_atoms_def
        conversion_request_def OWNER_SINGLE_SHOT_CAP_def empty_server_def ref_held_def)
qed

theorem x11_run_invariant_witness:
  "\<exists>s'. x_step ref_x (sys_new sample_atoms 7 empty_server) s' \<and> sys_readers s' = [(0, 5)] \<and> sys_inv s'"
proof -
  let ?s = "sys_new sample_atoms 7 empty_server"
  obtain p where r: "read_start ref_x (sys_at ?s) = (p, Inr 0)"
    by (simp add: read_start_def pending_new_def sys_new_def inner_new_def ref_x_def)
  have step: "x_step ref_x ?s ((sys_set p ?s)\<lparr>sys_readers := [(0, 5)]\<rparr>)"
    using step_read_start [OF r, of 5] by (simp add: sys_new_def)
  show ?thesis
    using x11_run_invariant [OF run_nil step] step by fastforce
qed

theorem reply_settles_read_witness:
  "\<exists>st' x'. handle_selection_notify ref_x 0
      \<lparr>nf_time = 0, nf_requestor = 7, nf_selection = 100, nf_target = 101, nf_property = X_NONE\<rparr> (sample_reader, empty_server)
      = Some (st', x') \<and> xi_reads st' ! 0 = Done (Inr None)"
proof -
  let ?nf = "\<lparr>nf_time = 0, nf_requestor = 7, nf_selection = 100, nf_target = 101, nf_property = X_NONE\<rparr>"
  have "map_of (xi_pending_reads sample_reader) 106 = Some 0"
    "106 = (if nf_property ?nf = X_NONE then atom_invisibool_dest (xi_atoms sample_reader) else nf_property ?nf)"
    by (simp_all add: sample_reader_def inner_new_def sample_atoms_def)
  from reply_settles_read [OF ref_progress sample_reader_awaits(2) this, of 0 empty_server]
  obtain st' x' where "handle_selection_notify ref_x 0 ?nf (sample_reader, empty_server) = Some (st', x')"
    by blast
  then show ?thesis
    by (auto simp: handle_selection_notify_def sample_reader_def inner_new_def sample_atoms_def pending_complete_def)
qed

definition broken_x :: "ref_server xserver" where
  "broken_x = ref_x\<lparr>xs_change_property := (\<lambda>m w p ty fmt n v x. (x, Inl ''broken''))\<rparr>"

theorem timestamp_slot_lost_witness:
  "\<exists>s'. x_run broken_x (sys_new sample_atoms 7 empty_server) s'
    \<and> write_step broken_x 9 (WriteWaiting ''b'' NONE) (sys_at s') = (sys_at s', WriteWaiting ''b'' NONE)"
proof -
  let ?init = "sys_new sample_atoms 7 empty_server"
  let ?s = "?init\<lparr>sys_writers := [write_start ''a'' NONE]\<rparr>"
  have "x_step broken_x ?init ?s"
    using step_write_start [of broken_x ?init "''a''" NONE] by (simp add: sys_new_def)
  then have run: "x_run broken_x ?init ?s"
    by (rule run_step [OF run_nil])
  have w: "0 < length (sys_writers ?s)" "sys_writers ?s ! 0 = WriteWaiting ''a'' NONE"
    by (simp_all add: write_start_def MAX_CLIPBOARD_BYTES_def)
  obtain p e where f: "fetch_start broken_x 0 (sys_at ?s) = Some (p, Inl e)"
    by (simp add: fetch_start_def sys_new_def inner_new_def broken_x_def)
  from timestamp_slot_lost [OF run w f run_nil, of 9 "''b''" NONE] run_step [OF run]
  show ?thesis
    by blast
qed

theorem second_read_mixed_witness:
  "\<exists>st1 x1 q st2 x3 st3 x4. read_start ref_x ((inner_new sample_atoms 7)\<lparr>xi_reads := [IncrInProgress], xi_incr_receives :=
        [(106, \<lparr>ir_pending = 0, ir_accumulated = [97], ir_last_chunk_at = 0\<rparr>)]\<rparr>, empty_server) = ((st1, x1), Inr q)
    \<and> handle_property_notify ref_x 0 (new_value (7, 106)) (st1, ref_set 7 106 101 [98, 99] empty_server) = (st2, x3)
    \<and> map_option ir_accumulated (map_of (xi_incr_receives st2) 106) = Some [97, 98, 99]
    \<and> handle_selection_notify ref_x 0 \<lparr>nf_time = 0, nf_requestor = 7, nf_selection = 100, nf_target = 101,
          nf_property = 106\<rparr> (st2, x3) = Some (st3, x4) \<and> xi_reads st3 ! q = Done (Inr (Some []))"
proof -
  let ?st = "(inner_new sample_atoms 7)\<lparr>xi_reads := [IncrInProgress], xi_incr_receives :=
        [(106, \<lparr>ir_pending = 0, ir_accumulated = [97], ir_last_chunk_at = 0\<rparr>)]\<rparr>"
  have st: "x_inv ?st" "distinct_atoms (xi_atoms ?st)" "atom_invisibool_dest (xi_atoms ?st) = 106" "xi_our_window ?st = 7"
      "map_of (xi_incr_receives ?st) 106 = Some \<lparr>ir_pending = 0, ir_accumulated = [97], ir_last_chunk_at = 0\<rparr>"
      "map_of (xi_pending_reads ?st) 106 = None"
    using sample_atoms_distinct by (simp_all add: x_inv_def inner_new_def MAX_CLIPBOARD_BYTES_def) (simp add: sample_atoms_def)
  obtain xa where asked: "xs_convert_selection ref_x 7 (atom_clipboard (xi_atoms ?st)) (atom_utf8_string (xi_atoms ?st))
      106 CURRENT_TIME empty_server = (xa, Inr ())"
    by (simp add: ref_x_def)
  have "ref_held (ref_set 7 106 101 [98, 99] empty_server) (7, 106) = Some (101, [98, 99])"
    by (simp add: ref_held_def ref_set_def)
  from second_read_mixed [OF ref_x.x_server_axioms st(1,2), unfolded st(3,4), OF st(5,6) asked this,
      of "\<lparr>nf_time = 0, nf_requestor = 7, nf_selection = 100, nf_target = 101, nf_property = 106\<rparr>" 0 0]
  show ?thesis
    by (simp add: MAX_CLIPBOARD_BYTES_def)
qed

end
