(* ===== verification/Tokens.thy ===== *)
theory Tokens
  imports Prelude
begin

text \<open>
  \<open>str::replace\<close> on a text that was put together from kept pieces and fakes: when a fake occurs nowhere
  but where it was put, replacing it replaces exactly those pieces, and \<open>str::matches\<close> counts them.
  Used by the round trip through a session.
\<close>

section \<open>Texts in pieces\<close>

text \<open>A piece is kept text (\<open>Inl\<close>) or a fake (\<open>Inr\<close>), which is shown as \<open>show f\<close>.\<close>

type_synonym piece = "string + string"

definition piece_text :: "(string \<Rightarrow> string) \<Rightarrow> piece \<Rightarrow> string" where
  "piece_text sh p = (case p of Inl s \<Rightarrow> s | Inr f \<Rightarrow> sh f)"

definition render :: "(string \<Rightarrow> string) \<Rightarrow> piece list \<Rightarrow> string" where
  "render sh ps = concat (map (piece_text sh) ps)"

lemma piece_text_simps [simp]: "piece_text sh (Inl s) = s" "piece_text sh (Inr f) = sh f"
  by (simp_all add: piece_text_def)

lemma render_simps [simp]:
  "render sh [] = []" "render sh (p # ps) = piece_text sh p @ render sh ps"
  "render sh (ps @ qs) = render sh ps @ render sh qs"
  by (simp_all add: render_def)

text \<open>Where the fake \<open>f\<close> was put, and where it occurs.\<close>

fun token_starts :: "(string \<Rightarrow> string) \<Rightarrow> string \<Rightarrow> nat \<Rightarrow> piece list \<Rightarrow> nat list" where
  "token_starts sh f i [] = []"
| "token_starts sh f i (p # ps) =
     (if p = Inr f then [i] else []) @ token_starts sh f (i + length (piece_text sh p)) ps"

definition occurrences :: "string \<Rightarrow> string \<Rightarrow> nat list" where
  "occurrences s p = filter (\<lambda>i. starts_with (drop i s) p) [0..<length s]"

definition lone_tokens :: "(string \<Rightarrow> string) \<Rightarrow> string \<Rightarrow> piece list \<Rightarrow> bool" where
  "lone_tokens sh f ps \<longleftrightarrow> set (occurrences (render sh ps) f) \<subseteq> set (token_starts sh f 0 ps)"

lemma occurrences_iff:
  "p \<noteq> [] \<Longrightarrow> i \<in> set (occurrences s p) \<longleftrightarrow> i + length p \<le> length s \<and> take (length p) (drop i s) = p"
proof -
  assume p: "p \<noteq> []"
  have "i < length s \<and> i + length p \<le> length s" if "take (length p) (drop i s) = p"
  proof -
    have "length (take (length p) (drop i s)) = length p" using that by simp
    with p show ?thesis by (cases p) auto
  qed
  then show ?thesis
    by (auto simp: occurrences_def starts_with_def)
qed

lemma str_find_first: "str_find s p = Some i \<Longrightarrow> j < i \<Longrightarrow> \<not> starts_with (drop j s) p"
proof (induction s arbitrary: i j)
  case (Cons x s)
  then show ?case by (cases j) (auto split: if_splits)
qed (simp split: if_splits)

lemma str_find_occurrences:
  assumes "p \<noteq> []"
  shows "str_find s p = None \<longleftrightarrow> occurrences s p = []"
    and "str_find s p = Some i \<Longrightarrow> i \<in> set (occurrences s p) \<and> (\<forall>j \<in> set (occurrences s p). i \<le> j)"
proof -
  have none: "str_find s p = None \<Longrightarrow> \<not> starts_with (drop j s) p" for j
  proof (induction s arbitrary: j)
    case Nil
    then show ?case using assms by (simp add: starts_with_def)
  next
    case (Cons x s)
    then show ?case by (cases j) (auto split: if_splits)
  qed
  have some: "i \<in> set (occurrences s p)" if "str_find s p = Some i" for i
    using str_find_Some [OF that] by (simp add: occurrences_iff [OF assms])
  show "str_find s p = None \<longleftrightarrow> occurrences s p = []"
  proof (cases "str_find s p")
    case None
    with none show ?thesis by (simp add: occurrences_def filter_empty_conv)
  next
    case (Some a)
    with some [OF Some] show ?thesis by auto
  qed
  show "str_find s p = Some i \<Longrightarrow> i \<in> set (occurrences s p) \<and> (\<forall>j \<in> set (occurrences s p). i \<le> j)"
    using some str_find_first [of s p i] by (auto simp: occurrences_def not_less [symmetric])
qed

lemma token_starts_shift: "token_starts sh f (i + k) ps = map (\<lambda>j. j + k) (token_starts sh f i ps)"
proof (induction ps arbitrary: i)
  case (Cons p ps)
  have "i + k + length (piece_text sh p) = i + length (piece_text sh p) + k" by simp
  then have "token_starts sh f (i + k + length (piece_text sh p)) ps
      = map (\<lambda>j. j + k) (token_starts sh f (i + length (piece_text sh p)) ps)"
    using Cons [of "i + length (piece_text sh p)"] by (simp only:)
  then show ?case by (simp only: token_starts.simps map_append) simp
qed simp

lemma token_starts_append [simp]:
  "token_starts sh f i (ps @ qs) = token_starts sh f i ps @ token_starts sh f (i + length (render sh ps)) qs"
  by (induction ps arbitrary: i) (auto simp: add.assoc)

lemma token_starts_none [simp]: "token_starts sh f i ps = [] \<longleftrightarrow> Inr f \<notin> set ps"
  by (induction ps arbitrary: i) auto

lemma token_starts_length: "length (token_starts sh f i ps) = count_list ps (Inr f)"
  by (induction ps arbitrary: i) auto

lemma token_starts_ge: "j \<in> set (token_starts sh f i ps) \<Longrightarrow> i \<le> j"
  by (induction ps arbitrary: i) (auto split: if_splits dest: order_trans [OF le_add1])

text \<open>A token in the text is an occurrence, if it is shown as itself.\<close>

lemma token_occurs:
  assumes "sh f = f" "f \<noteq> []"
  shows "length (render sh qs) \<in> set (occurrences (render sh (qs @ Inr f # rs)) f)"
  using assms by (simp add: occurrences_iff)

lemma first_token:
  assumes "j \<in> set (token_starts sh f 0 ps)"
  obtains qs rs where "ps = qs @ Inr f # rs" "Inr f \<notin> set qs" "length (render sh qs) \<le> j"
proof -
  have "Inr f \<in> set ps"
    using assms by (metis empty_iff list.set(1) token_starts_none)
  then obtain qs rs where ps: "ps = qs @ Inr f # rs" "Inr f \<notin> set qs"
    by (meson split_list_first)
  moreover have "length (render sh qs) \<le> j"
    using assms ps token_starts_ge [of j sh f "length (render sh qs)" "Inr f # rs"]
    by (simp add: token_starts_none [THEN iffD2] del: token_starts.simps token_starts_none)
  ultimately show thesis using that by blast
qed

section \<open>Replacing a fake\<close>

lemma render_other: "Inr f \<notin> set ps \<Longrightarrow> render (sh(f := r)) ps = render sh ps"
proof (induction ps)
  case (Cons p ps)
  then show ?case by (cases p) auto
qed simp

lemma lone_rest:
  assumes "lone_tokens sh f (qs @ Inr f # rs)" "Inr f \<notin> set qs" "sh f = f" "f \<noteq> []"
  shows "lone_tokens sh f rs"
  unfolding lone_tokens_def
proof
  let ?n = "length (render sh qs) + length f"
  fix j assume "j \<in> set (occurrences (render sh rs) f)"
  then have "?n + j \<in> set (occurrences (render sh (qs @ Inr f # rs)) f)"
    using assms(3,4) by (simp add: occurrences_iff)
  then have "?n + j \<in> set (token_starts sh f 0 (qs @ Inr f # rs))"
    using assms(1) unfolding lone_tokens_def by blast
  moreover have "token_starts sh f 0 qs = []" using assms(2) by simp
  ultimately have "?n + j \<in> set (token_starts sh f (0 + ?n) rs)"
    using assms(3,4) by auto
  then show "j \<in> set (token_starts sh f 0 rs)"
    unfolding token_starts_shift by auto
qed

lemma str_split_ne: "p \<noteq> [] \<Longrightarrow> str_split_on p s \<noteq> []"
  by (subst str_split_on.simps) (simp split: option.split)

lemma join_with_cons: "xs \<noteq> [] \<Longrightarrow> join_with r (x # xs) = x @ r @ join_with r xs"
  by (cases xs) simp_all

lemma split_lone:
  assumes "lone_tokens sh f ps" "sh f = f" "f \<noteq> []"
  shows "join_with r (str_split_on f (render sh ps)) = render (sh(f := r)) ps
    \<and> length (str_split_on f (render sh ps)) = Suc (count_list ps (Inr f))"
  using assms(1)
proof (induction ps rule: length_induct)
  case (1 ps)
  show ?case
  proof (cases "str_find (render sh ps) f")
    case None
    have "Inr f \<notin> set ps"
    proof
      assume "Inr f \<in> set ps"
      then obtain qs rs where "ps = qs @ Inr f # rs" by (meson split_list)
      then have "length (render sh qs) \<in> set (occurrences (render sh ps) f)"
        using token_occurs [of sh f qs rs] assms(2,3) by blast
      with None show False
        by (simp add: str_find_occurrences(1) [OF assms(3)])
    qed
    then show ?thesis
      using None assms(3) by (subst (1 2) str_split_on.simps) (simp add: render_other)
  next
    case (Some i)
    note first = str_find_occurrences(2) [OF assms(3) Some]
    then have "i \<in> set (token_starts sh f 0 ps)"
      using 1(2) unfolding lone_tokens_def by blast
    then obtain qs rs where ps: "ps = qs @ Inr f # rs" "Inr f \<notin> set qs" "length (render sh qs) \<le> i"
      by (rule first_token)
    then have i: "i = length (render sh qs)"
      using first token_occurs [of sh f qs rs] assms(2,3) ps(1,3) by force
    have shorter: "length rs < length ps" using ps(1) by simp
    have "lone_tokens sh f rs"
      using lone_rest [of sh f qs rs] assms(2,3) 1(2) ps(1,2) by simp
    then have ih: "join_with r (str_split_on f (render sh rs)) = render (sh(f := r)) rs"
        "length (str_split_on f (render sh rs)) = Suc (count_list rs (Inr f))"
      using 1(1) shorter by blast+
    have "str_split_on f (render sh ps) = render sh qs # str_split_on f (render sh rs)"
      using Some assms(2,3) ps(1) i by (subst str_split_on.simps) simp
    then show ?thesis
      using ih ps(1,2) str_split_ne [OF assms(3)] fun_upd_same [of sh f r]
      by (simp add: join_with_cons render_other del: fun_upd_apply)
  qed
qed

lemma str_replace_lone:
  assumes "lone_tokens sh f ps" "sh f = f" "f \<noteq> []"
  shows "str_replace (render sh ps) f r = render (sh(f := r)) ps"
    "str_matches_count (render sh ps) f = count_list ps (Inr f)"
  using split_lone [OF assms] by (simp_all add: str_replace_def str_matches_count_def)

lemma lone_contains:
  assumes "lone_tokens sh f ps" "sh f = f" "f \<noteq> []"
  shows "str_contains (render sh ps) f \<longleftrightarrow> Inr f \<in> set ps"
proof -
  have "Inr f \<in> set ps \<Longrightarrow> occurrences (render sh ps) f \<noteq> []"
    using token_occurs [of sh f] assms(2,3) by (metis empty_iff empty_set split_list)
  moreover have "occurrences (render sh ps) f \<noteq> [] \<Longrightarrow> Inr f \<in> set ps"
    using assms(1) unfolding lone_tokens_def by (metis empty_set set_empty subset_empty token_starts_none)
  ultimately show ?thesis
    by (auto simp: str_contains_def str_find_occurrences(1) [OF assms(3)])
qed

end
