(* ===== verification/Rescrub.thy ===== *)
theory Rescrub
  imports Engine Tokens
begin

text \<open>
  Scrubbing again: on which texts \<open>Engine::scrub\<close> (\<open>engine.rs\<close>) has nothing to do, and why its
  idempotence check decides nothing there.
\<close>

section \<open>Texts without matches\<close>

lemma no_matches_iff:
  assumes "crates_ok c" "engine_of c rvs e" "\<forall>rv \<in> set rvs. scrubbable rv"
  shows "engine_matches c rvs input = [] \<longleftrightarrow> (\<forall>rv \<in> set rvs. \<not> str_contains input (rv_value rv))"
proof
  assume none: "engine_matches c rvs input = []"
  have "\<forall>rv \<in> set rvs. rv_value rv \<noteq> []" using assms(3) by (simp add: scrubbable_def)
  with gaps_clean [OF engine_matches_leftmost [OF assms, of input], of input] none
  show "\<forall>rv \<in> set rvs. \<not> str_contains input (rv_value rv)" by auto
next
  assume clean: "\<forall>rv \<in> set rvs. \<not> str_contains input (rv_value rv)"
  show "engine_matches c rvs input = []"
  proof (rule ccontr)
    assume "engine_matches c rvs input \<noteq> []"
    then obtain a b v where m: "(a, b, v) \<in> set (engine_matches c rvs input)"
      by (metis list.set_intros(1) neq_Nil_conv prod_cases3)
    then have "v < length rvs" "occurs_at (as_bytes (rv_value (rvs ! v))) (as_bytes input) a"
      using engine_matches_leftmost [OF assms, of input] unfolding leftmost_longest_def by fastforce+
    then have v: "rvs ! v \<in> set rvs" "a + length (rv_value (rvs ! v)) \<le> length input"
        "take (length (rv_value (rvs ! v))) (drop a input) = rv_value (rvs ! v)"
      by (simp_all add: occurs_at_bytes)
    moreover have "rv_value (rvs ! v) \<noteq> []" using assms(3) v(1) by (simp add: scrubbable_def)
    ultimately show False
      using clean str_find_occurrences(1) [of "rv_value (rvs ! v)" input]
        occurrences_iff [of "rv_value (rvs ! v)" a input]
      by (auto simp: str_contains_def)
  qed
qed

section \<open>Property\<close>

text \<open>
  Property (C6). \<open>Engine::scrub\<close> reports nothing to do exactly on the texts that contain no registered value,
  and leaves such a text as it is; so a text whose scrubbed form contains no registered value is
  not changed by scrubbing again. The idempotence check never decides: every FF1 match that scrubbing
  meets equals its registered value, so \<open>classify\<close> answers \<open>Scrub\<close> on it.
\<close>

theorem scrub_fixed_iff:
  assumes "crates_ok c" "engine_new c kp rvs retired key = Some (Inr e)"
    and "\<forall>rv \<in> set rvs. scrubbable rv" "is_utf8 input"
  shows "\<exists>r. engine_scrub c e input = Some r
    \<and> (scrubbed_count r = 0 \<longleftrightarrow> (\<forall>rv \<in> set rvs. \<not> str_contains input (rv_value rv)))
    \<and> (scrubbed_count r = 0 \<longrightarrow> sc_output r = input \<and> notices r = [])
    \<and> (\<forall>(a, b, v) \<in> set (engine_matches c rvs input). \<forall>reg candidate.
         rvs ! v = Fpe reg \<and> str_slice input a b = Some candidate \<longrightarrow>
         classify c \<lparr>ic_registered = eng_fpe_registered e, ic_retired = eng_retired e,
           ic_fpe_tokenizer = eng_fpe e, ic_session_mac_key = eng_session_mac_key e\<rparr>
           candidate (fr_alphabet reg) = Some Scrub)"
proof -
  have e: "engine_of c rvs e" using engine_new_of assms(1,2) by (simp add: crates_ok_def)
  have "classify c \<lparr>ic_registered = eng_fpe_registered e, ic_retired = eng_retired e,
      ic_fpe_tokenizer = eng_fpe e, ic_session_mac_key = eng_session_mac_key e\<rparr>
      candidate (fr_alphabet reg) = Some Scrub"
    if "(a, b, v) \<in> set (engine_matches c rvs input)" "rvs ! v = Fpe reg" "str_slice input a b = Some candidate"
    for a b v reg candidate
  proof -
    have "v < length rvs" "candidate = fr_value reg"
      using engine_matches_good [OF assms(1) e assms(3,4)] that by (auto simp: good_matches_def rv_value_def)
    then have "Fpe reg \<in> set rvs" using that(2) nth_mem by metis
    then have "reg \<in> set (eng_fpe_registered e)" using e by (simp add: engine_of_def fpe_regs_set)
    with \<open>candidate = fr_value reg\<close> show ?thesis by (auto simp: classify_def list_ex_iff)
  qed
  then show ?thesis
    using engine_scrub_of [OF assms] no_matches_iff [OF assms(1) e assms(3), of input] by auto
qed

theorem scrub_fixed_iff_witness:
  "engine_scrub ref_crates sample_engine ''key sk-234567 end''
     = Some \<lparr>sc_output = ''key sk-234567 end'', scrubbed_count = 0, notices = []\<rparr>"
proof -
  have "\<not> str_contains ''key sk-234567 end'' ''sk-123456''" by code_simp
  moreover have "is_utf8 ''key sk-234567 end''" by simp
  ultimately obtain r where "engine_scrub ref_crates sample_engine ''key sk-234567 end'' = Some r"
      "scrubbed_count r = 0" "sc_output r = ''key sk-234567 end''" "notices r = []"
    using scrub_fixed_iff [OF ref_crates_ok sample_engine_new sample_scrubbable, of "''key sk-234567 end''"]
    by (auto simp: rv_value_def sample_reg_def)
  then show ?thesis by (cases r) simp
qed

end
