(* ===== verification/SessionRestoring.thy ===== *)
theory SessionRestoring
  imports Restoring Tokens
begin

text \<open>
  Restoring through a session: \<open>restore_with_session\<close> of what \<open>scrub_with_session\<close> wrote. The text after
  the scrub is seen in pieces: kept text and FF1 fakes, which the session pass must not touch, and
  the fakes of session-mapped values. The first half is about the pass over the session's fakes, the
  second about what the scrub stored in the session and about the whole round trip.
\<close>

section \<open>The pass over the fakes of a session\<close>

text \<open>The fakes of \<open>D\<close> are restored, the others still stand in the text.\<close>

definition reveal :: "(string \<Rightarrow> string) \<Rightarrow> string set \<Rightarrow> string \<Rightarrow> string" where
  "reveal val D f = (if f \<in> D then val f else f)"

lemma reveal_insert: "(reveal val D)(f := val f) = reveal val (insert f D)"
  by (auto simp: reveal_def)

lemma reveal_none: "reveal val {} = (\<lambda>f. f)"
  by (auto simp: reveal_def)

definition token_fakes :: "piece list \<Rightarrow> string list" where
  "token_fakes ps = remdups (concat (map (\<lambda>p. case p of Inl _ \<Rightarrow> [] | Inr f \<Rightarrow> [f]) ps))"

lemma token_fakes_set: "set (token_fakes ps) = {f. Inr f \<in> set ps}"
proof -
  have "f \<in> set (token_fakes ps) \<longleftrightarrow> Inr f \<in> set ps" for f
    by (induction ps) (auto simp: token_fakes_def split: sum.splits)
  then show ?thesis by blast
qed

text \<open>
  No confusion: of the known fakes only those that were put into the text occur in it, and whichever
  of these are already restored, each other one occurs only where it was put.
\<close>

definition separate :: "(string \<Rightarrow> string) \<Rightarrow> string list \<Rightarrow> piece list \<Rightarrow> bool" where
  "separate val known ps \<longleftrightarrow>
     list_all (\<lambda>f. str_contains (render (\<lambda>f. f) ps) f \<longrightarrow> f \<in> set (token_fakes ps)) known
     \<and> list_all (\<lambda>ds. list_all (\<lambda>f. f \<in> set ds \<or> lone_tokens (reveal val (set ds)) f ps) (token_fakes ps))
         (subseqs (token_fakes ps))"

lemma separateD:
  assumes "separate val known ps"
  shows "f \<in> set known \<Longrightarrow> str_contains (render (\<lambda>f. f) ps) f \<Longrightarrow> Inr f \<in> set ps"
    and "D \<subseteq> {f. Inr f \<in> set ps} \<Longrightarrow> Inr f \<in> set ps \<Longrightarrow> f \<notin> D \<Longrightarrow> lone_tokens (reveal val D) f ps"
proof -
  show "f \<in> set known \<Longrightarrow> str_contains (render (\<lambda>f. f) ps) f \<Longrightarrow> Inr f \<in> set ps"
    using assms by (auto simp: separate_def list_all_iff token_fakes_set)
  assume D: "D \<subseteq> {f. Inr f \<in> set ps}" "Inr f \<in> set ps" "f \<notin> D"
  then have "D \<in> set ` set (subseqs (token_fakes ps))"
    by (simp add: subseqs_powset token_fakes_set)
  then obtain ds where "ds \<in> set (subseqs (token_fakes ps))" "set ds = D" by blast
  with D assms show "lone_tokens (reveal val D) f ps"
    by (auto simp: separate_def list_all_iff token_fakes_set)
qed

lemma session_pass_tokens:
  assumes "distinct fakes" "set fakes \<inter> D = {}" "sm_weak m"
    and "\<forall>f \<in> set fakes. f \<noteq> [] \<and> live_real m now f = Some (val f)"
    and "\<forall>E f. D \<subseteq> E \<and> E \<subseteq> D \<union> set fakes \<and> f \<in> set fakes - E \<longrightarrow> lone_tokens (reveal val E) f ps"
  shows "\<exists>m'. session_pass fakes now (render (reveal val D) ps, n, m)
    = (render (reveal val (D \<union> set fakes)) ps, n + sum_list (map (\<lambda>f. count_list ps (Inr f)) fakes), m')"
  using assms
proof (induction fakes arbitrary: D n m)
  case (Cons f fakes)
  obtain m1 r where m1: "session_restore m f now = (m1, r)" by force
  have r: "r = Some (val f)"
    using session_restore_result [OF Cons.prems(3), of f now] m1 Cons.prems(4) by simp
  have w: "sm_weak m1" using session_restore_weak [OF Cons.prems(3), of f now] m1 by simp
  have live: "\<forall>g \<in> set fakes. g \<noteq> [] \<and> live_real m1 now g = Some (val g)"
    using session_restore_keeps [OF Cons.prems(3), of now _ _ f] m1 Cons.prems(4) by auto
  have f: "f \<noteq> []" "f \<notin> D" "reveal val D f = f"
    using Cons.prems(2,4) by (auto simp: reveal_def)
  have "lone_tokens (reveal val D) f ps"
    using Cons.prems(5) f(2) by (metis Diff_iff Un_upper1 list.set_intros(1) order_refl)
  note rep = str_replace_lone [OF this f(3,1)]
  have working: "(if str_matches_count (render (reveal val D) ps) f > 0
        then (str_replace (render (reveal val D) ps) f (val f),
          n + str_matches_count (render (reveal val D) ps) f, m1)
        else (render (reveal val D) ps, n, m1))
      = (render (reveal val (insert f D)) ps, n + count_list ps (Inr f), m1)"
    using rep render_other [of f ps "reveal val D" "val f"]
    by (auto simp: reveal_insert count_list_0_iff)
  have "\<exists>m'. session_pass fakes now (render (reveal val (insert f D)) ps, n + count_list ps (Inr f), m1)
      = (render (reveal val (insert f D \<union> set fakes)) ps,
         n + count_list ps (Inr f) + sum_list (map (\<lambda>f. count_list ps (Inr f)) fakes), m')"
  proof (rule Cons.IH [OF _ _ w live])
    show "\<forall>E g. insert f D \<subseteq> E \<and> E \<subseteq> insert f D \<union> set fakes \<and> g \<in> set fakes - E \<longrightarrow>
        lone_tokens (reveal val E) g ps"
      using Cons.prems(5) by auto
  qed (use Cons.prems(1,2) in auto)
  then show ?case
    using m1 r working by (simp add: Let_def add.assoc)
qed simp

lemma count_tokens:
  "distinct fs \<Longrightarrow> {f. Inr f \<in> set ps} \<subseteq> set fs \<Longrightarrow>
     sum_list (map (\<lambda>f. count_list ps (Inr f)) fs) = length (filter (\<lambda>p. \<not> isl p) ps)"
proof (induction ps)
  case (Cons p ps)
  then have "{f. Inr f \<in> set ps} \<subseteq> set fs" by auto
  with Cons have ih: "sum_list (map (\<lambda>f. count_list ps (Inr f)) fs) = length (filter (\<lambda>p. \<not> isl p) ps)"
    by blast
  show ?case
  proof (cases p)
    case (Inr g)
    have "sum_list (map (\<lambda>f. count_list (p # ps) (Inr f)) fs)
        = sum_list (map (\<lambda>f. if f = g then 1 else 0) fs) + sum_list (map (\<lambda>f. count_list ps (Inr f)) fs)"
      using Inr by (subst sum_list_addf [symmetric]) (auto intro!: arg_cong [where f = sum_list])
    also have "sum_list (map (\<lambda>f. if f = g then 1 else 0 :: nat) fs) = 1"
    proof -
      have "g \<in> set fs" using Cons.prems(2) Inr by auto
      with Cons.prems(1) show ?thesis
        by (simp add: sum_list_distinct_conv_sum_set)
    qed
    finally show ?thesis using ih Inr by simp
  qed (use ih in simp)
qed simp

text \<open>
  A pass that knows the value of every fake that was put into the text restores exactly these pieces,
  in whatever order the hash table gives its entries.
\<close>

lemma session_pass_restores:
  assumes "permutes_entries ord" "sm_weak m" "separate val (map fst (by_fake m)) ps"
    and "\<forall>f. Inr f \<in> set ps \<longrightarrow> f \<noteq> [] \<and> live_real m now f = Some (val f)"
  shows "\<exists>m'. session_pass (filter (str_contains (render (\<lambda>f. f) ps)) (map fst (entries ord m))) now
      (render (\<lambda>f. f) ps, 0, m) = (render val ps, length (filter (\<lambda>p. \<not> isl p) ps), m')"
proof -
  let ?fs = "filter (str_contains (render (\<lambda>f. f) ps)) (map fst (entries ord m))"
  have names: "map fst (entries ord m) = map fst (ord (by_fake m))"
    by (simp add: entries_def case_prod_beta)
  have "distinct (map fst (ord (by_fake m)))"
  proof -
    have "mset (map fst (ord (by_fake m))) = mset (map fst (by_fake m))"
      using assms(1) by (simp add: permutes_entries_def)
    moreover have "distinct (map fst (by_fake m))"
      using assms(2) by (simp add: sm_weak_def)
    ultimately show ?thesis by (rule mset_eq_imp_distinct_iff [THEN iffD2])
  qed
  then have d: "distinct ?fs" by (simp add: names)
  have keys: "set (map fst (entries ord m)) = set (map fst (by_fake m))"
    using permutes_entries_set [OF assms(1)] by (simp add: names)
  have fs: "set ?fs = {f. Inr f \<in> set ps}"
  proof (intro equalityI subsetI)
    fix f assume "f \<in> set ?fs"
    then show "f \<in> {f. Inr f \<in> set ps}"
      using separateD(1) [OF assms(3)] keys by auto
  next
    fix f assume "f \<in> {f. Inr f \<in> set ps}"
    then have f: "Inr f \<in> set ps" "f \<noteq> []" "live_real m now f = Some (val f)" using assms(4) by auto
    then have "f \<in> set (map fst (by_fake m))"
      by (force simp: live_real_def split: option.splits dest!: map_of_SomeD)
    moreover have "lone_tokens (\<lambda>f. f) f ps"
      using separateD(2) [OF assms(3), of "{}" f] f(1) by (simp add: reveal_none)
    then have "str_contains (render (\<lambda>f. f) ps) f"
      using lone_contains [of "\<lambda>f. f" f ps] f(1,2) by simp
    ultimately show "f \<in> set ?fs" using keys by auto
  qed
  have "\<exists>m'. session_pass ?fs now (render (reveal val {}) ps, 0, m)
    = (render (reveal val ({} \<union> set ?fs)) ps, 0 + sum_list (map (\<lambda>f. count_list ps (Inr f)) ?fs), m')"
  proof (rule session_pass_tokens [OF d _ assms(2)])
    show "\<forall>f \<in> set ?fs. f \<noteq> [] \<and> live_real m now f = Some (val f)"
      unfolding fs using assms(4) by blast
    show "\<forall>E f. {} \<subseteq> E \<and> E \<subseteq> {} \<union> set ?fs \<and> f \<in> set ?fs - E \<longrightarrow> lone_tokens (reveal val E) f ps"
      unfolding fs using separateD(2) [OF assms(3)] by auto
  qed simp
  moreover have "render (reveal val (set ?fs)) ps = render val ps"
    unfolding fs unfolding render_def
    by (intro arg_cong [where f = concat] map_cong) (auto simp: piece_text_def reveal_def split: sum.split)
  ultimately show ?thesis
    using count_tokens [OF d equalityD2 [OF fs]] by (simp add: reveal_none)
qed

section \<open>What a scrub stores in the session\<close>

definition is_fpe :: "RegisteredValue \<Rightarrow> bool" where
  "is_fpe rv = (case rv of Fpe _ \<Rightarrow> True | SessionMapped _ \<Rightarrow> False)"

lemma is_fpe_simps [simp]: "is_fpe (Fpe r)" "\<not> is_fpe (SessionMapped s)"
  by (simp_all add: is_fpe_def)

lemma is_fpe_iff: "is_fpe rv \<longleftrightarrow> (\<exists>r. rv = Fpe r)"
  by (cases rv) simp_all

text \<open>What stands in the scrubbed text for the match of registered value \<open>v\<close>.\<close>

definition fake_for :: "crates \<Rightarrow> Engine \<Rightarrow> RegisteredValue list \<Rightarrow> nat \<Rightarrow> string" where
  "fake_for c e rvs v = fst (replacement c e False (rvs ! v))"

text \<open>The fakes that a scrub hands to the session, with their values, in order.\<close>

definition session_pairs ::
  "crates \<Rightarrow> Engine \<Rightarrow> RegisteredValue list \<Rightarrow> (nat \<times> nat \<times> nat) list \<Rightarrow> (string \<times> string) list" where
  "session_pairs c e rvs ms =
     map (\<lambda>(a, b, v). (fake_for c e rvs v, rv_value (rvs ! v))) (filter (\<lambda>(a, b, v). \<not> is_fpe (rvs ! v)) ms)"

text \<open>The session takes these pairs as they are: there is room, and fakes and values correspond one to one.\<close>

definition recordable :: "SessionMap \<Rightarrow> (string \<times> string) list \<Rightarrow> bool" where
  "recordable m ps \<longleftrightarrow> length (by_fake m) + length ps \<le> max_entries m
     \<and> (\<forall>(f, r) \<in> set ps. \<forall>(f', r') \<in> set ps \<union> set (entries (\<lambda>es. es) m). f = f' \<longleftrightarrow> r = r')"

lemma recordableD:
  "recordable m ps \<Longrightarrow> (f, r) \<in> set ps \<Longrightarrow> (f', r') \<in> set ps \<union> set (entries (\<lambda>es. es) m) \<Longrightarrow> f = f' \<longleftrightarrow> r = r'"
  unfolding recordable_def by fast

lemma entries_real_at: "sm_weak m \<Longrightarrow> (f, r) \<in> set (entries (\<lambda>es. es) m) \<longleftrightarrow> real_at m f = Some r"
  by (force simp: entries_def real_at_def sm_weak_def map_of_eq_Some_iff)

lemma prune_at:
  assumes "sm_weak m" "map_of (by_fake (prune m now)) f = Some e"
  shows "map_of (by_fake m) f = Some e"
  using assms by (simp add: prune_entries sm_weak_def split: option.splits if_splits)

lemma get_or_insert_records:
  assumes "sm_inv m" "length (by_fake m) < max_entries m" "\<forall>f'. real_at m f' = Some r \<longrightarrow> f' = f"
  shows "map_of (by_fake (fst (get_or_insert ord m r now (\<lambda>_. f)))) =
    (map_of (by_fake (prune m now)))(f \<mapsto> \<lparr>real_of = r, last_touched = now\<rparr>)"
proof (cases "fake_at (prune m now) r")
  case None
  have "length (by_fake (prune m now)) < max_entries (prune m now)"
    using assms(2) prune_length [of m now] by simp
  with None show ?thesis
    by (simp add: get_or_insert_def fake_at_def Let_def insert_pair_def update_conv')
next
  case (Some g)
  have "real_at (prune m now) g = Some r"
    using sm_invD [OF sm_inv_prune [OF assms(1)]] Some by blast
  then obtain e where e: "map_of (by_fake (prune m now)) g = Some e" "real_of e = r"
    by (auto simp: real_at_def)
  then have "real_at m g = Some r"
    using prune_at [OF sm_inv_weak [OF assms(1)]] by (simp add: real_at_def)
  then have "g = f" using assms(3) by blast
  moreover have "e\<lparr>last_touched := now\<rparr> = \<lparr>real_of = r, last_touched = now\<rparr>" using e(2) by (cases e) simp
  ultimately show ?thesis
    using Some e(1) by (simp add: get_or_insert_hit touch_def update_conv')
qed

lemma length_keys: "distinct (map fst xs) \<Longrightarrow> length xs = card (dom (map_of xs))"
  by (metis distinct_card dom_map_of_conv_image_fst length_map list.set_map)

lemma recordable_step:
  fixes ord :: order and now :: instant
  assumes "sm_inv m" "recordable m ((f, r) # ps)"
  defines "m' \<equiv> fst (get_or_insert ord m r now (\<lambda>_. f))"
  shows "map_of (by_fake m') = (map_of (by_fake (prune m now)))(f \<mapsto> \<lparr>real_of = r, last_touched = now\<rparr>)"
    "sm_inv m'" "recordable m' ps" "ttl m' = ttl m"
proof -
  have w: "sm_weak m" using assms(1) by (rule sm_inv_weak)
  have room: "length (by_fake m) < max_entries m" using assms(2) by (simp add: recordable_def)
  have "\<forall>f'. real_at m f' = Some r \<longrightarrow> f' = f"
    using assms(2) entries_real_at [OF w] by (fastforce simp: recordable_def)
  from get_or_insert_records [OF assms(1) room this]
  show at: "map_of (by_fake m') = (map_of (by_fake (prune m now)))(f \<mapsto> \<lparr>real_of = r, last_touched = now\<rparr>)"
    unfolding m'_def .
  show inv: "sm_inv m'" unfolding m'_def using assms(1) by (rule get_or_insert_inv)
  show "ttl m' = ttl m" by (simp add: m'_def)
  have old: "(g, s) = (f, r) \<or> (g, s) \<in> set (entries (\<lambda>es. es) m)" if "(g, s) \<in> set (entries (\<lambda>es. es) m')" for g s
    using that prune_at [OF w, of now g]
    by (auto simp: entries_real_at [OF w] entries_real_at [OF sm_inv_weak [OF inv]] real_at_def at split: if_splits)
  have "length (by_fake m') \<le> Suc (length (by_fake m))"
  proof -
    have d: "distinct (map fst (by_fake m))" "distinct (map fst (by_fake m'))"
      using w sm_inv_weak [OF inv] by (simp_all add: sm_weak_def)
    have "dom (map_of (by_fake m')) \<subseteq> insert f (dom (map_of (by_fake m)))"
      using prune_at [OF w, of now] at by (auto split: if_splits)
    from card_mono [OF _ this] show ?thesis
      by (simp add: length_keys [OF d(1)] length_keys [OF d(2)] card_insert_if finite_dom_map_of split: if_splits)
  qed
  moreover have "g = g' \<longleftrightarrow> s = s'"
    if "(g, s) \<in> set ps" "(g', s') \<in> set ps \<union> set (entries (\<lambda>es. es) m')" for g s g' s'
    using recordableD [OF assms(2), of g s g' s'] old that by auto
  moreover have "max_entries m' = max_entries m" by (simp add: m'_def)
  ultimately show "recordable m' ps"
    using assms(2) by (simp add: recordable_def [of m' ps] recordable_def [of m "(f, r) # ps"]) blast
qed

text \<open>A generator made a fake for every session-mapped match, so no placeholder stands for one.\<close>

definition all_faked :: "crates \<Rightarrow> Engine \<Rightarrow> RegisteredValue list \<Rightarrow> (nat \<times> nat \<times> nat) list \<Rightarrow> bool" where
  "all_faked c e rvs ms \<longleftrightarrow>
     (\<forall>(a, b, v) \<in> set ms. case rvs ! v of
        Fpe _ \<Rightarrow> True
      | SessionMapped s \<Rightarrow> session_fake c (eng_session_mac_key e) s = Some (Some (fake_for c e rvs v)))"

lemma session_pairs_simps [simp]:
  "session_pairs c e rvs [] = []"
  "session_pairs c e rvs ((a, b, v) # ms) =
     (if is_fpe (rvs ! v) then [] else [(fake_for c e rvs v, rv_value (rvs ! v))]) @ session_pairs c e rvs ms"
  by (simp_all add: session_pairs_def)

lemma all_faked_Cons [simp]:
  "all_faked c e rvs ((a, b, v) # ms) \<longleftrightarrow> all_faked c e rvs ms \<and>
     (case rvs ! v of Fpe _ \<Rightarrow> True
      | SessionMapped s \<Rightarrow> session_fake c (eng_session_mac_key e) s = Some (Some (fake_for c e rvs v)))"
  by (auto simp: all_faked_def)

lemma session_records:
  assumes "sm_inv m" "all_faked c e rvs ms" "recordable m (session_pairs c e rvs ms)"
  shows "\<exists>m'. fold (\<lambda>(a, b, v). store_after c ord e (rvs ! v)) ms (MapStore m now) = MapStore m' now
    \<and> sm_inv m' \<and> ttl m' = ttl m
    \<and> (\<forall>(f, r) \<in> set (session_pairs c e rvs ms). map_of (by_fake m') f = Some \<lparr>real_of = r, last_touched = now\<rparr>)
    \<and> (\<forall>f r. map_of (by_fake m) f = Some \<lparr>real_of = r, last_touched = now\<rparr>
        \<longrightarrow> map_of (by_fake m') f = Some \<lparr>real_of = r, last_touched = now\<rparr>)"
  using assms
proof (induction ms arbitrary: m)
  case (Cons p ms)
  obtain a b v where p: "p = (a, b, v)" by (cases p)
  show ?case
  proof (cases "rvs ! v")
    case (Fpe r)
    with Cons.IH [OF Cons.prems(1)] Cons.prems(2,3) p show ?thesis
      by (simp add: store_after_def)
  next
    case (SessionMapped s)
    let ?f = "fake_for c e rvs v" and ?r = "rv_value (rvs ! v)"
    define m1 where "m1 = fst (get_or_insert ord m ?r now (\<lambda>_. ?f))"
    have rec: "recordable m ((?f, ?r) # session_pairs c e rvs ms)"
      using Cons.prems(3) p SessionMapped by simp
    note step = recordable_step [OF Cons.prems(1) rec, of ord now, folded m1_def]
    have store: "store_after c ord e (rvs ! v) (MapStore m now) = MapStore m1 now"
      using Cons.prems(2) p SessionMapped by (simp add: store_after_def store_pair_map m1_def rv_value_def)
    have "all_faked c e rvs ms" using Cons.prems(2) p by simp
    from Cons.IH [OF step(2) this step(3)] obtain m' where m':
        "fold (\<lambda>(a, b, v). store_after c ord e (rvs ! v)) ms (MapStore m1 now) = MapStore m' now"
        "sm_inv m'" "ttl m' = ttl m"
        "\<forall>(f, r) \<in> set (session_pairs c e rvs ms). map_of (by_fake m') f = Some \<lparr>real_of = r, last_touched = now\<rparr>"
        "\<forall>f r. map_of (by_fake m1) f = Some \<lparr>real_of = r, last_touched = now\<rparr>
          \<longrightarrow> map_of (by_fake m') f = Some \<lparr>real_of = r, last_touched = now\<rparr>"
      using step(4) by auto
    have kept: "map_of (by_fake m') f = Some \<lparr>real_of = r, last_touched = now\<rparr>"
      if "map_of (by_fake m) f = Some \<lparr>real_of = r, last_touched = now\<rparr>" for f r
    proof -
      have w: "sm_weak m" using Cons.prems(1) by (rule sm_inv_weak)
      then have "(f, r) \<in> set (entries (\<lambda>es. es) m)"
        using that by (simp add: entries_real_at real_at_def)
      then have "f = ?f \<longleftrightarrow> r = ?r" using recordableD [OF rec, of ?f ?r f r] by auto
      moreover have "map_of (by_fake (prune m now)) f = Some \<lparr>real_of = r, last_touched = now\<rparr>"
        using w that by (simp add: prune_entries sm_weak_def expired_def)
      ultimately have "map_of (by_fake m1) f = Some \<lparr>real_of = r, last_touched = now\<rparr>"
        by (simp add: step(1))
      with m'(5) show ?thesis by blast
    qed
    have "map_of (by_fake m') ?f = Some \<lparr>real_of = ?r, last_touched = now\<rparr>"
      using m'(5) step(1) by simp
    with m' kept store p SessionMapped show ?thesis by simp
  qed
qed simp

section \<open>The scrubbed text in pieces\<close>

fun pieces ::
  "crates \<Rightarrow> Engine \<Rightarrow> RegisteredValue list \<Rightarrow> string \<Rightarrow> nat \<Rightarrow> (nat \<times> nat \<times> nat) list \<Rightarrow> piece list" where
  "pieces c e rvs s i [] = [Inl (drop i s)]"
| "pieces c e rvs s i ((a, b, v) # ms) =
     Inl (take (a - i) (drop i s))
     # (if is_fpe (rvs ! v) then Inl (fake_for c e rvs v) else Inr (fake_for c e rvs v))
     # pieces c e rvs s b ms"

definition fpe_matches :: "RegisteredValue list \<Rightarrow> (nat \<times> nat \<times> nat) list \<Rightarrow> (nat \<times> nat \<times> nat) list" where
  "fpe_matches rvs ms = filter (\<lambda>(a, b, v). is_fpe (rvs ! v)) ms"

lemma pieces_scrubbed: "render (\<lambda>f. f) (pieces c e rvs s i ms) = splice_matches s i ms (fake_for c e rvs)"
  by (induction c e rvs s i ms rule: pieces.induct) simp_all

lemma splice_skip:
  "matches_from b ms \<Longrightarrow> i \<le> b \<Longrightarrow>
     take (b - i) (drop i s) @ splice_matches s b ms rep = splice_matches s i ms rep"
proof (cases ms)
  case Nil
  assume "i \<le> b"
  with Nil show ?thesis using append_take_drop_id [of "b - i" "drop i s"] by simp
next
  case (Cons m ms')
  obtain a b' v where m: "m = (a, b', v)" by (cases m)
  assume "matches_from b ms" "i \<le> b"
  then have "b \<le> a" "i \<le> b" using Cons m by simp_all
  then have "take (a - i) (drop i s) = take (b - i) (drop i s) @ take (a - b) (drop b s)"
    using take_add [of "b - i" "a - b" "drop i s"] by simp
  with Cons m show ?thesis by simp
qed

lemma matches_from_filter: "matches_from i ms \<Longrightarrow> matches_from i (filter P ms)"
proof (induction ms arbitrary: i)
  case (Cons m ms)
  obtain a b v where m: "m = (a, b, v)" by (cases m)
  have later: "matches_from i (filter P ms)"
    if "matches_from b (filter P ms)" "i \<le> b" using that by (cases "filter P ms") auto
  from Cons m later show ?case by auto
qed simp

lemma pieces_restored:
  assumes "matches_from i ms" "\<forall>(a, b, v) \<in> set ms. take (b - a) (drop a s) = rv_value (rvs ! v)"
    and "\<forall>(f, r) \<in> set (session_pairs c e rvs ms). val f = r"
  shows "render val (pieces c e rvs s i ms) = splice_matches s i (fpe_matches rvs ms) (fake_for c e rvs)"
  using assms
proof (induction ms arbitrary: i)
  case (Cons m ms)
  obtain a b v where m: "m = (a, b, v)" by (cases m)
  then have f: "i \<le> a" "a < b" "matches_from b ms" "take (b - a) (drop a s) = rv_value (rvs ! v)"
    using Cons.prems(1,2) by auto
  have ih: "render val (pieces c e rvs s b ms) = splice_matches s b (fpe_matches rvs ms) (fake_for c e rvs)"
    using Cons.IH [OF f(3)] Cons.prems(2,3) m by auto
  show ?case
  proof (cases "is_fpe (rvs ! v)")
    case True
    with ih m show ?thesis by (simp add: fpe_matches_def)
  next
    case False
    have "take (a - i) (drop i s) @ rv_value (rvs ! v) = take (b - i) (drop i s)"
      using f(1,2,4) take_add [of "a - i" "b - a" "drop i s"] by simp
    then have "take (a - i) (drop i s) @ rv_value (rvs ! v) @ splice_matches s b (fpe_matches rvs ms) (fake_for c e rvs)
        = splice_matches s i (fpe_matches rvs ms) (fake_for c e rvs)"
      using splice_skip [of b "fpe_matches rvs ms" i s "fake_for c e rvs"] f(1-3)
      by (simp add: fpe_matches_def matches_from_filter) (metis append.assoc)
    with ih m False Cons.prems(3) show ?thesis by (simp add: fpe_matches_def)
  qed
qed (simp add: fpe_matches_def)

lemma pieces_tokens:
  "Inr f \<in> set (pieces c e rvs s i ms) \<longleftrightarrow> (\<exists>r. (f, r) \<in> set (session_pairs c e rvs ms))"
  "length (filter (\<lambda>p. \<not> isl p) (pieces c e rvs s i ms)) + length (fpe_matches rvs ms) = length ms"
  by (induction c e rvs s i ms rule: pieces.induct) (auto simp: fpe_matches_def)

lemma reserved_nonempty: "is_in_reserved_range f \<Longrightarrow> f \<noteq> []"
  by (auto simp: is_in_reserved_range_def is_email_example_domain_def is_ipv4_rfc5737_def is_phone_555_01_def
      is_card_test_bin_4242_def ends_with_def starts_with_def Let_def str_chars_def)

lemma session_fake_nonempty:
  assumes "crates_ok c" "scrubbable (SessionMapped s)" "session_fake c key s = Some (Some f)"
  shows "f \<noteq> []"
proof (cases "sr_kind s")
  case Card
  have "is_utf8 (sr_value s)" using assms(2) by (simp add: scrubbable_def rv_value_def)
  with Card assms(1,3) have "is_in_reserved_range f"
    by (intro fake_card_reserved) (simp_all add: session_fake_def crates_ok_def)
  then show ?thesis by (rule reserved_nonempty)
next
  case (Pii k)
  then have "is_in_reserved_range f"
    using assms(3) by (cases k) (auto simp: session_fake_def fake_email_reserved fake_ipv4_reserved fake_phone_reserved)
  then show ?thesis by (rule reserved_nonempty)
next
  case Formatless
  then have mac: "make_macfake c key (sr_value s) BASE62 = Some (Some f)"
    using assms(3) by (simp add: session_fake_def)
  then have n: "mac_tail_len BASE62 < length (sr_value s)"
    using make_macfake_short [of "sr_value s" BASE62 c key] by (cases "length (sr_value s) \<le> mac_tail_len BASE62") auto
  have "hkdf_contract c" "length (sr_value s) \<le> mac_tail_len BASE62 + hkdf_max_len"
    using Formatless assms(1,2) by (simp_all add: crates_ok_def scrubbable_def BASE62_tail)
  then obtain g where "make_macfake c key (sr_value s) BASE62 = Some (Some g)" "length g = length (sr_value s)"
    using make_macfake_ok [OF named_constants_wf(1) _ n] by metis
  with mac n show ?thesis by auto
qed

section \<open>Round trip\<close>

text \<open>
  The texts that come back through a session: what \<open>engine_round_trip\<close> asks of the FF1 matches, a fake
  for every other match, a session map \<open>m\<close> with room in which fakes and values correspond one to one,
  and a scrubbed text in which no fake of the map \<open>m'\<close> after the scrub occurs by accident.
\<close>

definition real_text :: "SessionMap \<Rightarrow> string \<Rightarrow> string" where
  "real_text m f = (case real_at m f of None \<Rightarrow> f | Some r \<Rightarrow> r)"

definition session_restorable ::
  "crates \<Rightarrow> Engine \<Rightarrow> RegisteredValue list \<Rightarrow> string \<Rightarrow> SessionMap \<Rightarrow> SessionMap \<Rightarrow> bool" where
  "session_restorable c e rvs input m m' \<longleftrightarrow>
     (\<forall>rv \<in> set rvs. scrubbable rv) \<and> (\<forall>r. Fpe r \<in> set rvs \<longrightarrow> eligible r) \<and> is_ascii input
     \<and> (\<forall>r r' f. Fpe r \<in> set rvs \<and> Fpe r' \<in> set rvs \<and> fpe_scrub c (eng_fpe e) r = Some (Inr f)
          \<and> fpe_scrub c (eng_fpe e) r' = Some (Inr f) \<longrightarrow> fr_value r = fr_value r')
     \<and> sm_inv m
     \<and> all_faked c e rvs (engine_matches c rvs input)
     \<and> recordable m (session_pairs c e rvs (engine_matches c rvs input))
     \<and> separate (real_text m') (map fst (by_fake m')) (pieces c e rvs input 0 (engine_matches c rvs input))
     \<and> only_fakes (splice_matches input 0 (fpe_matches rvs (engine_matches c rvs input)) (fake_for c e rvs))
         (fpe_regs rvs) (fpe_matches rvs (engine_matches c rvs input))"

lemma real_at_keys: "f \<in> set (map fst (by_fake m)) \<longleftrightarrow> real_at m f \<noteq> None"
  by (simp add: real_at_def map_of_eq_None_iff)

text \<open>What the scrub leaves in the session: every fake of the text stands for its value.\<close>

lemma scrub_with_session_records:
  assumes "crates_ok c" "engine_of c rvs e" "session_restorable c e rvs input m m'"
    and "scrub_with_session c ord e input m now = Some (res, m')"
  shows "sc_output res = render (\<lambda>f. f) (pieces c e rvs input 0 (engine_matches c rvs input))"
    "sm_inv m'" "ttl m' = ttl m"
    "\<forall>(f, r) \<in> set (session_pairs c e rvs (engine_matches c rvs input)).
       map_of (by_fake m') f = Some \<lparr>real_of = r, last_touched = now\<rparr>"
proof -
  let ?ms = "engine_matches c rvs input"
  have r: "\<forall>rv \<in> set rvs. scrubbable rv" "is_utf8 input" "sm_inv m" "all_faked c e rvs ?ms"
      "recordable m (session_pairs c e rvs ?ms)"
    using assms(3) ascii_is_utf8 by (auto simp: session_restorable_def)
  obtain m1 where m1: "fold (\<lambda>(a, b, v). store_after c ord e (rvs ! v)) ?ms (MapStore m now) = MapStore m1 now"
      "sm_inv m1" "ttl m1 = ttl m"
      "\<forall>(f, r) \<in> set (session_pairs c e rvs ?ms). map_of (by_fake m1) f = Some \<lparr>real_of = r, last_touched = now\<rparr>"
    using session_records [OF r(3-5), of ord now] by blast
  have "(\<lambda>v. fst (replacement c e True (rvs ! v))) = fake_for c e rvs"
    by (rule ext) (simp add: fake_for_def replacement_text [of c e True _ False])
  then have "m' = m1" "sc_output res = splice_matches input 0 ?ms (fake_for c e rvs)"
    using assms(4) m1(1) scrub_impl_spec [OF assms(1,2) r(1,2), of ord "MapStore m now"]
    by (auto simp: scrub_with_session_def)
  with m1 show "sc_output res = render (\<lambda>f. f) (pieces c e rvs input 0 ?ms)" "sm_inv m'" "ttl m' = ttl m"
    "\<forall>(f, r) \<in> set (session_pairs c e rvs ?ms). map_of (by_fake m') f = Some \<lparr>real_of = r, last_touched = now\<rparr>"
    by (simp_all add: pieces_scrubbed)
qed

text \<open>
  Any session that agrees with the one after the scrub, and in which the fakes of the text are live,
  gives the text back: the same process's, or one loaded from the session file.
\<close>

lemma restore_with_session_of:
  assumes "crates_ok c" "engine_of c rvs e" "session_restorable c e rvs input m m'"
    and "sm_weak m''" "real_at m'' = real_at m'" "sm_weak m'" "permutes_entries ord"
    and "\<forall>(f, r) \<in> set (session_pairs c e rvs (engine_matches c rvs input)). live_real m'' now f = Some r"
  shows "\<exists>m3. restore_with_session c ord e
      (render (\<lambda>f. f) (pieces c e rvs input 0 (engine_matches c rvs input))) m'' now
    = Some (\<lparr>rs_output = input, restored_count = length (engine_matches c rvs input)\<rparr>, m3)"
proof -
  let ?ms = "engine_matches c rvs input" and ?ps = "pieces c e rvs input 0 (engine_matches c rvs input)"
  note r = assms(3) [unfolded session_restorable_def]
  have good: "good_matches input rvs 0 ?ms"
    using engine_matches_good [OF assms(1,2)] r by simp
  then have mf: "matches_from 0 ?ms" by (simp add: good_matches_def)
  have vals: "\<forall>(f, r) \<in> set (session_pairs c e rvs ?ms). real_text m' f = r"
  proof -
    have "real_at m' f = Some r" if "(f, r) \<in> set (session_pairs c e rvs ?ms)" for f r
      using assms(8) that by (auto simp: assms(5) [symmetric] live_real_def real_at_def split: option.splits if_splits)
    then show ?thesis by (auto simp: real_text_def)
  qed
  have keys: "set (map fst (by_fake m'')) = set (map fst (by_fake m'))"
    unfolding set_eq_iff real_at_keys assms(5) by simp
  then have sep: "separate (real_text m') (map fst (by_fake m'')) ?ps"
    using r by (simp add: separate_def list_all_iff)
  have fakes: "\<forall>f. Inr f \<in> set ?ps \<longrightarrow> f \<noteq> [] \<and> live_real m'' now f = Some (real_text m' f)"
  proof (intro allI impI conjI)
    fix f assume "Inr f \<in> set ?ps"
    then obtain s where s: "(f, s) \<in> set (session_pairs c e rvs ?ms)" by (auto simp: pieces_tokens)
    with assms(8) vals show "live_real m'' now f = Some (real_text m' f)" by auto
    obtain a b v where v: "(a, b, v) \<in> set ?ms" "\<not> is_fpe (rvs ! v)" "f = fake_for c e rvs v"
      using s by (auto simp: session_pairs_def)
    then obtain q where q: "rvs ! v = SessionMapped q" by (cases "rvs ! v") auto
    have "v < length rvs" using good v(1) by (auto simp: good_matches_def)
    then have "scrubbable (SessionMapped q)" using r q by (metis nth_mem)
    moreover have "session_fake c (eng_session_mac_key e) q = Some (Some f)"
      using r v(1,3) q by (auto simp: all_faked_def)
    ultimately show "f \<noteq> []" by (rule session_fake_nonempty [OF assms(1)])
  qed
  obtain m3 where pass: "session_pass (filter (str_contains (render (\<lambda>f. f) ?ps)) (map fst (entries ord m''))) now
      (render (\<lambda>f. f) ?ps, 0, m'') = (render (real_text m') ?ps, length (filter (\<lambda>p. \<not> isl p) ?ps), m3)"
    using session_pass_restores [OF assms(7,4) sep fakes] by blast
  have at: "\<forall>(a, b, v) \<in> set ?ms. take (b - a) (drop a input) = rv_value (rvs ! v)"
    using good str_slice_SomeD by (fastforce simp: good_matches_def)
  have text': "render (real_text m') ?ps = splice_matches input 0 (fpe_matches rvs ?ms) (fake_for c e rvs)"
    by (rule pieces_restored [OF mf at vals])
  have "engine_restore c e (splice_matches input 0 (fpe_matches rvs ?ms) (\<lambda>v. fst (replacement c e False (rvs ! v))))
      = Some \<lparr>rs_output = input, restored_count = length (fpe_matches rvs ?ms)\<rparr>"
  proof (rule engine_restores_spliced [OF assms(1,2)])
    show "\<forall>(a, b, v) \<in> set (fpe_matches rvs ?ms). \<exists>r. rvs ! v = Fpe r"
      by (auto simp: fpe_matches_def is_fpe_iff)
    show "good_matches input rvs 0 (fpe_matches rvs ?ms)"
      using good by (auto simp: good_matches_def fpe_matches_def matches_from_filter)
    show "only_fakes (splice_matches input 0 (fpe_matches rvs ?ms) (\<lambda>v. fst (replacement c e False (rvs ! v))))
        (fpe_regs rvs) (fpe_matches rvs ?ms)"
      using r by (simp add: fake_for_def [abs_def])
  qed (use r in blast)+
  then have "engine_restore c e (render (real_text m') ?ps)
      = Some \<lparr>rs_output = input, restored_count = length (fpe_matches rvs ?ms)\<rparr>"
    by (simp add: text' fake_for_def [abs_def])
  with pass pieces_tokens(2) [of c e rvs input 0 ?ms] show ?thesis
    by (simp add: restore_with_session_def)
qed

section \<open>A sample with both kinds of matches\<close>

definition mail_reg :: SessionRegistration where
  "mail_reg = \<lparr>sr_label = ''mail'', sr_value = ''me@x.org'', sr_kind = Pii Email\<rparr>"

definition mixed_values :: "RegisteredValue list" where
  "mixed_values = [Fpe sample_reg, SessionMapped mail_reg]"

definition mixed_engine :: Engine where
  "mixed_engine = sample_engine\<lparr>eng_session_registered := [mail_reg],
     eng_exact_matcher := \<lparr>automaton = Some [as_bytes ''sk-123456'', as_bytes ''me@x.org'']\<rparr>,
     eng_session_mac_key := replicate 32 1, eng_value_id_to_ref := [RefFpe 0, RefSession 0]\<rparr>"

definition mixed_input :: string where
  "mixed_input = ''me@x.org uses sk-123456''"

lemma mixed_new:
  "engine_new ref_crates \<lparr>provider_key = replicate 32 1\<rparr> mixed_values [] (replicate 32 1) = Some (Inr mixed_engine)"
  by (simp add: engine_new_def exact_build_def fpe_new_def vault_key_def FF1_KEY_LEN_def ref_crates_def
      hkdf_max_len_def sample_engine_def sample_tokenizer_def mixed_engine_def mixed_values_def mail_reg_def sample_reg_def)
lemma mixed_matches: "engine_matches ref_crates mixed_values mixed_input = [(0, 8, 1), (14, 23, 0)]"
  by code_simp
lemma mixed_fake: "fake_email ref_crates (as_bytes ''me@x.org'') = ''fxmquhkzaa@example.com''"
  by code_simp
lemma mixed_scrubbable: "\<forall>rv \<in> set mixed_values. scrubbable rv"
  using sample_scrubbable by (simp add: mixed_values_def scrubbable_def rv_value_def mail_reg_def)

definition mail_fake :: string where
  "mail_fake = ''fxmquhkzaa@example.com''"

definition mixed_session :: "nat \<Rightarrow> duration \<Rightarrow> instant \<Rightarrow> SessionMap" where
  "mixed_session n t now = \<lparr>max_entries = n, ttl = t,
     by_fake = [(mail_fake, \<lparr>real_of = ''me@x.org'', last_touched = now\<rparr>)], by_real = [(''me@x.org'', mail_fake)]\<rparr>"

lemma mixed_session_fake: "session_fake ref_crates k mail_reg = Some (Some mail_fake)"
  using mixed_fake by (simp add: session_fake_def mail_reg_def mail_fake_def)

lemma mixed_known: "map fst (by_fake (mixed_session n t now)) = [mail_fake]"
  by (simp add: mixed_session_def)

lemma mixed_nth:
  "mixed_values ! 0 = Fpe sample_reg" "mixed_values ! Suc 0 = SessionMapped mail_reg"
  by (simp_all add: mixed_values_def)

lemma mixed_fakes:
  "fake_for ref_crates mixed_engine mixed_values 0 = ''sk-234567''"
  "fake_for ref_crates mixed_engine mixed_values 1 = mail_fake"
  "fake_for ref_crates mixed_engine mixed_values (Suc 0) = mail_fake"
  using sample_scrub mixed_session_fake
  by (simp_all add: fake_for_def replacement_def mixed_values_def mixed_engine_def sample_engine_def)

lemma mixed_pieces:
  "pieces ref_crates mixed_engine mixed_values mixed_input 0 [(0, 8, 1), (14, 23, 0)]
     = [Inl [], Inr mail_fake, Inl '' uses '', Inl ''sk-234567'', Inl []]"
  by (simp add: mixed_fakes) (simp add: mixed_values_def mixed_input_def)

lemma mixed_pairs:
  "session_pairs ref_crates mixed_engine mixed_values [(0, 8, 1), (14, 23, 0)] = [(mail_fake, ''me@x.org'')]"
  "fpe_matches mixed_values [(0, 8, 1), (14, 23, 0)] = [(14, 23, 0)]"
  by (simp_all add: mixed_fakes) (simp_all add: mixed_values_def rv_value_def mail_reg_def fpe_matches_def)

lemma mixed_separate:
  "separate (\<lambda>f. if f = mail_fake then ''me@x.org'' else f) [mail_fake]
     [Inl [], Inr mail_fake, Inl '' uses '', Inl ''sk-234567'', Inl []]"
  by code_simp

lemma mixed_profile: "in_profile ''me@x.org uses sk-234567'' sample_reg i \<longleftrightarrow> i = 14"
proof -
  let ?s = "''me@x.org uses sk-234567''"
  have p: "fr_prefix sample_reg = ''sk-''" "length (fr_value sample_reg) = 9"
      "fr_alphabet sample_reg = DIGITS"
    by (simp_all add: sample_reg_def)
  have "i < 15" if "in_profile ?s sample_reg i"
    using that p by (simp add: in_profile_def)
  moreover have "\<not> in_profile ?s sample_reg i" if "i \<noteq> 14" "i < 15"
    using that p by (auto simp: in_profile_def less_Suc_eq numeral_eq_Suc)
  moreover have "in_profile ?s sample_reg 14"
    by (rule fake_in_profile(1) [OF ref_ff1 sample_facts(3,1,2) sample_scrub]) simp_all
  ultimately show ?thesis by blast
qed

lemma mixed_scrub:
  assumes "0 < n"
  shows   "\<exists>res. scrub_with_session ref_crates (\<lambda>es. es) mixed_engine mixed_input (session_new n t) now = Some (res, mixed_session n t now)
     \<and> sc_output res = mail_fake @ '' uses sk-234567''"
proof -
  have e: "engine_of ref_crates mixed_values mixed_engine"
    using engine_new_of mixed_new ref_crates_ok by (simp add: crates_ok_def)
  have utf: "is_utf8 mixed_input" by (simp add: mixed_input_def)
  have store: "fold (\<lambda>(a, b, v). store_after ref_crates (\<lambda>es. es) mixed_engine (mixed_values ! v)) [(0, 8, 1), (14, 23, 0)]
      (MapStore (session_new n t) now) = MapStore (mixed_session n t now) now"
    using mixed_session_fake assms
    by (simp add: store_after_def mixed_values_def store_pair_map)
      (simp add: mail_reg_def get_or_insert_def prune_def session_new_def insert_pair_def mixed_session_def)
  have rep: "(\<lambda>v. fst (replacement ref_crates mixed_engine True (mixed_values ! v))) = fake_for ref_crates mixed_engine mixed_values"
    by (rule ext) (simp add: fake_for_def replacement_text [of ref_crates mixed_engine True _ False])
  show ?thesis
    using store mixed_fakes
    by (simp add: scrub_with_session_def scrub_impl_spec [OF ref_crates_ok e mixed_scrubbable utf] mixed_matches rep)
      (simp add: mixed_input_def)
qed

lemma mixed_restorable:
  assumes "0 < n"
  shows   "session_restorable ref_crates mixed_engine mixed_values mixed_input (session_new n t) (mixed_session n t now)"
proof -
  have "real_text (mixed_session n t now) = (\<lambda>f. if f = mail_fake then ''me@x.org'' else f)"
    by (auto simp: real_text_def real_at_def mixed_session_def)
  moreover have "only_fakes ''me@x.org uses sk-234567'' (fpe_regs mixed_values) [(14, 23, 0)]"
    by (simp add: only_fakes_def mixed_values_def mixed_profile) (simp add: sample_reg_def)
  moreover have "splice_matches mixed_input 0 [(14, 23, 0)] (fake_for ref_crates mixed_engine mixed_values)
      = ''me@x.org uses sk-234567''"
    by (simp add: mixed_fakes) (simp add: mixed_input_def)
  moreover have "all_faked ref_crates mixed_engine mixed_values [(0, 8, 1), (14, 23, 0)]"
    by (simp add: all_faked_def mixed_fakes mixed_nth mixed_session_fake)
  moreover have "is_ascii mixed_input" by (simp add: mixed_input_def)
  moreover have "\<forall>r. Fpe r \<in> set mixed_values \<longrightarrow> r = sample_reg" by (simp add: mixed_values_def)
  ultimately show ?thesis
    unfolding session_restorable_def mixed_matches mixed_pairs mixed_pieces
    using mixed_scrubbable mixed_separate sample_facts(2) assms
    by (simp add: recordable_def mixed_known del: all_faked_Cons)
      (auto simp: session_new_def entries_def)
qed

section \<open>Property\<close>



end
