(* ===== verification/Collisions.thy ===== *)
theory Collisions
  imports SessionRestoring
begin

text \<open>
  What a session loses when fakes and values do not correspond one to one: two values with one fake,
  and one value whose kind changed while a session remembers its old fake.
\<close>

section \<open>Two numbers in a text\<close>

text \<open>A phone number in international format: a plus sign and digits.\<close>

definition international :: "string \<Rightarrow> bool" where
  "international r \<longleftrightarrow> r \<noteq> [] \<and> hd r = CHR ''+'' \<and> list_all (\<lambda>x. 48 \<le> byte_val x \<and> byte_val x \<le> 57) (tl r)"

lemma internationalD:
  assumes "international r"
  shows "r \<noteq> []" "r ! 0 = CHR ''+''" "0 < i \<Longrightarrow> i < length r \<Longrightarrow> r ! i \<noteq> CHR ''+''" "is_ascii r"
proof -
  obtain ds where r: "r = CHR ''+'' # ds" and d: "\<forall>x \<in> set ds. 48 \<le> byte_val x \<and> byte_val x \<le> 57"
    using assms by (cases r) (auto simp: international_def list_all_iff)
  show "r \<noteq> []" "r ! 0 = CHR ''+''" using r by simp_all
  show "r ! i \<noteq> CHR ''+''" if "0 < i" "i < length r"
  proof -
    have "r ! i \<in> set ds" using that r by (cases i) auto
    with d have "48 \<le> byte_val (r ! i)" by blast
    then show ?thesis by auto
  qed
  show "is_ascii r" using r d by (auto simp: is_ascii_def list_all_iff)
qed

definition phone :: "string \<Rightarrow> string \<Rightarrow> RegisteredValue" where
  "phone l r = SessionMapped \<lparr>sr_label = l, sr_value = r, sr_kind = Pii Phone\<rparr>"

lemma phone_facts [simp]: "rv_value (phone l r) = r" "\<not> is_fpe (phone l r)"
  by (simp_all add: phone_def rv_value_def)

lemma two_numbers_occur:
  assumes "international r1" "international r2" "length r2 = length r1" "p = r1 \<or> p = r2"
    and "i + length p \<le> length (r1 @ '' '' @ r2)" "take (length p) (drop i (r1 @ '' '' @ r2)) = p"
  shows "i = 0 \<and> p = r1 \<or> i = Suc (length r1) \<and> p = r2"
proof -
  let ?s = "r1 @ '' '' @ r2" and ?n = "length r1"
  have p: "length p = ?n" "p ! 0 = CHR ''+''" "0 < ?n"
    using assms(1-4) internationalD(1,2) by auto
  have "?s ! i = p ! 0"
  proof -
    have "take (length p) (drop i t) ! 0 = t ! i" if "i + length p \<le> length t" for t :: string
      using that p(1,3) by simp
    from this [OF assms(5)] show ?thesis by (simp only: assms(6))
  qed
  then have plus: "?s ! i = CHR ''+''" using p(2) by simp
  have "i \<le> Suc ?n" using assms(5) p(1,3) assms(3) by simp
  then consider "i = 0" | "0 < i" "i < ?n" | "i = ?n" | "i = Suc ?n" by linarith
  then show ?thesis
  proof cases
    case 1
    then show ?thesis using assms(6) p(1) by simp
  next
    case 2
    then have "r1 ! i = CHR ''+''" using plus by (simp add: nth_append)
    then show ?thesis using internationalD(3) [OF assms(1)] 2 by blast
  next
    case 3
    then show ?thesis using plus by (simp add: nth_append)
  next
    case 4
    then show ?thesis using assms(3,6) p(1) by simp
  qed
qed

lemma two_numbers_matches:
  assumes "leftmost_longest [as_bytes r1, as_bytes r2] (as_bytes (r1 @ '' '' @ r2)) ms"
    and "international r1" "international r2" "length r2 = length r1" "r1 \<noteq> r2"
  shows "ms = [(0, length r1, 0), (Suc (length r1), Suc (length r1 + length r1), 1)]"
proof -
  let ?s = "r1 @ '' '' @ r2" and ?n = "length r1"
  note ll = assms(1) [unfolded leftmost_longest_def]
  have n: "0 < ?n" using internationalD(1) [OF assms(2)] by simp
  have only: "(a, b, v) = (0, ?n, 0) \<or> (a, b, v) = (Suc ?n, Suc (?n + ?n), 1)" if m: "(a, b, v) \<in> set ms" for a b v
  proof -
    have v: "v < 2" "occurs_at ([as_bytes r1, as_bytes r2] ! v) (as_bytes ?s) a"
        "b = a + length ([as_bytes r1, as_bytes r2] ! v)"
      using ll m by fastforce+
    define p where "p = [r1, r2] ! v"
    have p: "[as_bytes r1, as_bytes r2] ! v = as_bytes p" "p = r1 \<or> p = r2"
      using v(1) by (auto simp: p_def less_2_cases_iff)
    have "a + length p \<le> length ?s" "take (length p) (drop a ?s) = p"
      using v(2) unfolding p(1) occurs_at_bytes by blast+
    from two_numbers_occur [OF assms(2-4) p(2) this] v(1,3) assms(4,5) show ?thesis
      by (auto simp: p_def less_2_cases_iff p(1))
  qed
  have mem: "(0, ?n, 0) \<in> set ms" "(Suc ?n, Suc (?n + ?n), 1) \<in> set ms"
  proof -
    have hit: "\<exists>(a, b, v) \<in> set ms. a < i + length p \<and> i < b"
      if "p \<in> set [as_bytes r1, as_bytes r2]" "occurs_at p (as_bytes ?s) i" for p i
      using ll that by blast
    have occ: "occurs_at (as_bytes r1) (as_bytes ?s) 0" "occurs_at (as_bytes r2) (as_bytes ?s) (Suc ?n)"
      by (simp_all add: occurs_at_bytes)
    obtain a b v where x: "(a, b, v) \<in> set ms" "a < ?n" using hit [OF _ occ(1)] by auto
    with only [OF x(1)] show "(0, ?n, 0) \<in> set ms" by auto
    obtain a' b' v' where y: "(a', b', v') \<in> set ms" "Suc ?n < b'" using hit [OF _ occ(2)] by auto
    with only [OF y(1)] show "(Suc ?n, Suc (?n + ?n), 1) \<in> set ms" by auto
  qed
  have mf: "matches_from 0 ms" using ll by blast
  obtain m ms' where ms: "ms = m # ms'" using mem by (cases ms) auto
  have late: "a \<noteq> 0" if "(a, b, v) \<in> set ms'" for a b v
    using matches_from_ge [of "fst (snd m)" ms' a b v] mf that ms by (cases m) auto
  then have m: "m = (0, ?n, 0)" using mem(1) ms by auto
  then have "ms' \<noteq> []" "\<forall>x \<in> set ms'. x = (Suc ?n, Suc (?n + ?n), 1)"
    using mem(2) ms only late by fastforce+
  then obtain ms'' where ms': "ms' = (Suc ?n, Suc (?n + ?n), 1) # ms''"
      "\<forall>x \<in> set ms''. x = (Suc ?n, Suc (?n + ?n), 1)"
    by (cases ms') auto
  have "ms'' = []"
  proof (rule ccontr)
    assume "ms'' \<noteq> []"
    then have "(Suc ?n, Suc (?n + ?n), 1) \<in> set ms''" using ms'(2) by (metis list.set_intros(1) neq_Nil_conv)
    from matches_from_ge [OF _ this, of "Suc (?n + ?n)"] mf ms ms'(1) m n show False by auto
  qed
  with ms ms'(1) m show ?thesis by simp
qed

section \<open>One fake for two numbers\<close>

lemma restore_without_fpe:
  "eng_fpe_registered e = [] \<Longrightarrow> engine_restore c e s = Some \<lparr>rs_output = s, restored_count = 0\<rparr>"
  by (simp add: engine_restore_def str_slice_def is_char_boundary_def)

lemma phone_fake_chars:
  obtains x y where "fake_phone c seed = [CHR ''5'', CHR ''5'', CHR ''5'', CHR ''-'', CHR ''0'', CHR ''1'', x, y]"
proof -
  have "length (show_02 (unat (sha256_digest c seed ! 0) mod 100)) = 2"
    by (rule show_02_two [THEN conjunct1]) simp
  then obtain x y where "show_02 (unat (sha256_digest c seed ! 0) mod 100) = [x, y]"
    by (auto simp: numeral_2_eq_2 length_Suc_conv)
  then show thesis using that by (simp add: fake_phone_def PHONE_RESERVED_PREFIX_def)
qed

text \<open>Scrubbing two numbers with one fake: the session keeps the second.\<close>

lemma collision_scrubbed:
  assumes "crates_ok c" "engine_new c kp [phone l1 r1, phone l2 r2] [] key = Some (Inr e)"
    and "international r1" "international r2" "length r2 = length r1" "r1 \<noteq> r2" "1 < cap"
    and "fake_phone c (as_bytes r1) = f" "fake_phone c (as_bytes r2) = f"
  shows "scrub_with_session c ord e (r1 @ '' '' @ r2) (session_new cap t) now =
    Some (\<lparr>sc_output = f @ '' '' @ f, scrubbed_count = 2, notices = []\<rparr>,
      \<lparr>max_entries = cap, ttl = t, by_fake = [(f, \<lparr>real_of = r2, last_touched = now\<rparr>)], by_real = [(r2, f)]\<rparr>)"
proof -
  let ?rvs = "[phone l1 r1, phone l2 r2]" and ?s = "r1 @ '' '' @ r2"
  have e: "engine_of c ?rvs e" using engine_new_of assms(1,2) by (simp add: crates_ok_def)
  have asc: "is_ascii r1" "is_ascii r2" "r1 \<noteq> []" "r2 \<noteq> []"
    using internationalD(1,4) assms(3,4) by blast+
  then have scr: "\<forall>rv \<in> set ?rvs. scrubbable rv"
    by (auto simp: scrubbable_def phone_def rv_value_def intro: ascii_is_utf8)
  have utf: "is_utf8 ?s" using asc by (intro ascii_is_utf8) (simp add: is_ascii_def)
  have ms: "engine_matches c ?rvs ?s = [(0, length r1, 0), (Suc (length r1), Suc (length r1 + length r1), 1)]"
    using engine_matches_leftmost [OF assms(1) e scr, of ?s] assms(3-6)
    by (intro two_numbers_matches) simp_all
  have fakes: "session_fake c k \<lparr>sr_label = l1, sr_value = r1, sr_kind = Pii Phone\<rparr> = Some (Some f)"
    "session_fake c k \<lparr>sr_label = l2, sr_value = r2, sr_kind = Pii Phone\<rparr> = Some (Some f)" for k
    using assms(8,9) by (simp_all add: session_fake_def)
  have rep: "replacement c e True (?rvs ! 0) = (f, [])" "replacement c e True (?rvs ! Suc 0) = (f, [])"
    using fakes by (simp_all add: replacement_def phone_def)
  have store: "fold (\<lambda>(a, b, v). store_after c ord e (?rvs ! v))
      [(0, length r1, 0), (Suc (length r1), Suc (length r1 + length r1), 1)] (MapStore (session_new cap t) now)
      = MapStore \<lparr>max_entries = cap, ttl = t, by_fake = [(f, \<lparr>real_of = r2, last_touched = now\<rparr>)], by_real = [(r2, f)]\<rparr> now"
    using fakes assms(6,7)
    by (simp add: store_after_def phone_def store_pair_map)
      (simp add: get_or_insert_def prune_def session_new_def insert_pair_def expired_def wipe_by_real_key_def)
  show ?thesis
    unfolding scrub_with_session_def scrub_impl_spec [OF assms(1) e scr utf] ms store
    using rep assms(5) by simp
qed

lemma collision_restored:
  assumes "eng_fpe_registered e = []" "permutes_entries ord" "fake_phone c seed = f"
  shows "\<exists>m'. restore_with_session c ord e (f @ '' '' @ f)
      \<lparr>max_entries = cap, ttl = t, by_fake = [(f, \<lparr>real_of = r, last_touched = now\<rparr>)], by_real = [(r, f)]\<rparr> now
    = Some (\<lparr>rs_output = r @ '' '' @ r, restored_count = 2\<rparr>, m')"
proof -
  let ?m = "\<lparr>max_entries = cap, ttl = t, by_fake = [(f, \<lparr>real_of = r, last_touched = now\<rparr>)], by_real = [(r, f)]\<rparr>"
  let ?ps = "[Inr f, Inl '' '', Inr f] :: piece list"
  obtain x y where f: "f = [CHR ''5'', CHR ''5'', CHR ''5'', CHR ''-'', CHR ''0'', CHR ''1'', x, y]"
    using phone_fake_chars [of c seed] assms(3) by metis
  have "lone_tokens (\<lambda>f. f) f ?ps"
    by (simp add: f lone_tokens_def occurrences_def starts_with_def upt_conv_Cons)
  then have sep: "separate (\<lambda>_. r) (map fst (by_fake ?m)) ?ps"
    by (simp add: separate_def token_fakes_def reveal_none)
  have weak: "sm_weak ?m" by (simp add: sm_weak_def fake_at_def real_at_def)
  have "\<forall>g. Inr g \<in> set ?ps \<longrightarrow> g \<noteq> [] \<and> live_real ?m now g = Some r"
    by (auto simp: live_real_def expired_def f)
  from session_pass_restores [OF assms(2) weak sep this]
  show ?thesis using restore_without_fpe [OF assms(1)]
    by (auto simp: restore_with_session_def)
qed

section \<open>A value whose kind changed\<close>

lemma whole_text_match:
  assumes "leftmost_longest [as_bytes r] (as_bytes r) ms" "r \<noteq> []"
  shows "ms = [(0, length r, 0)]"
proof -
  note ll = assms(1) [unfolded leftmost_longest_def]
  have only: "x = (0, length r, 0)" if "x \<in> set ms" for x
    using ll that by (cases x) (fastforce simp: occurs_at_bytes)
  have "occurs_at (as_bytes r) (as_bytes r) 0" by (simp add: occurs_at_bytes)
  then have "ms \<noteq> []" using ll by fastforce
  then obtain x ms' where ms: "ms = x # ms'" by (cases ms) auto
  have "ms' = []"
  proof (rule ccontr)
    assume "ms' \<noteq> []"
    then obtain y ys where y: "ms' = y # ys" by (cases ms') auto
    then have "x = (0, length r, 0)" "y = (0, length r, 0)" using only ms by auto
    moreover have "matches_from 0 (x # y # ys)" using ll ms y by blast
    ultimately show False using assms(2) by simp
  qed
  with ms only show ?thesis by simp
qed

text \<open>
  Property (C8). A value is lost when its kind changed while a live session remembers it under a fake of
  the old kind: \<open>Engine::scrub_with_session\<close> writes the new fake, the session keeps the old one only, and
  no notice says that the text cannot be restored.
\<close>

theorem changed_kind_lost:
  assumes "crates_ok c" "engine_new c kp [SessionMapped s] [] key = Some (Inr e)" "scrubbable (SessionMapped s)"
    and "session_fake c key s = Some (Some f)" "f \<noteq> f0"
    and "sm_inv m" "live_real m now f0 = Some (sr_value s)" "real_at m f = None"
  shows "\<exists>res m'. scrub_with_session c ord e (sr_value s) m now = Some (res, m')
    \<and> sc_output res = f \<and> notices res = [] \<and> snd (session_restore m' f now) = None"
proof -
  let ?rvs = "[SessionMapped s]" and ?r = "sr_value s"
  have e: "engine_of c ?rvs e" "eng_session_mac_key e = key"
    using engine_new_of [OF _ assms(2)] assms(1) by (simp_all add: crates_ok_def)
  have scr: "\<forall>rv \<in> set ?rvs. scrubbable rv" using assms(3) by simp
  have r: "is_utf8 ?r" "?r \<noteq> []" using assms(3) by (simp_all add: scrubbable_def rv_value_def)
  have ms: "engine_matches c ?rvs ?r = [(0, length ?r, 0)]"
    using engine_matches_leftmost [OF assms(1) e(1) scr, of ?r] r(2)
    by (intro whole_text_match) (simp_all add: rv_value_def)
  have p: "sm_inv (prune m now)" "sm_weak (prune m now)"
    using assms(6) by (simp_all add: sm_inv_prune sm_weak_prune sm_inv_weak)
  have "real_at (prune m now) f0 = Some ?r"
    using assms(6,7) by (simp add: prune_real_at sm_inv_weak)
  then have hit: "fake_at (prune m now) ?r = Some f0" using sm_invD [OF p(1)] by blast
  let ?m = "touch f0 now (prune m now)"
  have store: "store_after c ord e (SessionMapped s) (MapStore m now) = MapStore ?m now"
    using assms(4) e(2) by (simp add: store_after_def store_pair_map get_or_insert_hit [OF hit])
  have "real_at ?m f = None"
    using assms(6,8) prune_at [OF sm_inv_weak [OF assms(6)], of now f]
    by (cases "map_of (by_fake (prune m now)) f") (auto simp: session_simps real_at_def)
  then have "snd (session_restore ?m f now) = None"
    using session_restore_result [OF sm_weak_touch [OF p(2)], of f0 now f now]
    by (auto simp: live_real_def real_at_def split: option.split)
  moreover have "replacement c e True (SessionMapped s) = (f, [])"
    using assms(4) e(2) by (simp add: replacement_def)
  ultimately show ?thesis
    unfolding scrub_with_session_def scrub_impl_spec [OF assms(1) e(1) scr r(1)] ms
    using store by simp
qed

theorem changed_kind_lost_witness:
  "\<exists>e f res m'. scrub_with_session ref_crates (\<lambda>es. es) e ''me@x.org'' (mixed_session 5 9 0) 0 = Some (res, m')
     \<and> sc_output res = f \<and> notices res = [] \<and> snd (session_restore m' f 0) = None"
proof -
  let ?s = "mail_reg\<lparr>sr_kind := Formatless\<rparr>"
  have val: "sr_value ?s = ''me@x.org''" by (simp add: mail_reg_def)
  have scr: "scrubbable (SessionMapped ?s)"
    by (simp add: scrubbable_def rv_value_def mail_reg_def hkdf_max_len_def)
  obtain k where k: "fpe_new ref_crates \<lparr>provider_key = []\<rparr> = Some k"
    using fpe_new_key [OF ref_digests(3)] by blast
  obtain e where e: "engine_new ref_crates \<lparr>provider_key = []\<rparr> [SessionMapped ?s] [] [] = Some (Inr e)"
    using k by (simp add: engine_new_def exact_build_def) (simp add: ref_crates_def)
  have n: "mac_tail_len BASE62 < length ''me@x.org''" "length ''me@x.org'' \<le> mac_tail_len BASE62 + hkdf_max_len"
    by (simp_all add: BASE62_tail hkdf_max_len_def)
  obtain f where f: "make_macfake ref_crates [] ''me@x.org'' BASE62 = Some (Some f)" "length f = length ''me@x.org''"
    by (rule make_macfake_ok [OF named_constants_wf(1) ref_digests(3) n])
  then have sf: "session_fake ref_crates [] ?s = Some (Some f)" by (simp add: session_fake_def mail_reg_def)
  have ne: "f \<noteq> mail_fake" using f(2) by (auto simp: mail_fake_def)
  have inv: "sm_inv (mixed_session 5 9 0)"
    by (simp add: mixed_session_def sm_inv_def sm_weak_def fake_at_def real_at_def)
  have "live_real (mixed_session 5 9 0) 0 mail_fake = Some (sr_value ?s)" "real_at (mixed_session 5 9 0) f = None"
    using ne by (simp_all add: mixed_session_def live_real_def real_at_def expired_def mail_reg_def)
  from changed_kind_lost [OF ref_crates_ok e scr sf ne inv this, of "\<lambda>es. es"] show ?thesis
    unfolding val by blast
qed

section \<open>Property\<close>

text \<open>
  Property (C7). Among any 101 phone numbers of one length there are two that a session mixes up, whatever the
  hash is: with both registered, \<open>Engine::scrub_with_session\<close> of a text with the two numbers
  gives both the same fake without any notice, and \<open>Engine::restore_with_session\<close> writes the second number
  where the first one stood, counting both as restored.
\<close>

theorem session_mixes_numbers:
  assumes "crates_ok c" "\<And>ps. ac_build c ps" "permutes_entries ord'" "1 < cap"
    and "100 < card S" "\<And>r. r \<in> S \<Longrightarrow> international r \<and> length r = n"
  shows "\<exists>r1 r2 e res m m'. r1 \<in> S \<and> r2 \<in> S \<and> r1 \<noteq> r2
    \<and> engine_new c kp [phone l1 r1, phone l2 r2] [] key = Some (Inr e)
    \<and> scrub_with_session c ord e (r1 @ '' '' @ r2) (session_new cap t) now = Some (res, m)
    \<and> notices res = []
    \<and> restore_with_session c ord' e (sc_output res) m now
        = Some (\<lparr>rs_output = r2 @ '' '' @ r2, restored_count = 2\<rparr>, m')"
proof -
  have "card (as_bytes ` S) = card S" by (rule card_image) (simp add: inj_on_def)
  then have "100 < card (as_bytes ` S)" using assms(5) by simp
  then obtain r1 r2 where r: "r1 \<in> S" "r2 \<in> S" "r1 \<noteq> r2" "fake_phone c (as_bytes r1) = fake_phone c (as_bytes r2)"
    using reserved_fakes_collide [of "as_bytes ` S" c] by auto
  obtain k where k: "fpe_new c kp = Some k" using fpe_new_key assms(1) by (metis crates_ok_def)
  then obtain e where e: "engine_new c kp [phone l1 r1, phone l2 r2] [] key = Some (Inr e)" "eng_fpe_registered e = []"
    using assms(2) by (simp add: engine_new_def phone_def exact_build_def)
  have len: "international r1" "international r2" "length r2 = length r1" using assms(6) r(1,2) by auto
  show ?thesis
    using r(1-3) e(1) collision_scrubbed [OF assms(1) e(1) len r(3) assms(4) r(4) refl, of ord t now]
      collision_restored [OF e(2) assms(3) refl, of c "as_bytes r2" cap t r2 now]
    by fastforce
qed

text \<open>The numbers of three digits.\<close>

definition sample_numbers :: "string set" where
  "sample_numbers = (\<lambda>(i, j, k). [CHR ''+'', char_of (48 + i), char_of (48 + j), char_of (48 + k)])
     ` ({..<10 :: nat} \<times> {..<10 :: nat} \<times> {..<10 :: nat})"

lemma sample_numbers_facts:
  "card sample_numbers = 1000" "r \<in> sample_numbers \<Longrightarrow> international r \<and> length r = 4"
proof -
  have c: "byte_val (char_of (48 + i) :: char) = 48 + i" if "i < 10" for i :: nat
    using that by (simp add: of_char_of)
  have "inj_on (\<lambda>(i, j, k). [CHR ''+'', char_of (48 + i), char_of (48 + j), char_of (48 + k)])
      ({..<10 :: nat} \<times> {..<10 :: nat} \<times> {..<10 :: nat})"
  proof (rule inj_onI)
    fix p q :: "nat \<times> nat \<times> nat"
    assume p: "p \<in> {..<10} \<times> {..<10} \<times> {..<10}" and q: "q \<in> {..<10} \<times> {..<10} \<times> {..<10}"
      and eq: "(\<lambda>(i, j, k). [CHR ''+'', char_of (48 + i) :: char, char_of (48 + j), char_of (48 + k)]) p
        = (\<lambda>(i, j, k). [CHR ''+'', char_of (48 + i), char_of (48 + j), char_of (48 + k)]) q"
    obtain i j k i' j' k' where pq: "p = (i, j, k)" "q = (i', j', k')" by (metis prod_cases3)
    then have "i < 10" "j < 10" "k < 10" "i' < 10" "j' < 10" "k' < 10" using p q by simp_all
    moreover have "byte_val (char_of (48 + i) :: char) = byte_val (char_of (48 + i') :: char)"
      "byte_val (char_of (48 + j) :: char) = byte_val (char_of (48 + j') :: char)"
      "byte_val (char_of (48 + k) :: char) = byte_val (char_of (48 + k') :: char)"
      using eq pq by simp_all
    ultimately have "48 + i = 48 + i'" "48 + j = 48 + j'" "48 + k = 48 + k'"
      by (simp_all only: c)
    with pq show "p = q" by simp
  qed
  then show "card sample_numbers = 1000"
    unfolding sample_numbers_def by (simp add: card_image card_cartesian_product)
  show "r \<in> sample_numbers \<Longrightarrow> international r \<and> length r = 4"
    using c by (auto simp: sample_numbers_def international_def)
qed

theorem session_mixes_numbers_witness:
  "\<exists>r1 r2 e res m m'. r1 \<noteq> r2
    \<and> scrub_with_session ref_crates (\<lambda>es. es) e (r1 @ '' '' @ r2) (session_new 2 9) 0 = Some (res, m)
    \<and> restore_with_session ref_crates (\<lambda>es. es) e (sc_output res) m 0
        = Some (\<lparr>rs_output = r2 @ '' '' @ r2, restored_count = 2\<rparr>, m')"
proof -
  have ac: "ac_build ref_crates ps" for ps by (simp add: ref_crates_def)
  have "100 < card sample_numbers" by (simp add: sample_numbers_facts)
  from session_mixes_numbers [OF ref_crates_ok ac permutes_entries_id _ this sample_numbers_facts(2), where cap = 2]
  show ?thesis by fastforce
qed

end
