(* ===== verification/RestoreLimits.thy ===== *)
theory RestoreLimits
  imports Restoring
begin

text \<open>
  The limits of \<open>Engine::restore\<close> (\<open>engine.rs\<close>): on which texts it panics, exactly, and which fakes a
  shorter registration hides from it.
\<close>

section \<open>Where the search slices inside a character\<close>

text \<open>A place where the search finds the prefix and the whole window lies in the text.\<close>

definition window_at :: "string \<Rightarrow> FpeRegistration \<Rightarrow> nat \<Rightarrow> bool" where
  "window_at input reg i \<longleftrightarrow>
     i + length (fr_value reg) \<le> length input \<and> take (length (fr_prefix reg)) (drop i input) = fr_prefix reg"

text \<open>The body of the window and the text for the next search are slices; one of them is not one.\<close>

definition splits_character :: "string \<Rightarrow> FpeRegistration \<Rightarrow> nat \<Rightarrow> bool" where
  "splits_character input reg i \<longleftrightarrow> window_at input reg i
     \<and> \<not> (is_char_boundary input (i + length (fr_prefix reg))
          \<and> is_char_boundary input (i + length (fr_value reg)) \<and> is_char_boundary input (Suc i))"

lemma slice_from: "k \<le> length s \<Longrightarrow> str_slice_from s k = (if is_char_boundary s k then Some (drop k s) else panic)"
  by (simp add: str_slice_def is_char_boundary_def)

text \<open>Where the first window is sliced well, only the later ones matter and where the search for them starts.\<close>

lemma splits_later:
  assumes "window_at input reg i" "k \<le> i" "\<And>j. k \<le> j \<Longrightarrow> window_at input reg j \<Longrightarrow> i \<le> j"
    and "is_char_boundary input (i + length (fr_prefix reg))" "is_char_boundary input (i + length (fr_value reg))"
  shows "(\<exists>j \<ge> k. splits_character input reg j) \<longleftrightarrow>
    \<not> is_char_boundary input (i + 1) \<or> (\<exists>j \<ge> i + 1. splits_character input reg j)"
proof
  assume "\<exists>j \<ge> k. splits_character input reg j"
  then obtain j where j: "k \<le> j" "splits_character input reg j" by blast
  then have "i \<le> j" using assms(3) by (simp add: splits_character_def)
  show "\<not> is_char_boundary input (i + 1) \<or> (\<exists>j \<ge> i + 1. splits_character input reg j)"
  proof (cases "j = i")
    case True
    then show ?thesis using j(2) assms(4,5) by (simp add: splits_character_def)
  next
    case False
    then have "i + 1 \<le> j" using \<open>i \<le> j\<close> by simp
    then show ?thesis using j(2) by blast
  qed
next
  assume "\<not> is_char_boundary input (i + 1) \<or> (\<exists>j \<ge> i + 1. splits_character input reg j)"
  then show "\<exists>j \<ge> k. splits_character input reg j"
  proof
    assume "\<not> is_char_boundary input (i + 1)"
    then have "splits_character input reg i" using assms(1) by (simp add: splits_character_def)
    then show ?thesis using assms(2) by blast
  next
    assume "\<exists>j \<ge> i + 1. splits_character input reg j"
    then obtain j where "i + 1 \<le> j" "splits_character input reg j" by blast
    then show ?thesis using assms(2) by (intro exI [of _ j]) simp
  qed
qed

lemma profile_spans_panics:
  assumes "length (fr_prefix reg) < length (fr_value reg)" "k \<le> length input"
  shows "profile_spans input reg k = panic
    \<longleftrightarrow> \<not> is_char_boundary input k \<or> (\<exists>i \<ge> k. splits_character input reg i)"
  using assms
proof (induction input reg k rule: profile_spans.induct)
  case (1 input reg k)
  let ?n = "length (fr_value reg)" and ?p = "fr_prefix reg"
  show ?case
  proof (cases "is_char_boundary input k")
    case False
    then show ?thesis using "1.prems"(2) by (subst profile_spans.simps) (simp add: slice_from)
  next
    case bk: True
    have hay: "str_slice_from input k = Some (drop k input)" using bk "1.prems"(2) by (simp add: slice_from)
    show ?thesis
    proof (cases "str_find (drop k input) ?p")
      case None
      have "\<not> window_at input reg i" if ki: "k \<le> i" for i
      proof -
        obtain j where "i = k + j" using le_Suc_ex [OF ki] by blast
        with None show ?thesis by (auto simp: window_at_def str_find_None add.commute)
      qed
      then show ?thesis using None hay bk by (subst profile_spans.simps) (auto simp: splits_character_def)
    next
      case (Some pos)
      have before: "k + pos \<le> i" if ki: "k \<le> i" and w: "window_at input reg i" for i
      proof (rule ccontr)
        obtain j where j: "i = k + j" using le_Suc_ex [OF ki] by blast
        assume "\<not> k + pos \<le> i"
        then have "j < pos" using j by simp
        then show False using str_find_before [OF Some] w j by (auto simp: window_at_def add.commute)
      qed
      have at: "take (length ?p) (drop (k + pos) input) = ?p"
        using str_find_Some [OF Some] by (simp add: add.commute)
      have nonempty: "fr_value reg \<noteq> []" using "1.prems"(1) by auto
      show ?thesis
      proof (cases "k + pos + ?n > length input")
        case True
        have "\<not> window_at input reg i" if "k \<le> i" for i
          using before [OF that] True by (auto simp: window_at_def)
        then show ?thesis
          using Some True hay bk by (subst profile_spans.simps) (auto simp: Let_def splits_character_def)
      next
        case False
        then have win: "window_at input reg (k + pos)" using at by (simp add: window_at_def)
        show ?thesis
        proof (cases "str_slice input (k + pos + length ?p) (k + pos + ?n)")
          case None
          then have "splits_character input reg (k + pos)"
            using win False "1.prems"(1) by (auto simp: splits_character_def str_slice_def split: if_splits)
          then show ?thesis
            using None Some hay False nonempty
            by (subst profile_spans.simps) (auto simp: Let_def intro: exI [of _ "k + pos"])
        next
          case (Some body)
          have bd: "is_char_boundary input (k + pos + length ?p)" "is_char_boundary input (k + pos + ?n)"
            using Some by (simp_all add: str_slice_def split: if_splits)
          have le: "Suc (k + pos) \<le> length input" using False nonempty by (cases "fr_value reg") simp_all
          have ih: "profile_spans input reg (k + pos + 1) = panic
              \<longleftrightarrow> \<not> is_char_boundary input (k + pos + 1) \<or> (\<exists>i \<ge> k + pos + 1. splits_character input reg i)"
            using "1.IH" [OF hay \<open>str_find _ _ = Some pos\<close> refl refl _ Some] False nonempty "1.prems"(1) le by simp
          have "k \<le> k + pos" by simp
          note splits_later [OF win this before bd]
          then show ?thesis
            unfolding ih [symmetric]
            by (subst profile_spans.simps)
              (use hay \<open>str_find _ _ = Some pos\<close> False nonempty Some bk in \<open>simp add: Let_def\<close>)
        qed
      qed
    qed
  qed
qed

text \<open>What the search found is sliced at boundaries, also at its start.\<close>

lemma profile_spans_sliced:
  assumes "profile_spans input reg k = Some xs" "is_utf8 input" "is_utf8 (fr_prefix reg)" "(a, b) \<in> set xs"
  shows "a \<le> b \<and> b \<le> length input \<and> is_char_boundary input a \<and> is_char_boundary input b"
  using assms
proof (induction input reg k arbitrary: xs rule: profile_spans.induct)
  case (1 input reg k)
  let ?n = "length (fr_value reg)" and ?p = "fr_prefix reg"
  obtain hay where hay: "str_slice_from input k = Some hay"
    using "1.prems"(1) by (subst (asm) profile_spans.simps) (auto split: option.splits)
  then have k: "k \<le> length input" "is_char_boundary input k" "hay = drop k input"
    by (simp_all add: str_slice_def split: if_splits)
  obtain pos where pos: "str_find hay ?p = Some pos"
    using "1.prems"(1,4) hay by (subst (asm) profile_spans.simps) (auto split: option.splits)
  have le: "\<not> (k + pos + ?n > length input \<or> fr_value reg = [])"
    using "1.prems"(1,4) hay pos by (subst (asm) profile_spans.simps) (auto simp: Let_def)
  obtain body where body: "str_slice input (k + pos + length ?p) (k + pos + ?n) = Some body"
    using "1.prems"(1) hay pos le by (subst (asm) profile_spans.simps) (auto simp: Let_def split: option.splits)
  obtain ys where ys: "profile_spans input reg (k + pos + 1) = Some ys"
      "set xs \<subseteq> insert (k + pos, k + pos + ?n) (set ys)"
    using "1.prems"(1) hay pos le body
    by (subst (asm) profile_spans.simps) (auto simp: Let_def split: option.splits if_splits)
  show ?case
  proof (cases "(a, b) \<in> set ys")
    case True
    then show ?thesis using "1.IH" [OF hay pos refl refl le body ys(1) "1.prems"(2,3)] by simp
  next
    case False
    then have ab: "a = k + pos" "b = k + pos + ?n" using ys(2) "1.prems"(4) by auto
    have at: "take (length ?p) (drop (k + pos) input) = ?p" "pos + length ?p \<le> length hay"
      using str_find_Some [OF pos] k(3) by (simp_all add: add.commute)
    have "is_char_boundary input (k + pos)"
    proof (cases "?p = []")
      case True
      then show ?thesis using pos k(2) by simp
    next
      case False
      then show ?thesis using occurrence_boundaries(1) [OF "1.prems"(2,3) False _ at(1)] at(2) k by simp
    qed
    then show ?thesis using ab le body by (simp add: str_slice_def split: if_splits)
  qed
qed

section \<open>Exactly those texts\<close>

lemma slice_utf8:
  assumes "is_utf8 s" "str_slice s a b = Some t"
  shows "is_utf8 t"
proof -
  have t: "t = take (b - a) (drop a s)" "a \<le> b" "b \<le> length s" "is_char_boundary s a" "is_char_boundary s b"
    using assms(2) by (simp_all add: str_slice_def split: if_splits)
  have d: "is_utf8 (drop a s)" using boundary_split(2) [OF assms(1) t(4)] t(2,3) by simp
  have "is_char_boundary (drop a s) (b - a)"
    using t(2-5) by (auto simp: is_char_boundary_def)
  then show ?thesis using boundary_split(1) [OF d] t(1-3) by simp
qed

lemma restore_loop_returns:
  assumes "ff1_contract c" "length (ff1_key (eng_fpe e)) = 32"
    and "\<forall>r \<in> set (eng_fpe_registered e). wf_registration r \<and> eligible r" "is_utf8 input"
    and "\<forall>(a, b) \<in> set spans. a \<le> b \<and> b \<le> length input \<and> is_char_boundary input a \<and> is_char_boundary input b"
    and "cursor \<le> length input" "is_char_boundary input cursor"
  shows "\<exists>t cursor' n'. restore_loop c e input spans (out, cursor, n) = Some (out @ t, cursor', n')
    \<and> cursor' \<le> length input \<and> is_char_boundary input cursor'"
  using assms(5-7)
proof (induction spans arbitrary: out cursor n)
  case (Cons span spans)
  obtain a b where s: "span = (a, b)" by (cases span)
  show ?case
  proof (cases "a < cursor")
    case True
    with Cons s show ?thesis by simp
  next
    case False
    have ab: "a \<le> b" "b \<le> length input" "is_char_boundary input a" "is_char_boundary input b"
      using Cons.prems(1) s by auto
    obtain gap cand where sl: "str_slice input cursor a = Some gap" "str_slice input a b = Some cand"
      using False ab Cons.prems(3) by (simp add: str_slice_def)
    have "is_utf8 cand" by (rule slice_utf8 [OF assms(4) sl(2)])
    then obtain r where r: "fpe_try_restore c (eng_fpe e) cand (eng_fpe_registered e) = Some r"
      using fpe_try_restore_find [OF assms(1,2,3)] by blast
    have rest: "\<exists>t cursor' n'. restore_loop c e input spans (out', b, m) = Some (out' @ t, cursor', n')
        \<and> cursor' \<le> length input \<and> is_char_boundary input cursor'" for out' m
      using Cons.IH [of b out' m] Cons.prems(1) ab by simp
    from rest [of "out @ gap @ cand" n] rest [of "out @ gap @ the r" "Suc n"] s False sl r
    show ?thesis by (cases r) auto
  qed
qed simp

lemma reg_spans_panics:
  assumes "length (fr_prefix reg) < length (fr_value reg)"
  shows "reg_spans input reg = panic \<longleftrightarrow> (\<exists>i. splits_character input reg i)"
  using assms profile_spans_panics [OF assms, of 0 input]
  by (simp add: reg_spans_def is_char_boundary_def [of input 0])

lemma engine_restore_loop:
  assumes "ff1_contract c" "length (ff1_key (eng_fpe e)) = 32" "is_utf8 input"
    and "\<forall>r \<in> set (eng_fpe_registered e). wf_registration r \<and> eligible r"
    and "mapo (reg_spans input) (eng_fpe_registered e) = Some xss"
  shows "\<forall>(a, b) \<in> set (remdups_adj (sort (concat xss))).
    a \<le> b \<and> b \<le> length input \<and> is_char_boundary input a \<and> is_char_boundary input b"
proof -
  have "a \<le> b \<and> b \<le> length input \<and> is_char_boundary input a \<and> is_char_boundary input b"
    if ab: "(a, b) \<in> set xs" and xs: "xs \<in> set xss" for a b xs
  proof -
    obtain r where "r \<in> set (eng_fpe_registered e)" "reg_spans input r = Some xs"
      using assms(5) [unfolded mapo_Some_iff] xs
      by (induction rule: list_all2_induct) auto
    then show ?thesis
      using profile_spans_sliced [of input r 0 xs a b] assms(3,4) ab
      by (auto simp: reg_spans_def wf_registration_def split: if_splits)
  qed
  then show ?thesis by auto
qed

section \<open>The fake behind a shorter registration\<close>

lemma least_span_first:
  fixes xs :: "(nat \<times> nat) list"
  assumes "p \<in> set xs" "\<forall>q \<in> set xs. p \<le> q"
  obtains rest where "remdups_adj (sort xs) = p # rest"
proof (cases "remdups_adj (sort xs)")
  case Nil
  then have "set xs = {}" by (metis remdups_adj_set set_sort list.set(1))
  then show thesis using assms(1) by simp
next
  case (Cons q rest)
  have s: "sorted (q # rest)" "set (q # rest) = set xs"
    using sorted_remdups_adj [OF sorted_sort, of xs] unfolding Cons [symmetric] by simp_all
  then have "q \<le> p" "p \<le> q" using assms by auto
  then show thesis using that Cons by simp
qed

text \<open>A shorter window of the same prefix and alphabet fits wherever a longer one does.\<close>

lemma shorter_profile:
  assumes "in_profile s q i" "is_ascii s" "fr_prefix r = fr_prefix q" "fr_alphabet r = fr_alphabet q"
    and "length (fr_value r) \<le> length (fr_value q)"
  shows "in_profile s r i"
proof -
  let ?d = "drop (i + length (fr_prefix q)) s" and ?body = "\<lambda>reg. length (fr_value reg) - length (fr_prefix q)"
  have asc: "is_ascii (take k ?d)" for k using assms(2) by (simp add: is_ascii_take is_ascii_drop)
  have "set (take (?body r) ?d) \<subseteq> set (take (?body q) ?d)"
    using assms(5) by (intro set_take_subset_set_take diff_le_mono)
  moreover have "\<forall>b \<in> set (take (?body q) ?d). contains (fr_alphabet q) (byte_val b)"
    using assms(1) asc by (simp add: in_profile_def ascii_str_chars list_all_iff)
  ultimately show ?thesis
    using assms asc by (auto simp: in_profile_def ascii_str_chars list_all_iff)
qed

lemma first_span_fails:
  assumes "ff1_contract c" "length (ff1_key (eng_fpe e)) = 32" "is_ascii s"
    and "\<forall>r \<in> set (eng_fpe_registered e). wf_registration r \<and> eligible r"
    and "r \<in> set (eng_fpe_registered e)" "in_profile s r 0"
    and "\<forall>q \<in> set (eng_fpe_registered e). in_profile s q 0 \<longrightarrow> length (fr_value r) \<le> length (fr_value q)"
    and "\<forall>q \<in> set (eng_fpe_registered e). fpe_scrub c (eng_fpe e) q \<noteq> Some (Inr (take (length (fr_value r)) s))"
  shows "\<exists>res. engine_restore c e s = Some res
    \<and> take (length (fr_value r)) (rs_output res) = take (length (fr_value r)) s"
proof -
  let ?n = "length (fr_value r)" and ?regs = "eng_fpe_registered e"
  have utf: "is_utf8 s" and n: "?n \<le> length s" using assms(3,6) by (simp_all add: in_profile_def)
  obtain xss where xss: "mapo (reg_spans s) ?regs = Some xss"
      "set (concat xss) = (\<Union>q \<in> set ?regs. if length (fr_value q) \<le> length (fr_prefix q) then {}
        else {(i, i + length (fr_value q)) | i. in_profile s q i})"
    by (rule mapo_reg_spans_ascii [OF assms(3)])
  have "length (fr_prefix r) < ?n" using assms(4,5) eligible_longer by blast
  then have "(0, ?n) \<in> set (concat xss)" unfolding xss(2) using assms(5,6) by force
  moreover have "(0, ?n) \<le> (i, i + length (fr_value q))" if "q \<in> set ?regs" "in_profile s q i" for q i
    using that assms(7) by (cases i) (auto simp: less_eq_prod_def)
  then have "\<forall>p \<in> set (concat xss). (0, ?n) \<le> p"
    unfolding xss(2) by (auto split: if_splits)
  ultimately obtain rest where spans: "remdups_adj (sort (concat xss)) = (0, ?n) # rest"
    by (rule least_span_first)
  have bounds: "\<forall>(a, b) \<in> set rest. a \<le> b \<and> b \<le> length s \<and> is_char_boundary s a \<and> is_char_boundary s b"
    using engine_restore_loop [OF assms(1,2) utf assms(4) xss(1)] spans by simp
  have "fpe_try_restore c (eng_fpe e) (take ?n s) ?regs = Some None"
    using fpe_try_restore_find [OF assms(1,2,4), of "take ?n s"] assms(3,8)
    by (simp add: is_ascii_take find_None_iff)
  moreover obtain t cursor m where "restore_loop c e s rest (take ?n s, ?n, 0) = Some (take ?n s @ t, cursor, m)"
      "cursor \<le> length s"
    using restore_loop_returns [OF assms(1,2,4) utf bounds n, of "take ?n s" 0] assms(3) n by (auto simp: str_simps)
  ultimately show ?thesis
    using xss(1) spans n assms(3) by (simp add: engine_restore_def str_simps)
qed

text \<open>A second registration with the same prefix and one more digit.\<close>

definition long_reg :: FpeRegistration where
  "long_reg = sample_reg\<lparr>fr_label := ''long'', fr_value := ''sk-7654321''\<rparr>"

definition two_engine :: Engine where
  "two_engine = sample_engine\<lparr>eng_fpe_registered := [sample_reg, long_reg],
     eng_exact_matcher := \<lparr>automaton = Some [as_bytes (fr_value sample_reg), as_bytes (fr_value long_reg)]\<rparr>,
     eng_value_id_to_ref := [RefFpe 0, RefFpe 1]\<rparr>"

lemma two_engine_new:
  "engine_new ref_crates \<lparr>provider_key = replicate 32 1\<rparr> [Fpe sample_reg, Fpe long_reg] [] [] =
     Some (Inr two_engine)"
  by (simp add: engine_new_def exact_build_def fpe_new_def vault_key_def FF1_KEY_LEN_def ref_crates_def
      hkdf_max_len_def two_engine_def sample_engine_def sample_tokenizer_def)

lemma long_reg_facts:
  "wf_registration long_reg" "eligible long_reg"
  "fpe_scrub ref_crates sample_tokenizer long_reg = Some (Inr ''sk-8765432'')"
proof -
  show "wf_registration long_reg"
    using sample_facts(1) by (simp add: wf_registration_def long_reg_def)
  have digits: "str_chars ''0123456789'' = [48, 49, 50, 51, 52, 53, 54, 55, 56, 57]"
    by (subst ascii_str_chars) simp_all
  have r: "radix DIGITS = 10" by (simp add: DIGITS_def alphabet_unchecked_def radix_def)
  have "list_all (contains DIGITS) (map byte_val ''7654321'')"
    by (simp add: DIGITS_def alphabet_unchecked_def contains_def digits)
  with r show el: "eligible long_reg" unfolding eligible_def check_eligibility_ok_iff
    by (intro exI [of _ "''7654321''"]) (simp add: long_reg_def sample_reg_def is_whitespace_def)
  have "body_to_numerals ''7654321'' DIGITS = Some [7, 6, 5, 4, 3, 2, 1]"
    by (simp add: body_to_numerals_def str_simps DIGITS_def alphabet_unchecked_def index_of_def
        utf8_scalar_def utf8_tail_len_def)
  moreover have "numerals_to_body [8, 7, 6, 5, 4, 3, 2] DIGITS = Some ''8765432''"
    by (simp add: numerals_to_body_def DIGITS_def alphabet_unchecked_def symbol_at_def
        string_of_chars_def utf8_encode_def char_of_def bit_0)
  moreover have "rotate_numerals 1 10 [7, 6, 5, 4, 3, 2, 1] = [8, 7, 6, 5, 4, 3, 2]"
    by (simp add: rotate_numerals_def)
  ultimately show "fpe_scrub ref_crates sample_tokenizer long_reg = Some (Inr ''sk-8765432'')"
    using el r
    by (simp add: fpe_scrub_def eligible_def long_reg_def sample_reg_def ref_crates_def
        numerals_below_def strip_prefix_def starts_with_def)
qed

section \<open>Properties\<close>

text \<open>
  Property (C16). On UTF-8 text, with eligible registrations over well-formed alphabets,
  \<open>Engine::restore\<close> panics exactly when some registration's prefix occurs where the whole window of its
  value's length lies in the text, and the end of the prefix, the end of the window or the byte after
  the window's start is inside a multi-byte character. So it never panics on ASCII text.
\<close>

theorem engine_restore_panics:
  assumes "ff1_contract c" "length (ff1_key (eng_fpe e)) = 32" "is_utf8 input"
    and "\<forall>r \<in> set (eng_fpe_registered e). wf_registration r \<and> eligible r"
  shows "engine_restore c e input = panic
    \<longleftrightarrow> (\<exists>r \<in> set (eng_fpe_registered e). \<exists>i. splits_character input r i)"
proof -
  have spans: "mapo (reg_spans input) (eng_fpe_registered e) = None
      \<longleftrightarrow> (\<exists>r \<in> set (eng_fpe_registered e). \<exists>i. splits_character input r i)"
    using assms(4) by (simp add: mapo_None_iff reg_spans_panics eligible_longer)
  show ?thesis
  proof (cases "mapo (reg_spans input) (eng_fpe_registered e)")
    case None
    then show ?thesis using spans by (simp add: engine_restore_def)
  next
    case (Some xss)
    have "is_char_boundary input 0" by (simp add: is_char_boundary_def)
    then obtain out cursor n where
        "restore_loop c e input (remdups_adj (sort (concat xss))) ([], 0, 0) = Some (out, cursor, n)"
        "cursor \<le> length input" "is_char_boundary input cursor"
      using restore_loop_returns [OF assms(1,2,4,3) engine_restore_loop [OF assms Some], of 0 "[]" 0] by auto
    then show ?thesis using Some spans by (simp add: engine_restore_def slice_from)
  qed
qed

theorem engine_restore_panics_witness:
  "engine_restore ref_crates sample_engine (''sk-12345'' @ utf8_encode 233) = panic
   \<and> engine_restore ref_crates sample_engine ''no secrets, sk-12 only'' \<noteq> panic"
proof -
  have e: "length (ff1_key (eng_fpe sample_engine)) = 32" "eng_fpe_registered sample_engine = [sample_reg]"
      "\<forall>r \<in> set (eng_fpe_registered sample_engine). wf_registration r \<and> eligible r"
    by (simp_all add: sample_engine_def sample_facts)
  have reg: "fr_prefix sample_reg = ''sk-''" "length (fr_value sample_reg) = 9" by (simp_all add: sample_reg_def)
  have "is_utf8 (utf8_encode 233)"
    using is_utf8_of_chars [of "[233]"] by (simp add: string_of_chars_def is_scalar_def)
  then have "is_utf8 (''sk-12345'' @ utf8_encode 233)"
    using is_utf8_append_cancel [of "''sk-12345''" "utf8_encode 233"] by simp
  note at = engine_restore_panics [OF ref_ff1 e(1) this e(3)]
  have "splits_character (''sk-12345'' @ utf8_encode 233) sample_reg 0"
    by (simp add: splits_character_def window_at_def reg utf8_encode_def is_char_boundary_def is_continuation_def
        nth_append)
  then have "engine_restore ref_crates sample_engine (''sk-12345'' @ utf8_encode 233) = panic"
    using at e(2) by auto
  moreover have "\<not> splits_character ''no secrets, sk-12 only'' sample_reg i" for i
    by (simp add: splits_character_def window_at_def reg str_simps) 
  then have "engine_restore ref_crates sample_engine ''no secrets, sk-12 only'' \<noteq> panic"
    using engine_restore_panics [OF ref_ff1 e(1) _ e(3), of "''no secrets, sk-12 only''"] e(2) by simp
  ultimately show ?thesis by blast
qed

text \<open>
  Property (C17). A shorter registration masks a longer one. Take any vault of eligible registrations with
  two of one prefix and one alphabet, and an ASCII text that begins with the fake of the longer value.
  If the window of the shorter one is the shortest that fits there and is no registration's fake, then
  \<open>Engine::restore\<close> copies that window as it is; so the longer value does not come back, unless its fake
  happens to agree with it that far.
\<close>

theorem engine_restore_masked:
  assumes "ff1_contract c" "length (ff1_key (eng_fpe e)) = 32"
    and "\<forall>r \<in> set (eng_fpe_registered e). wf_registration r \<and> eligible r"
    and "r \<in> set (eng_fpe_registered e)" "q \<in> set (eng_fpe_registered e)"
    and "fr_prefix r = fr_prefix q" "fr_alphabet r = fr_alphabet q" "length (fr_value r) < length (fr_value q)"
    and "fpe_scrub c (eng_fpe e) q = Some (Inr f)" "is_ascii (f @ post)"
    and "\<forall>r' \<in> set (eng_fpe_registered e).
      in_profile (f @ post) r' 0 \<longrightarrow> length (fr_value r) \<le> length (fr_value r')"
    and "\<forall>r' \<in> set (eng_fpe_registered e).
      fpe_scrub c (eng_fpe e) r' \<noteq> Some (Inr (take (length (fr_value r)) f))"
  shows "\<exists>res. engine_restore c e (f @ post) = Some res
    \<and> take (length (fr_value r)) (rs_output res) = take (length (fr_value r)) f
    \<and> (take (length (fr_value r)) f \<noteq> take (length (fr_value r)) (fr_value q) \<longrightarrow>
         take (length (fr_value q)) (rs_output res) \<noteq> fr_value q)"
proof -
  let ?n = "length (fr_value r)"
  have q: "wf_registration q" "eligible q" using assms(3,5) by auto
  have f: "in_profile (f @ post) q 0" "length f = length (fr_value q)"
    using fake_in_profile [OF assms(1,2) q assms(9), of 0 "f @ post"] by simp_all
  then have "take ?n (f @ post) = take ?n f" using assms(8) by simp
  moreover have "in_profile (f @ post) r 0"
    using shorter_profile [OF f(1) assms(10) assms(6,7)] assms(8) by simp
  ultimately obtain res where res: "engine_restore c e (f @ post) = Some res" "take ?n (rs_output res) = take ?n f"
    using first_span_fails [OF assms(1,2,10,3,4) _ assms(11)] assms(12) by auto
  have "take ?n (fr_value q) = take ?n f" if "take (length (fr_value q)) (rs_output res) = fr_value q"
    using res(2) that assms(8) by (metis min.absorb1 order_less_imp_le take_take)
  then show ?thesis using res by auto
qed

theorem engine_restore_masked_witness:
  "\<exists>res. engine_restore ref_crates two_engine ''sk-8765432'' = Some res
     \<and> take 9 (rs_output res) = ''sk-876543'' \<and> take 10 (rs_output res) \<noteq> fr_value long_reg"
proof -
  have e: "eng_fpe two_engine = sample_tokenizer" "eng_fpe_registered two_engine = [sample_reg, long_reg]"
    by (simp_all add: two_engine_def sample_engine_def)
  have r: "fr_prefix sample_reg = fr_prefix long_reg" "fr_alphabet sample_reg = fr_alphabet long_reg"
      "length (fr_value sample_reg) = 9" "length (fr_value long_reg) = 10" "take 9 (fr_value long_reg) = ''sk-765432''"
    by (simp_all add: long_reg_def sample_reg_def)
  have "\<exists>res. engine_restore ref_crates two_engine (''sk-8765432'' @ []) = Some res
    \<and> take (length (fr_value sample_reg)) (rs_output res) = take (length (fr_value sample_reg)) ''sk-8765432''
    \<and> (take (length (fr_value sample_reg)) ''sk-8765432'' \<noteq> take (length (fr_value sample_reg)) (fr_value long_reg) \<longrightarrow>
         take (length (fr_value long_reg)) (rs_output res) \<noteq> fr_value long_reg)"
    by (rule engine_restore_masked [OF ref_ff1])
      (simp_all add: e r sample_facts long_reg_facts sample_scrub)
  then show ?thesis by (simp add: r)
qed

end
