(* ===== verification/Messages.thy ===== *)
theory Messages
  imports SessionFile Control
begin

text \<open>
  The \<open>Display\<close> implementations of the error types: \<open>alphabet.rs\<close>, \<open>fpe.rs\<close>, \<open>keychain/mod.rs\<close>,
  \<open>vault/io.rs\<close>, \<open>vault/mod.rs\<close>, \<open>session_file.rs\<close> and \<open>invisibool-control/src/error.rs\<close>. What the
  standard library prints from its own tables (the text of an OS error, which characters
  \<open>{:?}\<close> escapes) is a record of functions.
\<close>

section \<open>Formatting\<close>

record std_fmt =
  fmt_io :: "io_error \<Rightarrow> string"
  fmt_debug_char :: "rchar \<Rightarrow> string"
  fmt_debug_str :: "string \<Rightarrow> string"

fun show_oct :: "nat \<Rightarrow> string" where
  "show_oct n = (if n < 8 then [char_of (48 + n)] else show_oct (n div 8) @ [char_of (48 + n mod 8)])"

declare show_oct.simps [simp del]

text \<open>\<open>Path::display\<close> of a path written without redundant separators.\<close>

definition show_path :: "path \<Rightarrow> string" where
  "show_path p = to_string_lossy (path_bytes p)"

definition newline :: string where
  "newline = [CHR 0x0A]"

section \<open>Tokenizer errors\<close>

definition display_alphabet_error :: "std_fmt \<Rightarrow> AlphabetError \<Rightarrow> string" where
  "display_alphabet_error fmt e =
     (case e of
        NonAscii \<Rightarrow> ''alphabet must be ASCII''
      | ContainsWhitespace \<Rightarrow> ''alphabet must not contain whitespace''
      | RadixOutOfRange r \<Rightarrow> ''alphabet radix '' @ show_nat r @ '' outside NIST FF1 bounds [2, 65535]''
      | DuplicateChar ch \<Rightarrow> ''alphabet contains duplicate character '' @ fmt_debug_char fmt ch)"

definition display_eligibility_error :: "std_fmt \<Rightarrow> EligibilityError \<Rightarrow> string" where
  "display_eligibility_error fmt e =
     (case e of
        PrefixMissing \<Rightarrow> ''value does not start with the configured prefix''
      | ValueNotAscii \<Rightarrow> ''value body contains non-ASCII characters''
      | ValueContainsWhitespace \<Rightarrow> ''value body contains whitespace''
      | CharNotInAlphabet ch \<Rightarrow> ''value body contains '' @ fmt_debug_char fmt ch @ '', outside the alphabet''
      | DomainTooSmall r n \<Rightarrow>
          ''radix^length = '' @ show_nat r @ ''^'' @ show_nat n @ '' below FF1 minimum domain 10^6''
      | BodyTooLong \<Rightarrow> ''value body too long for FF1'')"

section \<open>Vault errors\<close>

definition display_keychain_error :: "KeychainError \<Rightarrow> string" where
  "display_keychain_error e =
     (case e of
        Backend msg \<Rightarrow> ''keychain backend error: '' @ msg
      | MalformedKey expected got \<Rightarrow>
          ''keychain returned a key of the wrong length: expected '' @ show_nat expected
            @ '' bytes, got '' @ show_nat got)"

definition display_atomic_write_error :: "std_fmt \<Rightarrow> AtomicWriteError \<Rightarrow> string" where
  "display_atomic_write_error fmt e =
     (case e of
        AtTmpCreate x \<Rightarrow> ''could not create vault temp file: '' @ fmt_io fmt x
      | AtBodyWrite x \<Rightarrow> ''could not write vault body: '' @ fmt_io fmt x
      | AtBodyFsync x \<Rightarrow> ''could not fsync vault temp file: '' @ fmt_io fmt x
      | AtRename x \<Rightarrow> ''could not atomically rename vault file: '' @ fmt_io fmt x
      | AtParentFsync x \<Rightarrow> ''could not fsync vault parent directory: '' @ fmt_io fmt x)"

definition display_vault_error :: "std_fmt \<Rightarrow> VaultError \<Rightarrow> string" where
  "display_vault_error fmt e =
     (case e of
        VIo x \<Rightarrow> ''vault I/O: '' @ fmt_io fmt x
      | VAtomicWrite x \<Rightarrow> ''vault write: '' @ display_atomic_write_error fmt x
      | VKeychain x \<Rightarrow> ''vault keychain: '' @ display_keychain_error x
      | BadMagic \<Rightarrow> ''vault file does not have the expected magic bytes''
      | UnsupportedVersion v \<Rightarrow>
          ''vault file format version '' @ show_nat (unat v) @ '' is not supported by this reader''
      | TruncatedFile \<Rightarrow> ''vault file is truncated below the minimum size''
      | AeadDecrypt \<Rightarrow>
          ''vault decryption failed (wrong key, tampered ciphertext, tampered header, or mismatched version)''
      | VSerde x \<Rightarrow> ''vault plaintext could not be parsed: '' @ x
      | UnknownAlphabet name \<Rightarrow>
          ''vault entry references unknown alphabet '' @ quote @ name @ quote
            @ ''; this vault was written by a version that knows alphabets this reader does not'')"

definition display_session_file_error :: "std_fmt \<Rightarrow> SessionFileError \<Rightarrow> string" where
  "display_session_file_error fmt e =
     (case e of
        SfIo x \<Rightarrow> ''session file I/O: '' @ fmt_io fmt x
      | SfAtomicWrite x \<Rightarrow> ''session file write: '' @ display_atomic_write_error fmt x
      | NotASessionFile \<Rightarrow>
          ''the path does not point at an Invisibool session file (magic bytes do not match); ''
            @ ''if you meant to use a fresh path, remove or choose a different filename''
      | SfUnsupportedVersion v \<Rightarrow>
          ''session file format version '' @ show_nat (unat v) @ '' is not supported by this reader''
      | SfTruncatedFile \<Rightarrow> ''session file is truncated below the minimum size''
      | SfAeadDecrypt \<Rightarrow>
          ''session file decryption failed (wrong key, tampered ciphertext, ''
            @ ''or the file was written under a different vault)''
      | Expired expired_at \<Rightarrow>
          ''session file expired at Unix epoch '' @ show_nat (unat expired_at)
            @ ''; please pick a fresh path or delete this file - a fresh scrub cannot silently reset the TTL''
      | SfSerde x \<Rightarrow> ''session file plaintext could not be parsed: '' @ x)"

section \<open>Control errors\<close>

definition display_control_error :: "std_fmt \<Rightarrow> ControlError \<Rightarrow> string" where
  "display_control_error fmt e =
     (case e of
        CIo x \<Rightarrow> ''io error: '' @ fmt_io fmt x
      | FrameTooLarge actual mx \<Rightarrow>
          ''frame size '' @ show_nat actual @ '' exceeds max frame size '' @ show_nat mx
      | BadJson x \<Rightarrow> ''received request body was not valid JSON: '' @ x
      | BadJsonResponse x \<Rightarrow> ''received response body was not valid JSON: '' @ x
      | UnknownCmd cmd \<Rightarrow> ''unknown command: '' @ cmd
      | PeerUidMismatch peer_uid daemon \<Rightarrow>
          ''connection rejected: peer uid '' @ show_nat (unat peer_uid) @ '' != daemon uid '' @ show_nat (unat daemon)
      | PeerRejectedForTest \<Rightarrow> ''connection rejected by test verifier''
      | SingleInstanceLockHeld p \<Rightarrow>
          ''another invisibool daemon appears to be running (lock held at '' @ show_path p
            @ ''). If you believe this is stale, remove '' @ show_path p @ '' and try again.''
      | StaleSocketCleanupRefused p x \<Rightarrow>
          ''stale-socket cleanup refused: '' @ show_path p @ '' exists with permission error '' @ fmt_io fmt x
            @ ''. Investigate before removing.''
      | SocketDirWrongMode p actual expected \<Rightarrow>
          ''socket dir '' @ show_path p @ '' exists with wrong mode '' @ show_oct (unat actual)
            @ '' (expected '' @ show_oct (unat expected) @ ''); refusing to chmod''
      | SocketFileWrongMode p actual expected \<Rightarrow>
          ''socket file '' @ show_path p @ '' has wrong mode '' @ show_oct (unat actual)
            @ '' (expected '' @ show_oct (unat expected) @ '') after bind''
      | NoSocketPath \<Rightarrow>
          ''could not resolve control-socket path: ''
            @ ''neither XDG_RUNTIME_DIR nor XDG_STATE_HOME nor HOME is set'')"

end
