(* ===== verification/Cli.thy ===== *)
theory Cli
  imports Messages "HOL-Library.List_Lexorder"
begin

text \<open>
  \<open>crates/invisibool/src/cli\<close>: the commands of \<open>commands.rs\<close> over a vault path, a keychain, a
  \<open>VaultIo\<close> and two output sinks, and \<open>secret_input.rs\<close>. A command is a function on the state of the
  process's surroundings; \<open>try_run\<close> is the \<open>?\<close> operator. A sink that fails takes some bytes first: \<open>write_all\<close>
  emits what there is room for and then gives the error. \<open>writeln!(...).ok()\<close> drops the error, and with it
  the rest of the line. Every draw from the random source has its own index.
\<close>

section \<open>Output\<close>

record sink =
  sk_text :: string
  sk_fault :: "(nat \<times> io_error) option"

text \<open>\<open>sk_fault\<close>: how many bytes the sink still takes, and the error it then gives; \<open>None\<close> if it never fails.\<close>

definition sink_write :: "sink \<Rightarrow> string \<Rightarrow> sink \<times> (io_error + unit)" where
  "sink_write s t =
     (case sk_fault s of
        None \<Rightarrow> (s\<lparr>sk_text := sk_text s @ t\<rparr>, Inr ())
      | Some (room, e) \<Rightarrow>
          if length t \<le> room
          then (s\<lparr>sk_text := sk_text s @ t, sk_fault := Some (room - length t, e)\<rparr>, Inr ())
          else (s\<lparr>sk_text := sk_text s @ take room t, sk_fault := Some (0, e)\<rparr>, Inl e))"

record ('w, 'k) cli_state =
  cs_world :: 'w
  cs_keys :: 'k
  cs_out :: sink
  cs_err :: sink

definition say_out :: "string \<Rightarrow> ('w, 'k) cli_state \<Rightarrow> ('w, 'k) cli_state" where
  "say_out line st = st\<lparr>cs_out := fst (sink_write (cs_out st) (line @ newline))\<rparr>"

definition say_err :: "string \<Rightarrow> ('w, 'k) cli_state \<Rightarrow> ('w, 'k) cli_state" where
  "say_err line st = st\<lparr>cs_err := fst (sink_write (cs_err st) (line @ newline))\<rparr>"

section \<open>Errors and surroundings\<close>

datatype CommandError = CVault VaultError | CmdIo io_error | CSession SessionFileError

definition display_command_error :: "std_fmt \<Rightarrow> CommandError \<Rightarrow> string" where
  "display_command_error fmt e =
     (case e of
        CVault x \<Rightarrow> display_vault_error fmt x
      | CmdIo x \<Rightarrow> ''I/O: '' @ fmt_io fmt x
      | CSession x \<Rightarrow> display_session_file_error fmt x)"

record ('w, 'k) cli_env =
  ce_crates :: crates
  ce_vault_serde :: "VaultContents serde"
  ce_session_serde :: "SessionContents serde"
  ce_io :: "'w VaultIo"
  ce_kc :: "'k KeychainBackend"
  ce_wipe :: "'w \<Rightarrow> path \<Rightarrow> 'w \<times> (io_error + unit)"
  ce_rng :: "nat \<Rightarrow> rng"
  ce_order :: order
  ce_instant :: instant
  ce_fmt :: std_fmt

type_synonym ('w, 'k, 'a) cli = "(('w, 'k) cli_state \<times> (CommandError + 'a)) run"

definition try_run :: "('w, 'k, 'a) cli \<Rightarrow> ('a \<Rightarrow> ('w, 'k) cli_state \<Rightarrow> ('w, 'k, 'b) cli) \<Rightarrow> ('w, 'k, 'b) cli" where
  "try_run r f =
     (case r of
        None \<Rightarrow> panic
      | Some (st, Inl e) \<Rightarrow> Some (st, Inl e)
      | Some (st, Inr a) \<Rightarrow> f a st)"

text \<open>The calls into the engine crate, with their errors wrapped as the commands wrap them.\<close>

definition cli_open :: "('w, 'k) cli_env \<Rightarrow> nat \<Rightarrow> path \<Rightarrow> ('w, 'k) cli_state \<Rightarrow> ('w, 'k, Vault) cli" where
  "cli_open env n vault_path st =
     map_option (\<lambda>((w, k), r). (st\<lparr>cs_world := w, cs_keys := k\<rparr>, map_err CVault r))
       (vault_open (ce_crates env) (ce_vault_serde env) (ce_io env) (ce_kc env) (ce_rng env n) vault_path
         (cs_world st, cs_keys st))"

definition cli_save :: "('w, 'k) cli_env \<Rightarrow> nat \<Rightarrow> path \<Rightarrow> Vault \<Rightarrow> ('w, 'k) cli_state \<Rightarrow> ('w, 'k, unit) cli" where
  "cli_save env n vault_path v st =
     map_option (\<lambda>(w, r). (st\<lparr>cs_world := w\<rparr>, map_err CVault r))
       (vault_save (ce_crates env) (ce_vault_serde env) (ce_io env) (ce_rng env n) vault_path (cs_world st) v)"

definition cli_engine :: "('w, 'k) cli_env \<Rightarrow> Vault \<Rightarrow> ('w, 'k) cli_state \<Rightarrow> ('w, 'k, Engine) cli" where
  "cli_engine env v st = map_option (\<lambda>r. (st, map_err CVault r)) (build_engine (ce_crates env) v)"

definition cli_load_session ::
  "('w, 'k) cli_env \<Rightarrow> Vault \<Rightarrow> path \<Rightarrow> u64 \<Rightarrow> ('w, 'k) cli_state \<Rightarrow> ('w, 'k, SessionContents option) cli" where
  "cli_load_session env v sp now_epoch st =
     map_option (\<lambda>r. (st, map_err CSession r))
       (vault_load_session_file (ce_crates env) (ce_session_serde env) v (ce_io env) (cs_world st) sp now_epoch)"

definition cli_save_session ::
  "('w, 'k) cli_env \<Rightarrow> nat \<Rightarrow> Vault \<Rightarrow> path \<Rightarrow> SessionContents \<Rightarrow> ('w, 'k) cli_state \<Rightarrow> ('w, 'k, unit) cli" where
  "cli_save_session env n v sp contents st =
     map_option (\<lambda>(w, r). (st\<lparr>cs_world := w\<rparr>, map_err CSession r))
       (vault_save_session_file (ce_crates env) (ce_session_serde env) v (ce_io env) (ce_rng env n) (cs_world st)
         sp contents)"

section \<open>register, list and forget\<close>

definition DEFAULT_FPE_ALPHABET_NAME :: string where
  "DEFAULT_FPE_ALPHABET_NAME = ''BASE62''"

definition resolve_vault_path :: "env_vars \<Rightarrow> path option \<Rightarrow> string + path" where
  "resolve_vault_path vars override_path =
     (case override_path of
        Some p \<Rightarrow> Inr p
      | None \<Rightarrow>
          ok_or (default_vault_path vars)
            (''could not determine the default vault location (no $HOME on Unix, ''
              @ ''or no %LOCALAPPDATA% / %USERPROFILE% on Windows); ''
              @ ''pass --vault <PATH> to choose one explicitly''))"

definition quoted :: "string \<Rightarrow> string" where
  "quoted s = quote @ s @ quote"

definition already_registered :: "string \<Rightarrow> string" where
  "already_registered label =
     ''error: a secret is already registered under label '' @ quoted label
       @ ''. Run `invisibool forget '' @ label @ ''` first if you want to replace it.''"

definition formatless_disclosure :: "std_fmt \<Rightarrow> string \<Rightarrow> EligibilityError \<Rightarrow> string" where
  "formatless_disclosure fmt label reason =
     ''notice: '' @ quoted label @ '' was registered as a session-mapped ''
       @ ''(Formatless) value because it failed FF1 eligibility ('' @ display_eligibility_error fmt reason
       @ ''). Consequence: scrub will replace it with a MAC-tagged random ''
       @ ''fake. The original value is NOT restorable in terminal mode ''
       @ ''without --session; the running `invisibool watch` daemon ''
       @ ''keeps it in its session map until restart. The registration ''
       @ ''is still recorded.''"

text \<open>The kind a new entry gets: FF1 when the value is eligible, otherwise Formatless with a notice.\<close>

definition dispatch_kind ::
  "('w, 'k) cli_env \<Rightarrow> string \<Rightarrow> string \<Rightarrow> ('w, 'k) cli_state \<Rightarrow> (VaultEntryKind \<times> ('w, 'k) cli_state) run" where
  "dispatch_kind env label value st =
     (case check_eligibility value [] BASE62 of
        Inr _ \<Rightarrow>
          do {
            tweak \<leftarrow> random_ff1_tweak (ce_rng env 1);
            Some (FpeEntry tweak [] DEFAULT_FPE_ALPHABET_NAME, st)
          }
      | Inl reason \<Rightarrow>
          Some (SessionEntry Formatless, say_err (formatless_disclosure (ce_fmt env) label reason) st))"

definition cli_register ::
  "('w, 'k) cli_env \<Rightarrow> path \<Rightarrow> string \<Rightarrow> string \<Rightarrow> ('w, 'k) cli_state \<Rightarrow> ('w, 'k, nat) cli" where
  "cli_register env vault_path label value st =
     try_run (cli_open env 0 vault_path st) (\<lambda>v st.
       if list_ex (\<lambda>l. l = label) (vault_labels v) then Some (say_err (already_registered label) st, Inr 5)
       else
         do {
           (kind, st) \<leftarrow> dispatch_kind env label value st;
           try_run
             (cli_save env 2 vault_path
               (vault_register v \<lparr>ve_label = label, ve_value = value, ve_kind = kind\<rparr>) st)
             (\<lambda>_ st. Some (say_out (''registered '' @ quoted label) st, Inr 0))
         })"

definition debug_pii :: "PiiKind \<Rightarrow> string" where
  "debug_pii p = (case p of Email \<Rightarrow> ''Email'' | Ipv4 \<Rightarrow> ''Ipv4'' | Phone \<Rightarrow> ''Phone'')"

definition format_kind :: "std_fmt \<Rightarrow> EntryKindSummary \<Rightarrow> string" where
  "format_kind fmt k =
     (case k of
        SummaryFpe alphabet prefix \<Rightarrow>
          if prefix = [] then ''FPE '' @ alphabet
          else ''FPE '' @ alphabet @ '' prefix='' @ fmt_debug_str fmt prefix
      | SummarySession Card \<Rightarrow> ''SessionMapped Card''
      | SummarySession Formatless \<Rightarrow> ''SessionMapped Formatless''
      | SummarySession (Pii p) \<Rightarrow> ''SessionMapped Pii('' @ debug_pii p @ '')'')"

definition tab :: string where
  "tab = [CHR 0x09]"

definition list_line :: "std_fmt \<Rightarrow> EntryMetadata \<Rightarrow> string" where
  "list_line fmt m = md_label m @ tab @ format_kind fmt (md_kind m)"

text \<open>\<open>sort_by\<close> is stable and compares labels bytewise.\<close>

definition sort_metadata :: "EntryMetadata list \<Rightarrow> EntryMetadata list" where
  "sort_metadata = sort_key (\<lambda>m. map byte_val (md_label m))"

definition cli_list :: "('w, 'k) cli_env \<Rightarrow> path \<Rightarrow> ('w, 'k) cli_state \<Rightarrow> ('w, 'k, nat) cli" where
  "cli_list env vault_path st =
     try_run (cli_open env 0 vault_path st) (\<lambda>v st.
       let metadata = sort_metadata (list_metadata v) in
       if metadata = [] then Some (say_out ''(no registered entries)'' st, Inr 0)
       else Some (fold (\<lambda>m. say_out (list_line (ce_fmt env) m)) metadata st, Inr 0))"

definition cli_forget ::
  "('w, 'k) cli_env \<Rightarrow> path \<Rightarrow> string \<Rightarrow> ('w, 'k) cli_state \<Rightarrow> ('w, 'k, nat) cli" where
  "cli_forget env vault_path label st =
     try_run (cli_open env 0 vault_path st) (\<lambda>v st.
       case vault_forget v label of (v, removed) \<Rightarrow>
         if \<not> removed then Some (say_err (''error: no entry with label '' @ quoted label) st, Inr 4)
         else
           try_run (cli_save env 1 vault_path v st)
             (\<lambda>_ st. Some (say_out (''forgot '' @ quoted label) st, Inr 0)))"

section \<open>scrub and restore\<close>

definition debug_session_kind :: "SessionFakeKind \<Rightarrow> string" where
  "debug_session_kind k =
     (case k of Card \<Rightarrow> ''Card'' | Formatless \<Rightarrow> ''Formatless'' | Pii p \<Rightarrow> ''Pii('' @ debug_pii p @ '')'')"

definition format_notice :: "ScrubNotice \<Rightarrow> string" where
  "format_notice n =
     (case n of
        SessionMappedUnrestorable label kind \<Rightarrow>
          ''notice: '' @ quoted label @ '' ('' @ debug_session_kind kind
            @ '') was scrubbed into a session-mapped fake; ''
            @ ''it will NOT restore in terminal mode without --session. The ''
            @ ''register-time disclosure said this would happen.''
      | RedactedFormatless label \<Rightarrow>
          ''warning: '' @ quoted label @ '' was redacted (placeholder substituted, original removed); ''
            @ ''terminal restore cannot recover it. A Formatless fake generator that ''
            @ ''would let scrub emit a MAC-tagged fake instead of redacting is a ''
            @ ''planned follow-on.''
      | RedactedInternalFailure label reason \<Rightarrow>
          ''error (internal): '' @ quoted label @ '' was redacted because the engine could not ''
            @ ''produce a valid fake ('' @ reason @ ''). Please investigate the registration; ''
            @ ''a corrupt vault entry can cause this.'')"

definition CLI_SESSION_MAP_CAPACITY :: nat where
  "CLI_SESSION_MAP_CAPACITY = 4096"

definition now_epoch_secs :: "u64 option \<Rightarrow> u64" where
  "now_epoch_secs since_epoch = (case since_epoch of Some s \<Rightarrow> s | None \<Rightarrow> 0)"

text \<open>\<open>Duration::from_secs\<close>, in nanoseconds.\<close>

definition from_secs :: "u64 \<Rightarrow> duration" where
  "from_secs s = unat s * 1000000000"

text \<open>The session map of one command, seeded from the file with the life the file has left.\<close>

definition seed_map :: "('w, 'k) cli_env \<Rightarrow> SessionContents \<Rightarrow> u64 \<Rightarrow> SessionMap" where
  "seed_map env contents ttl_secs_remaining =
     import_pairs (map (\<lambda>p. (sp_fake p, sp_real p)) (sn_entries contents)) (ce_instant env)
       (session_new CLI_SESSION_MAP_CAPACITY (from_secs (max ttl_secs_remaining 1)))"

definition scrub_through_session ::
  "('w, 'k) cli_env \<Rightarrow> Vault \<Rightarrow> Engine \<Rightarrow> string \<Rightarrow> path \<Rightarrow> u64 \<Rightarrow> ('w, 'k) cli_state
   \<Rightarrow> ('w, 'k, EngineScrubResult) cli" where
  "scrub_through_session env v engine input sp now_epoch st =
     try_run (cli_load_session env v sp now_epoch st) (\<lambda>existing st.
       case (case existing of
               Some c \<Rightarrow> (c, saturating_sub (sn_expires_at c) now_epoch)
             | None \<Rightarrow> (new_at now_epoch, SESSION_TTL_SECS)) of
         (contents, ttl_secs_remaining) \<Rightarrow>
         do {
           (r, session) \<leftarrow> scrub_with_session (ce_crates env) (ce_order env) engine input
             (seed_map env contents ttl_secs_remaining) (ce_instant env);
           try_run
             (cli_save_session env 1 v sp
               (contents\<lparr>sn_entries := map (\<lambda>(fake, r). \<lparr>sp_fake = fake, sp_real = r\<rparr>)
                  (entries (ce_order env) session)\<rparr>) st)
             (\<lambda>_ st. Some (st, Inr r))
         })"

definition write_output :: "string \<Rightarrow> ('w, 'k) cli_state \<Rightarrow> ('w, 'k, unit) cli" where
  "write_output t st =
     (case sink_write (cs_out st) t of (s, r) \<Rightarrow> Some (st\<lparr>cs_out := s\<rparr>, map_err CmdIo r))"

definition cli_scrub ::
  "('w, 'k) cli_env \<Rightarrow> path \<Rightarrow> string \<Rightarrow> path option \<Rightarrow> u64 \<Rightarrow> ('w, 'k) cli_state \<Rightarrow> ('w, 'k, nat) cli" where
  "cli_scrub env vault_path input session_path now_epoch st =
     try_run (cli_open env 0 vault_path st) (\<lambda>v st.
     try_run (cli_engine env v st) (\<lambda>engine st.
     try_run
       (case session_path of
          None \<Rightarrow> map_option (\<lambda>r. (st, Inr r)) (engine_scrub (ce_crates env) engine input)
        | Some sp \<Rightarrow> scrub_through_session env v engine input sp now_epoch st) (\<lambda>result st.
     try_run (write_output (sc_output result) st) (\<lambda>_ st.
       Some (say_err (''scrubbed '' @ show_nat (scrubbed_count result) @ '' value(s)'')
               (fold (\<lambda>n. say_err (format_notice n)) (notices result) st), Inr 0)))))"

definition wipe_session ::
  "('w, 'k) cli_env \<Rightarrow> path \<Rightarrow> ('w, 'k) cli_state \<Rightarrow> ('w, 'k) cli_state" where
  "wipe_session env sp st =
     (case ce_wipe env (cs_world st) sp of
        (w, Inr _) \<Rightarrow> st\<lparr>cs_world := w\<rparr>
      | (w, Inl e) \<Rightarrow>
          say_err (''warning: could not remove session file '' @ quoted (show_path sp) @ '': ''
              @ fmt_io (ce_fmt env) e @ ''. The file'' @ quote @ ''s `expires_at` still bounds its lifetime.'')
            (st\<lparr>cs_world := w\<rparr>))"

definition session_not_found :: "path \<Rightarrow> CommandError" where
  "session_not_found sp =
     CSession (SfIo (IoError NotFound
       (''session file '' @ quoted (show_path sp)
         @ '' not found; `restore --session` never silently degrades to stateless restore'')))"

definition restore_through_session ::
  "('w, 'k) cli_env \<Rightarrow> Vault \<Rightarrow> Engine \<Rightarrow> string \<Rightarrow> path \<Rightarrow> u64 \<Rightarrow> ('w, 'k) cli_state
   \<Rightarrow> ('w, 'k, EngineRestoreResult \<times> nat) cli" where
  "restore_through_session env v engine input sp now_epoch st =
     try_run (cli_load_session env v sp now_epoch st) (\<lambda>loaded st.
       case loaded of
         None \<Rightarrow> Some (st, Inl (session_not_found sp))
       | Some contents \<Rightarrow>
           let total_entries = length (sn_entries contents);
               present_entries = length (filter (\<lambda>p. str_contains input (sp_fake p)) (sn_entries contents));
               unused = total_entries - present_entries
           in do {
                (r, _) \<leftarrow> restore_with_session (ce_crates env) (ce_order env) engine input
                  (seed_map env contents (saturating_sub (sn_expires_at contents) now_epoch)) (ce_instant env);
                Some (wipe_session env sp st, Inr (r, unused))
              })"

definition cli_restore ::
  "('w, 'k) cli_env \<Rightarrow> path \<Rightarrow> string \<Rightarrow> path option \<Rightarrow> u64 \<Rightarrow> ('w, 'k) cli_state \<Rightarrow> ('w, 'k, nat) cli" where
  "cli_restore env vault_path input session_path now_epoch st =
     try_run (cli_open env 0 vault_path st) (\<lambda>v st.
     try_run (cli_engine env v st) (\<lambda>engine st.
     try_run
       (case session_path of
          None \<Rightarrow> map_option (\<lambda>r. (st, Inr (r, 0))) (engine_restore (ce_crates env) engine input)
        | Some sp \<Rightarrow> restore_through_session env v engine input sp now_epoch st) (\<lambda>(result, unused_entries) st.
     try_run (write_output (rs_output result) st) (\<lambda>_ st.
       let st = say_err (''restored '' @ show_nat (restored_count result) @ '' value(s)'') st in
       Some (if unused_entries > 0
             then say_err (show_nat unused_entries @ '' session entr''
                    @ (if unused_entries = 1 then ''y'' else ''ies'')
                    @ '' not present in this input, discarded with the session file.'') st
             else st, Inr 0)))))"

end
