(* ===== verification/CliRun.thy ===== *)
theory CliRun
  imports Cli
begin

text \<open>
  The rest of \<open>crates/invisibool/src/cli\<close>: reading the secret (\<open>secret_input.rs\<close>) and the input, the
  \<open>status\<close> and \<open>watch\<close> commands, the parsed command line (\<open>args.rs\<close>, parsing itself is clap) and \<open>run\<close>,
  which maps every outcome to an exit code.
\<close>

section \<open>Reading\<close>

text \<open>\<open>read_to_string\<close>: the bytes of a stream, if they are UTF-8.\<close>

definition read_to_string :: "io_error + u8 list \<Rightarrow> io_error + string" where
  "read_to_string r =
     bind_result r (\<lambda>bs.
       if is_utf8 (bytes_to_str bs) then Inr (bytes_to_str bs)
       else Inl (IoError OtherKind ''stream did not contain valid UTF-8''))"

definition strip_newline :: "string \<Rightarrow> string" where
  "strip_newline buf =
     (if ends_with buf [CHR 0x0A]
      then (let buf = butlast buf in if ends_with buf [CHR 0x0D] then butlast buf else buf)
      else buf)"

definition read_secret_pipe :: "io_error + u8 list \<Rightarrow> io_error + string" where
  "read_secret_pipe stream = map_sum id strip_newline (read_to_string stream)"

definition read_secret :: "bool \<Rightarrow> io_error + string \<Rightarrow> io_error + u8 list \<Rightarrow> io_error + string" where
  "read_secret is_terminal prompt_password stdin =
     (if is_terminal then prompt_password else read_secret_pipe stdin)"

definition read_input :: "('w \<Rightarrow> path \<Rightarrow> io_error + u8 list) \<Rightarrow> io_error + u8 list \<Rightarrow> 'w \<Rightarrow> path option \<Rightarrow> io_error + string" where
  "read_input open_and_read stdin w source =
     (case source of
        Some p \<Rightarrow> read_to_string (open_and_read w p)
      | None \<Rightarrow> read_to_string stdin)"

section \<open>status\<close>

definition cli_status ::
  "wire_json \<Rightarrow> (json \<Rightarrow> string) \<Rightarrow> std_fmt \<Rightarrow> env_vars \<Rightarrow> (path \<Rightarrow> io_error + conn) \<Rightarrow> (u8 list \<Rightarrow> u8 list)
   \<Rightarrow> path option \<Rightarrow> ('w, 'k) cli_state \<Rightarrow> ('w, 'k, nat) cli" where
  "cli_status js show_value fmt vars connect peer socket_override st =
     (case (case socket_override of
              Some p \<Rightarrow> Inr p
            | None \<Rightarrow> map_sum id socket (default_control_paths vars)) of
        Inl e \<Rightarrow> Some (say_err (''error: '' @ display_control_error fmt e) st, Inr 3)
      | Inr socket_path \<Rightarrow>
          do {
            reply \<leftarrow> dial_once js (connect socket_path) peer Status;
            Some (case reply of
                Inr (ROk v) \<Rightarrow>
                  (case status_from_value js v of
                     Inr d \<Rightarrow>
                       (say_out (''watch is running: pid='' @ show_nat (unat (st_pid d)) @ '' uptime=''
                          @ show_nat (unat (st_uptime_secs d)) @ ''s version='' @ st_version d) st, Inr 0)
                   | Inl _ \<Rightarrow>
                       (say_err (''error: daemon returned a status response with an unexpected shape: ''
                          @ show_value v) st, Inr 3))
              | Inr (RErr payload) \<Rightarrow>
                  (say_err (''error: daemon returned error ('' @ kind_as_str (ep_kind payload) @ ''): ''
                     @ ep_message payload) st, Inr 3)
              | Inl e \<Rightarrow>
                  (case e of
                     CIo io_err \<Rightarrow>
                       if io_kind io_err = NotFound \<or> io_kind io_err = ConnectionRefused
                       then (say_out ''watch is not running'' st, Inr 0)
                       else (say_err (''error: control channel: '' @ display_control_error fmt e) st, Inr 3)
                   | _ \<Rightarrow> (say_err (''error: control channel: '' @ display_control_error fmt e) st, Inr 3)))
          })"

section \<open>watch\<close>

definition env_var :: "env_vars \<Rightarrow> string \<Rightarrow> string" where
  "env_var vars name = (case vars name of Some s \<Rightarrow> if is_utf8 s then s else [] | None \<Rightarrow> [])"

definition terminal_alternatives :: "string list" where
  "terminal_alternatives =
    [''  invisibool scrub <FILE>              read a file, print scrubbed text'',
     ''  invisibool scrub                     read stdin, print scrubbed text'',
     ''  invisibool restore <FILE>            read a file, print restored text'',
     ''  invisibool scrub --session <PATH>    keep PII/card values restorable'',
     ''                                       across two separate invocations'']"

definition wayland_refusal :: "string \<Rightarrow> string list" where
  "wayland_refusal display_hint =
    [''error: `invisibool watch` is not supported on Wayland '' @ display_hint @ ''.'',
     [],
     ''Why: Wayland'' @ quote @ ''s core protocol does not expose the private-clipboard-format ''
       @ ''hints that the daemon'' @ quote @ ''s own clipboard writes need, so those writes - above ''
       @ ''all restored real values - would be captured by clipboard history and ''
       @ ''cloud-sync tools. Compositor extensions such as ext-data-control-v1 exist ''
       @ ''on some compositors but are not supported in this version. Wayland'' @ quote @ ''s core ''
       @ ''protocol also does not let a background process subscribe to clipboard ''
       @ ''changes made by other applications, so the daemon cannot detect a copy in ''
       @ ''time to scrub it. Continuing would silently give you weaker protection ''
       @ ''than the terminal path.'',
     [],
     ''Alternatives that still work:''] @ terminal_alternatives @
    [[],
     ''Documented limitation; not fixable inside Invisibool alone. See ''
       @ ''docs/THREAT_MODEL.md row 17.'']"

definition headless_refusal :: "string list" where
  "headless_refusal =
    [''error: `invisibool watch` requires a display server (no DISPLAY or ''
       @ ''WAYLAND_DISPLAY environment variable was set).'',
     [],
     ''If you are on a headless server, in a container without display forwarding, ''
       @ ''or in a systemd unit that inherits no session, the daemon cannot function. ''
       @ ''Use terminal scrub / restore instead:'',
     []] @ terminal_alternatives"

definition not_yet_implemented :: "string list" where
  "not_yet_implemented =
    [''error: `invisibool watch` is not yet implemented on this platform.'',
     [],
     ''The daemon and its clipboard backends land in a future release. Until then, ''
       @ ''use terminal scrub / restore:'',
     []] @ terminal_alternatives"

definition cli_watch :: "env_vars \<Rightarrow> ('w, 'k) cli_state \<Rightarrow> ('w, 'k, nat) cli" where
  "cli_watch vars st =
     (case detect_display_server vars of
        Wayland \<Rightarrow>
          let wayland_display = env_var vars ''WAYLAND_DISPLAY'';
              display_hint =
                (if wayland_display = [] then ''(detected via XDG_SESSION_TYPE=wayland)''
                 else ''(detected via WAYLAND_DISPLAY='' @ wayland_display @ '')'')
          in Some (say_err (join_with newline (wayland_refusal display_hint)) st, Inr 6)
      | Headless \<Rightarrow> Some (say_err (join_with newline headless_refusal) st, Inr 6)
      | X11 \<Rightarrow> Some (say_err (join_with newline not_yet_implemented) st, Inr 7)
      | NativeDesktop \<Rightarrow> Some (say_err (join_with newline not_yet_implemented) st, Inr 7))"

section \<open>run\<close>

datatype Command =
    CmdRegister string
  | CmdList
  | CmdForget string
  | CmdScrub "path option" "path option"
  | CmdRestore "path option" "path option"
  | CmdStatus "path option"
  | CmdWatch

record Cli =
  cl_vault :: "path option"
  cl_command :: Command

text \<open>What a process sees besides the vault: variables, standard input, the terminal, files, clock, socket.\<close>

record 'w process =
  pr_vars :: env_vars
  pr_stdin :: "io_error + u8 list"
  pr_is_terminal :: bool
  pr_prompt :: "io_error + string"
  pr_open_and_read :: "'w \<Rightarrow> path \<Rightarrow> io_error + u8 list"
  pr_since_epoch :: "u64 option"
  pr_json :: wire_json
  pr_show_value :: "json \<Rightarrow> string"
  pr_connect :: "path \<Rightarrow> io_error + conn"
  pr_peer :: "u8 list \<Rightarrow> u8 list"

definition exit_code :: "std_fmt \<Rightarrow> ('w, 'k, nat) cli \<Rightarrow> (('w, 'k) cli_state \<times> nat) run" where
  "exit_code fmt result =
     map_option (\<lambda>(st, r). case r of
         Inr code \<Rightarrow> (st, code)
       | Inl e \<Rightarrow> (say_err (''error: '' @ display_command_error fmt e) st, 3)) result"

text \<open>Reading what a command needs may end the process with code 3 before the command starts.\<close>

definition with_read ::
  "std_fmt \<Rightarrow> string \<Rightarrow> io_error + string \<Rightarrow> (string \<Rightarrow> ('w, 'k, nat) cli) \<Rightarrow> ('w, 'k) cli_state \<Rightarrow> ('w, 'k, nat) cli" where
  "with_read fmt failed r f st =
     (case r of
        Inl e \<Rightarrow> Some (say_err (''error: '' @ failed @ '': '' @ fmt_io fmt e) st, Inr 3)
      | Inr t \<Rightarrow> f t)"

text \<open>\<open>eprintln!\<close>, unlike \<open>writeln!(stderr, ...).ok()\<close>, panics when standard error cannot be written.\<close>

definition eprint_line :: "string \<Rightarrow> ('w, 'k) cli_state \<Rightarrow> nat \<Rightarrow> (('w, 'k) cli_state \<times> nat) run" where
  "eprint_line line st code =
     (case sink_write (cs_err st) (line @ newline) of
        (s, Inl _) \<Rightarrow> panic
      | (s, Inr _) \<Rightarrow> Some (st\<lparr>cs_err := s\<rparr>, code))"

definition cli_run ::
  "('w, 'k) cli_env \<Rightarrow> 'w process \<Rightarrow> Cli \<Rightarrow> ('w, 'k) cli_state \<Rightarrow> (('w, 'k) cli_state \<times> nat) run" where
  "cli_run env pr cli st =
     (case resolve_vault_path (pr_vars pr) (cl_vault cli) of
        Inl msg \<Rightarrow> eprint_line (''error: '' @ msg) st 3
      | Inr vault_path \<Rightarrow>
          (let fmt = ce_fmt env;
               input = read_input (pr_open_and_read pr) (pr_stdin pr) (cs_world st)
           in exit_code fmt
                (case cl_command cli of
                   CmdRegister label \<Rightarrow>
                     with_read fmt ''failed to read secret from stdin''
                       (read_secret (pr_is_terminal pr) (pr_prompt pr) (pr_stdin pr))
                       (\<lambda>value. cli_register env vault_path label value st) st
                 | CmdList \<Rightarrow> cli_list env vault_path st
                 | CmdForget label \<Rightarrow> cli_forget env vault_path label st
                 | CmdScrub f session \<Rightarrow>
                     with_read fmt ''failed to read scrub input'' (input f)
                       (\<lambda>t. cli_scrub env vault_path t session (now_epoch_secs (pr_since_epoch pr)) st) st
                 | CmdRestore f session \<Rightarrow>
                     with_read fmt ''failed to read restore input'' (input f)
                       (\<lambda>t. cli_restore env vault_path t session (now_epoch_secs (pr_since_epoch pr)) st) st
                 | CmdStatus sock \<Rightarrow>
                     cli_status (pr_json pr) (pr_show_value pr) fmt (pr_vars pr) (pr_connect pr) (pr_peer pr) sock st
                 | CmdWatch \<Rightarrow> cli_watch (pr_vars pr) st)))"

text \<open>The real surroundings: the operating system's files and its key storage.\<close>

definition default_env ::
  "crates \<Rightarrow> VaultContents serde \<Rightarrow> SessionContents serde \<Rightarrow> os_env \<Rightarrow> 'k keyring_crate \<Rightarrow> (nat \<Rightarrow> rng) \<Rightarrow> order
   \<Rightarrow> instant \<Rightarrow> std_fmt \<Rightarrow> (machine, 'k) cli_env" where
  "default_env c vsd ssd os kr rng ord now fmt =
     \<lparr>ce_crates = c, ce_vault_serde = vsd, ce_session_serde = ssd, ce_io = StdVaultIo os,
      ce_kc = os_backend kr, ce_wipe = wipe_session_file os, ce_rng = rng, ce_order = ord,
      ce_instant = now, ce_fmt = fmt\<rparr>"

definition run_with_defaults ::
  "crates \<Rightarrow> VaultContents serde \<Rightarrow> SessionContents serde \<Rightarrow> os_env \<Rightarrow> 'k keyring_crate \<Rightarrow> (nat \<Rightarrow> rng) \<Rightarrow> order
   \<Rightarrow> instant \<Rightarrow> std_fmt \<Rightarrow> machine process \<Rightarrow> Cli \<Rightarrow> (machine, 'k) cli_state
   \<Rightarrow> ((machine, 'k) cli_state \<times> nat) run" where
  "run_with_defaults c vsd ssd os kr rng ord now fmt pr cli st =
     cli_run (default_env c vsd ssd os kr rng ord now fmt) pr cli st"

text \<open>\<open>main\<close>: clap either parses the arguments or prints its own message and exits with its code.\<close>

definition main_exit ::
  "crates \<Rightarrow> VaultContents serde \<Rightarrow> SessionContents serde \<Rightarrow> os_env \<Rightarrow> 'k keyring_crate \<Rightarrow> (nat \<Rightarrow> rng) \<Rightarrow> order
   \<Rightarrow> instant \<Rightarrow> std_fmt \<Rightarrow> machine process \<Rightarrow> nat + Cli \<Rightarrow> (machine, 'k) cli_state
   \<Rightarrow> ((machine, 'k) cli_state \<times> nat) run" where
  "main_exit c vsd ssd os kr rng ord now fmt pr parsed st =
     (case parsed of
        Inl code \<Rightarrow> Some (st, code)
      | Inr cli \<Rightarrow> run_with_defaults c vsd ssd os kr rng ord now fmt pr cli st)"


section \<open>What an exit code says\<close>

text \<open>
  Standard error as a run leaves it: more text, and some text if it takes any at all. Standard output
  as a failing \<open>write_all\<close> leaves it: the part of the text for which there was room.
\<close>

definition takes_more :: "sink \<Rightarrow> bool" where
  "takes_more s \<longleftrightarrow> (case sk_fault s of None \<Rightarrow> True | Some (room, _) \<Rightarrow> room > 0)"

definition err_grows :: "('w, 'k) cli_state \<Rightarrow> ('w, 'k) cli_state \<Rightarrow> bool" where
  "err_grows st st' \<longleftrightarrow>
     (\<exists>t. sk_text (cs_err st') = sk_text (cs_err st) @ t \<and> (takes_more (cs_err st) \<longrightarrow> t \<noteq> []))"

definition err_kept :: "('w, 'k) cli_state \<Rightarrow> ('w, 'k) cli_state \<Rightarrow> bool" where
  "err_kept st st' \<longleftrightarrow>
     (\<exists>t. sk_text (cs_err st') = sk_text (cs_err st) @ t
        \<and> (t = [] \<longrightarrow> takes_more (cs_err st) \<longrightarrow> takes_more (cs_err st')))"

definition cut_short :: "sink \<Rightarrow> sink \<Rightarrow> bool" where
  "cut_short s s' \<longleftrightarrow>
     (\<exists>room e t. sk_fault s = Some (room, e) \<and> room < length t \<and> sk_text s' = sk_text s @ take room t)"

text \<open>
  \<open>codes\<close> are the codes a command may give; an error still to be reported leaves standard output alone,
  unless the command prints text and the write of the text is the error.
\<close>

definition result_ok :: "bool \<Rightarrow> nat set \<Rightarrow> ('w, 'k) cli_state \<Rightarrow> ('w, 'k, nat) cli \<Rightarrow> bool" where
  "result_ok prints codes st outcome \<longleftrightarrow>
     (case outcome of
        None \<Rightarrow> True
      | Some (st', Inl e) \<Rightarrow> err_kept st st'
          \<and> (cs_out st' = cs_out st \<or> prints \<and> cut_short (cs_out st) (cs_out st'))
      | Some (st', Inr code) \<Rightarrow> code \<in> codes \<and> err_kept st st'
          \<and> (code \<noteq> 0 \<longrightarrow> cs_out st' = cs_out st \<and> err_grows st st'))"

lemma newline_not_nil [simp]: "newline \<noteq> []"
  by (simp add: newline_def)

lemma err_kept_refl [simp]: "err_kept st st"
  by (simp add: err_kept_def)

lemma err_kept_trans: "err_kept st st1 \<Longrightarrow> err_kept st1 st2 \<Longrightarrow> err_kept st st2"
  by (auto simp: err_kept_def)

lemma say_err_grows: "err_kept st st' \<Longrightarrow> err_grows st (say_err l st')"
  by (auto simp: err_kept_def err_grows_def takes_more_def say_err_def sink_write_def split: option.splits prod.splits)

lemma err_grows_kept: "err_grows st st' \<Longrightarrow> err_kept st st'"
  by (auto simp: err_grows_def err_kept_def)

lemma say_out_simps [simp]:
  "cs_err (say_out l st) = cs_err st" "cs_out (say_err l st) = cs_out st"
  "cs_world (say_out l st) = cs_world st" "cs_world (say_err l st) = cs_world st"
  by (simp_all add: say_out_def say_err_def)

lemma say_errs_simps [simp]:
  "cs_out (fold (\<lambda>n. say_err (f n)) ns st) = cs_out st" "cs_world (fold (\<lambda>n. say_err (f n)) ns st) = cs_world st"
  by (induction ns arbitrary: st) simp_all

lemma err_kept_out [simp]: "err_kept st (say_out l st') = err_kept st st'"
  by (simp add: err_kept_def)

lemma err_kept_fold [simp]: "err_kept st (fold (\<lambda>m. say_out (f m)) ms st') = err_kept st st'"
  by (induction ms arbitrary: st') simp_all

lemma say_err_kept: "err_kept st st' \<Longrightarrow> err_kept st (say_err l st')"
  by (rule err_grows_kept [OF say_err_grows])

lemma say_errs_kept: "err_kept st st' \<Longrightarrow> err_kept st (fold (\<lambda>n. say_err (f n)) ns st')"
  by (induction ns arbitrary: st') (simp_all add: say_err_kept)

lemma err_kept_world [simp]:
  "err_kept st (st'\<lparr>cs_world := w\<rparr>) = err_kept st st'" "err_kept st (st'\<lparr>cs_keys := k\<rparr>) = err_kept st st'"
  "err_kept st (st'\<lparr>cs_out := s\<rparr>) = err_kept st st'"
  by (simp_all add: err_kept_def)

text \<open>A step that leaves standard output alone, and what follows it.\<close>

definition quiet :: "('w, 'k) cli_state \<Rightarrow> ('w, 'k, 'a) cli \<Rightarrow> bool" where
  "quiet st outcome \<longleftrightarrow> (\<forall>st' r. outcome = Some (st', r) \<longrightarrow> cs_out st' = cs_out st \<and> err_kept st st')"

lemma quiet_then:
  assumes "quiet st r" "\<And>a st'. cs_out st' = cs_out st \<Longrightarrow> err_kept st st' \<Longrightarrow> result_ok pr codes st (f a st')"
  shows "result_ok pr codes st (try_run r f)"
proof (cases r)
  case None
  then show ?thesis by (simp add: result_ok_def try_run_def)
next
  case (Some sr)
  obtain st1 r1 where sr: "sr = (st1, r1)" by fastforce
  have "cs_out st1 = cs_out st" "err_kept st st1"
    using assms(1) Some sr by (simp_all add: quiet_def)
  then show ?thesis
    using assms(2) Some sr by (cases r1) (simp_all add: result_ok_def try_run_def)
qed

lemma quiet_try:
  assumes "quiet st r" "\<And>a st'. cs_out st' = cs_out st \<Longrightarrow> err_kept st st' \<Longrightarrow> quiet st (f a st')"
  shows "quiet st (try_run r f)"
proof (cases r)
  case None
  then show ?thesis by (simp add: quiet_def try_run_def)
next
  case (Some sr)
  obtain st1 r1 where sr: "sr = (st1, r1)" by fastforce
  have "cs_out st1 = cs_out st" "err_kept st st1"
    using assms(1) Some sr by (simp_all add: quiet_def)
  note next_quiet = assms(2) [OF this]
  show ?thesis
  proof (cases r1)
    case (Inl e)
    then show ?thesis
      using assms(1) Some sr by (simp add: quiet_def try_run_def)
  next
    case (Inr a)
    then show ?thesis
      using next_quiet [of a] Some sr by (simp add: try_run_def)
  qed
qed

lemma quiet_steps:
  assumes "cs_out st' = cs_out st" "err_kept st st'"
  shows "quiet st (cli_open env n p st')" "quiet st (cli_save env n p v st')" "quiet st (cli_engine env v st')"
    "quiet st (cli_load_session env v sp now st')" "quiet st (cli_save_session env n v sp contents st')"
    "quiet st (Some (st', r))" "quiet st (map_option (\<lambda>r. (st', g r)) x)"
  using assms
  by (auto simp: quiet_def cli_open_def cli_save_def cli_engine_def cli_load_session_def cli_save_session_def)

lemma result_okI:
  "cs_out st' = cs_out st \<Longrightarrow> err_kept st st' \<Longrightarrow> code \<in> codes \<Longrightarrow>
     result_ok pr codes st (Some (say_err l st', Inr code))"
  "err_kept st st' \<Longrightarrow> 0 \<in> codes \<Longrightarrow> result_ok pr codes st (Some (st', Inr 0))"
  by (auto simp: result_ok_def say_err_grows say_err_kept)

lemma register_result: "result_ok False {0, 5} st (cli_register env p l value st)"
  unfolding cli_register_def
proof (rule quiet_then [OF quiet_steps(1)])
  fix v st1
  assume st1: "cs_out st1 = cs_out st" "err_kept st st1"
  show "result_ok False {0, 5} st
    (if list_ex (\<lambda>l'. l' = l) (vault_labels v) then Some (say_err (already_registered l) st1, Inr 5)
     else do {
       (kind, st) \<leftarrow> dispatch_kind env l value st1;
       try_run (cli_save env 2 p (vault_register v \<lparr>ve_label = l, ve_value = value, ve_kind = kind\<rparr>) st)
         (\<lambda>_ st. Some (say_out (''registered '' @ quoted l) st, Inr 0))
     })"
  proof (cases "dispatch_kind env l value st1")
    case None
    then show ?thesis
      using st1 by (simp add: result_okI) (simp add: result_ok_def)
  next
    case (Some ks)
    obtain kind st2 where ks: "ks = (kind, st2)"
      by fastforce
    have "cs_out st2 = cs_out st" "err_kept st st2"
      using Some ks st1 by (auto simp: dispatch_kind_def say_err_kept split: sum.splits Option.bind_splits)
    then have "result_ok False {0, 5} st
      (try_run (cli_save env 2 p (vault_register v \<lparr>ve_label = l, ve_value = value, ve_kind = kind\<rparr>) st2)
        (\<lambda>_ st. Some (say_out (''registered '' @ quoted l) st, Inr 0)))"
      by (intro quiet_then [OF quiet_steps(2)] result_okI) simp_all
    then show ?thesis
      using st1 Some ks by (simp add: result_okI)
  qed
qed simp_all

lemma list_result: "result_ok False {0} st (cli_list env p st)"
  unfolding cli_list_def
  by (rule quiet_then [OF quiet_steps(1)]) (simp_all add: Let_def result_okI)

lemma forget_result: "result_ok False {0, 4} st (cli_forget env p l st)"
  unfolding cli_forget_def
proof (rule quiet_then [OF quiet_steps(1)])
  fix v st1
  assume st1: "cs_out st1 = cs_out st" "err_kept st st1"
  obtain v' removed where f: "vault_forget v l = (v', removed)"
    by fastforce
  have "result_ok False {0, 4} st
      (try_run (cli_save env 1 p v' st1) (\<lambda>_ st. Some (say_out (''forgot '' @ quoted l) st, Inr 0)))"
    using st1 by (intro quiet_then [OF quiet_steps(2)] result_okI) simp_all
  then show "result_ok False {0, 4} st
    (case vault_forget v l of (v, removed) \<Rightarrow>
       if \<not> removed then Some (say_err (''error: no entry with label '' @ quoted l) st1, Inr 4)
       else try_run (cli_save env 1 p v st1) (\<lambda>_ st. Some (say_out (''forgot '' @ quoted l) st, Inr 0)))"
    using st1 by (simp add: f result_okI)
qed simp_all


lemma scrub_session_quiet:
  assumes "cs_out st' = cs_out st" "err_kept st st'"
  shows "quiet st (scrub_through_session env v engine input sp now st')"
  unfolding scrub_through_session_def
proof (rule quiet_try [OF quiet_steps(4) [OF assms]])
  fix existing st1
  assume st1: "cs_out st1 = cs_out st" "err_kept st st1"
  obtain contents ttl where c: "(case existing of
         Some c \<Rightarrow> (c, saturating_sub (sn_expires_at c) now)
       | None \<Rightarrow> (new_at now, SESSION_TTL_SECS)) = (contents, ttl)"
    by fastforce
  have "quiet st (try_run (cli_save_session env 1 v sp contents' st1) (\<lambda>_ st. Some (st, Inr r)))" for contents' r
    by (rule quiet_try [OF quiet_steps(5) [OF st1]]) (rule quiet_steps(6))
  then show "quiet st
    (case (case existing of
         Some c \<Rightarrow> (c, saturating_sub (sn_expires_at c) now)
       | None \<Rightarrow> (new_at now, SESSION_TTL_SECS)) of
       (contents, ttl_secs_remaining) \<Rightarrow>
       do {
         (r, session) \<leftarrow> scrub_with_session (ce_crates env) (ce_order env) engine input
           (seed_map env contents ttl_secs_remaining) (ce_instant env);
         try_run
           (cli_save_session env 1 v sp
             (contents\<lparr>sn_entries := map (\<lambda>(fake, r). \<lparr>sp_fake = fake, sp_real = r\<rparr>)
                (entries (ce_order env) session)\<rparr>) st1)
           (\<lambda>_ st. Some (st, Inr r))
       })"
    unfolding c
    by (cases "scrub_with_session (ce_crates env) (ce_order env) engine input
        (seed_map env contents ttl) (ce_instant env)")
      (auto simp: quiet_def [of _ None] split: prod.split)
qed

lemma wipe_session_quiet:
  assumes "cs_out st' = cs_out st" "err_kept st st'"
  shows "cs_out (wipe_session env sp st') = cs_out st" "err_kept st (wipe_session env sp st')"
  using assms by (auto simp: wipe_session_def say_err_kept split: prod.split sum.split)

lemma restore_session_quiet:
  assumes "cs_out st' = cs_out st" "err_kept st st'"
  shows "quiet st (restore_through_session env v engine input sp now st')"
  unfolding restore_through_session_def
proof (rule quiet_try [OF quiet_steps(4) [OF assms]])
  fix loaded st1
  assume st1: "cs_out st1 = cs_out st" "err_kept st st1"
  note wiped = wipe_session_quiet [OF st1]
  show "quiet st
    (case loaded of
       None \<Rightarrow> Some (st1, Inl (session_not_found sp))
     | Some contents \<Rightarrow>
         let total_entries = length (sn_entries contents);
             present_entries = length (filter (\<lambda>p. str_contains input (sp_fake p)) (sn_entries contents));
             unused = total_entries - present_entries
         in do {
              (r, _) \<leftarrow> restore_with_session (ce_crates env) (ce_order env) engine input
                (seed_map env contents (saturating_sub (sn_expires_at contents) now)) (ce_instant env);
              Some (wipe_session env sp st1, Inr (r, unused))
            })"
    using st1 wiped by (auto simp: quiet_def Let_def split: option.splits Option.bind_splits)
qed

text \<open>Once the text is written, only lines on standard error follow and the code is 0.\<close>

lemma cut_shortI:
  "sk_fault s = Some (room, e) \<Longrightarrow> \<not> length t \<le> room \<Longrightarrow>
     cut_short s (s\<lparr>sk_text := sk_text s @ take room t, sk_fault := Some (0, e)\<rparr>)"
  unfolding cut_short_def by force

lemma output_result:
  assumes "cs_out st' = cs_out st" "err_kept st st'" "0 \<in> codes" "\<And>st1. err_kept st st1 \<Longrightarrow> err_kept st (f st1)"
  shows "result_ok True codes st (try_run (write_output t st') (\<lambda>_ st. Some (f st, Inr 0)))"
  using assms cut_shortI
  by (auto simp: write_output_def sink_write_def try_run_def result_ok_def map_err_def split: option.split)

lemma scrub_result: "result_ok True {0} st (cli_scrub env p input sp now st)"
proof -
  have body: "quiet st (case sp of
      None \<Rightarrow> map_option (\<lambda>r. (st1, Inr r)) (engine_scrub (ce_crates env) engine input)
    | Some sp \<Rightarrow> scrub_through_session env v engine input sp now st1)"
    if "cs_out st1 = cs_out st" "err_kept st st1" for st1 engine v
    using quiet_steps(7) [OF that] scrub_session_quiet [OF that] by (cases sp) simp_all
  have written: "result_ok True {0} st (try_run (write_output (sc_output r) st1) (\<lambda>_ st.
       Some (say_err (''scrubbed '' @ show_nat (scrubbed_count r) @ '' value(s)'')
               (fold (\<lambda>n. say_err (format_notice n)) (notices r) st), Inr 0)))"
    if "cs_out st1 = cs_out st" "err_kept st st1" for st1 r
    by (rule output_result [OF that]) (simp_all add: say_err_kept say_errs_kept)
  show ?thesis
    unfolding cli_scrub_def
    by (rule quiet_then [OF quiet_steps(1) [OF refl err_kept_refl]], rule quiet_then [OF quiet_steps(3)],
        assumption, assumption, rule quiet_then [OF body], assumption, assumption, rule written)
qed

lemma restore_result: "result_ok True {0} st (cli_restore env p input sp now st)"
proof -
  have body: "quiet st (case sp of
      None \<Rightarrow> map_option (\<lambda>r. (st1, Inr (r, 0))) (engine_restore (ce_crates env) engine input)
    | Some sp \<Rightarrow> restore_through_session env v engine input sp now st1)"
    if "cs_out st1 = cs_out st" "err_kept st st1" for st1 engine v
    using quiet_steps(7) [OF that] restore_session_quiet [OF that] by (cases sp) simp_all
  have written: "result_ok True {0} st ((case ru of (result, unused_entries) \<Rightarrow> (\<lambda>st.
     try_run (write_output (rs_output result) st) (\<lambda>_ st.
       let st = say_err (''restored '' @ show_nat (restored_count result) @ '' value(s)'') st in
       Some (if unused_entries > 0
             then say_err (show_nat unused_entries @ '' session entr''
                    @ (if unused_entries = 1 then ''y'' else ''ies'')
                    @ '' not present in this input, discarded with the session file.'') st
             else st, Inr 0)))) st1)"
    if "cs_out st1 = cs_out st" "err_kept st st1" for st1 and ru :: "EngineRestoreResult \<times> nat"
    unfolding case_prod_unfold Let_def
    by (rule output_result [OF that]) (simp_all add: say_err_kept)
  show ?thesis
    unfolding cli_restore_def
    by (rule quiet_then [OF quiet_steps(1) [OF refl err_kept_refl]], rule quiet_then [OF quiet_steps(3)],
        assumption, assumption, rule quiet_then [OF body], assumption, assumption, rule written)
qed

lemma status_result: "result_ok False {0, 3} st (cli_status js show fmt vars connect peer sock st)"
proof -
  have "result_ok False {0, 3} st (Some (case reply of
      Inr (ROk v) \<Rightarrow> (case status_from_value js v of
           Inr d \<Rightarrow> (say_out (a d) st, Inr 0)
         | Inl _ \<Rightarrow> (say_err (b v) st, Inr 3))
    | Inr (RErr payload) \<Rightarrow> (say_err (c payload) st, Inr 3)
    | Inl e \<Rightarrow> (case e of
           CIo x \<Rightarrow> if g x then (say_out l st, Inr 0) else (say_err (d e) st, Inr 3)
         | _ \<Rightarrow> (say_err (d e) st, Inr 3))))" for reply a b c d l g
    by (auto simp: result_okI split: sum.split Response.split ControlError.split)
  note replies = this
  show ?thesis
    unfolding cli_status_def
    by (auto simp: result_okI replies result_ok_def [of _ _ _ None] split: sum.split Option.bind_split)
qed

lemma watch_result: "result_ok False {6, 7} st (cli_watch vars st)"
  unfolding cli_watch_def by (auto simp: Let_def result_okI split: DisplayServer.split)

lemmas command_results = register_result list_result forget_result scrub_result restore_result
  status_result watch_result

text \<open>The codes the table at the head of \<open>commands.rs\<close> gives each command, 3 for errors included.\<close>

fun documented_codes :: "Command \<Rightarrow> nat set" where
  "documented_codes (CmdRegister l) = {0, 3, 5}"
| "documented_codes CmdList = {0, 3}"
| "documented_codes (CmdForget l) = {0, 3, 4}"
| "documented_codes (CmdScrub f s) = {0, 3}"
| "documented_codes (CmdRestore f s) = {0, 3}"
| "documented_codes (CmdStatus s) = {0, 3}"
| "documented_codes CmdWatch = {3, 6, 7}"

fun prints_text :: "Command \<Rightarrow> bool" where
  "prints_text (CmdScrub f s) = True"
| "prints_text (CmdRestore f s) = True"
| "prints_text _ = False"

lemma result_ok_mono: "result_ok pr codes st r \<Longrightarrow> codes \<subseteq> codes' \<Longrightarrow> result_ok pr codes' st r"
  unfolding result_ok_def by (auto split: option.splits sum.splits)

lemma with_read_result:
  assumes "\<And>t. result_ok pr codes st (f t)"
  shows "result_ok pr (insert 3 codes) st (with_read fmt failed r f st)"
  using result_ok_mono [OF assms, of "insert 3 codes"]
  by (cases r) (auto simp: with_read_def result_okI)

lemma exit_code_result:
  assumes "result_ok pr codes st r" "exit_code fmt r = Some (st', code)"
  shows "code \<in> insert 3 codes
    \<and> (code \<noteq> 0 \<longrightarrow> err_grows st st'
      \<and> (cs_out st' = cs_out st \<or> code = 3 \<and> pr \<and> cut_short (cs_out st) (cs_out st')))"
  using assms by (auto simp: exit_code_def result_ok_def say_err_grows split: sum.splits)

lemma cli_run_codes:
  assumes run: "cli_run env pr cli st = Some (st', code)"
  shows "code \<in> documented_codes (cl_command cli) \<and> (code \<noteq> 0 \<longrightarrow> err_grows st st'
      \<and> (cs_out st' = cs_out st
         \<or> code = 3 \<and> prints_text (cl_command cli) \<and> cut_short (cs_out st) (cs_out st')))"
proof (cases "resolve_vault_path (pr_vars pr) (cl_vault cli)")
  case (Inl msg)
  then have "eprint_line (''error: '' @ msg) st 3 = Some (st', code)"
    using run by (simp add: cli_run_def)
  then have "code = 3" "st' = say_err (''error: '' @ msg) st"
    by (auto simp: eprint_line_def say_err_def split: prod.splits sum.splits)
  then show ?thesis
    by (cases "cl_command cli") (auto intro: say_err_grows)
next
  case (Inr p)
  define outcome where "outcome = (case cl_command cli of
       CmdRegister label \<Rightarrow>
         with_read (ce_fmt env) ''failed to read secret from stdin''
           (read_secret (pr_is_terminal pr) (pr_prompt pr) (pr_stdin pr))
           (\<lambda>value. cli_register env p label value st) st
     | CmdList \<Rightarrow> cli_list env p st
     | CmdForget label \<Rightarrow> cli_forget env p label st
     | CmdScrub f session \<Rightarrow>
         with_read (ce_fmt env) ''failed to read scrub input''
           (read_input (pr_open_and_read pr) (pr_stdin pr) (cs_world st) f)
           (\<lambda>t. cli_scrub env p t session (now_epoch_secs (pr_since_epoch pr)) st) st
     | CmdRestore f session \<Rightarrow>
         with_read (ce_fmt env) ''failed to read restore input''
           (read_input (pr_open_and_read pr) (pr_stdin pr) (cs_world st) f)
           (\<lambda>t. cli_restore env p t session (now_epoch_secs (pr_since_epoch pr)) st) st
     | CmdStatus sock \<Rightarrow>
         cli_status (pr_json pr) (pr_show_value pr) (ce_fmt env) (pr_vars pr) (pr_connect pr) (pr_peer pr) sock st
     | CmdWatch \<Rightarrow> cli_watch (pr_vars pr) st)"
  have exit: "exit_code (ce_fmt env) outcome = Some (st', code)"
    using run Inr unfolding outcome_def by (simp add: cli_run_def Let_def)
  have "result_ok (prints_text (cl_command cli)) (documented_codes (cl_command cli)) st outcome"
    unfolding outcome_def
    by (cases "cl_command cli")
      (auto intro: result_ok_mono [OF with_read_result] result_ok_mono [OF forget_result]
        result_ok_mono [OF list_result] result_ok_mono [OF watch_result] status_result command_results)
  note exit_code_result [OF this exit]
  moreover have "3 \<in> documented_codes (cl_command cli)"
    by (cases "cl_command cli") simp_all
  ultimately show ?thesis
    by auto
qed

text \<open>
  (C28) \<^bold>\<open>Exit codes and the two outputs.\<close> A run that does not panic gives a code that the table of
  \<open>commands.rs\<close> lists for its command. With any code but 0 something was written to standard error, if
  that takes anything at all, and nothing to standard output, with one exception: a \<open>scrub\<close> or \<open>restore\<close>
  whose text standard output did not take in full gives 3 and leaves the part for which there was
  room. Without a vault location every command, also \<open>status\<close> and \<open>watch\<close>, which do not use the vault,
  reports that and gives 3; here the report is an \<open>eprintln!\<close>, and the run panics if it cannot be
  written.
\<close>

theorem cli_run_exit_codes:
  "(\<forall>st' code. cli_run env pr cli st = Some (st', code) \<longrightarrow>
      code \<in> documented_codes (cl_command cli)
      \<and> (code \<noteq> 0 \<longrightarrow> err_grows st st'
        \<and> (cs_out st' = cs_out st
           \<or> code = 3 \<and> prints_text (cl_command cli) \<and> cut_short (cs_out st) (cs_out st'))))
   \<and> (cl_vault cli = None \<and> default_vault_path (pr_vars pr) = None \<longrightarrow>
      (\<exists>msg. resolve_vault_path (pr_vars pr) None = Inl msg
        \<and> cli_run env pr cli st =
            (case sink_write (cs_err st) (''error: '' @ msg @ newline) of
               (err, Inr ()) \<Rightarrow> Some (st\<lparr>cs_err := err\<rparr>, 3)
             | (err, Inl _) \<Rightarrow> None)))"
proof (rule conjI)
  show "cl_vault cli = None \<and> default_vault_path (pr_vars pr) = None \<longrightarrow>
      (\<exists>msg. resolve_vault_path (pr_vars pr) None = Inl msg
        \<and> cli_run env pr cli st =
            (case sink_write (cs_err st) (''error: '' @ msg @ newline) of
               (err, Inr ()) \<Rightarrow> Some (st\<lparr>cs_err := err\<rparr>, 3)
             | (err, Inl _) \<Rightarrow> None))"
  proof
    assume none: "cl_vault cli = None \<and> default_vault_path (pr_vars pr) = None"
    then obtain msg where msg: "resolve_vault_path (pr_vars pr) None = Inl msg"
      by (simp add: resolve_vault_path_def ok_or_def)
    with none have "cli_run env pr cli st = eprint_line (''error: '' @ msg) st 3"
      by (simp add: cli_run_def)
    then have "cli_run env pr cli st =
        (case sink_write (cs_err st) (''error: '' @ msg @ newline) of
           (err, Inr ()) \<Rightarrow> Some (st\<lparr>cs_err := err\<rparr>, 3)
         | (err, Inl _) \<Rightarrow> None)"
      by (simp add: eprint_line_def split: prod.split sum.split unit.split)
    with msg show "\<exists>msg. resolve_vault_path (pr_vars pr) None = Inl msg
        \<and> cli_run env pr cli st =
            (case sink_write (cs_err st) (''error: '' @ msg @ newline) of
               (err, Inr ()) \<Rightarrow> Some (st\<lparr>cs_err := err\<rparr>, 3)
             | (err, Inl _) \<Rightarrow> None)"
      by blast
  qed
qed (simp add: cli_run_codes)

end
