(* ===== verification/Registry.thy ===== *)
theory Registry
  imports CliRun
begin

text \<open>
  The registry commands refine a map: over any number of processes that run \<open>register\<close>, \<open>forget\<close> and
  \<open>list\<close> on one vault, the exit codes and the stored entries are those of a map from labels to
  values with their dispatch. \<open>stored\<close> says what is in the key storage and in the vault file between
  two processes.
\<close>

section \<open>What is stored between two processes\<close>

definition stored ::
  "('w \<Rightarrow> bool) \<Rightarrow> ('w \<Rightarrow> path \<Rightarrow> u8 list option) \<Rightarrow> ('w, 'k) cli_env \<Rightarrow> path \<Rightarrow> Vault \<Rightarrow> ('w, 'k) cli_state \<Rightarrow> bool" where
  "stored sound content env p v st \<longleftrightarrow>
     sound (cs_world st) \<and> kb_fetch (ce_kc env) (cs_keys st) VaultKey = Inr (Some (v_key v))
     \<and> (case content (cs_world st) p of
          None \<Rightarrow> v_contents v = default_contents
        | Some bytes \<Rightarrow> decrypt_vault (ce_crates env) (ce_vault_serde env) (v_key v) bytes
            = Some (Inr (v_contents v)))"

abbreviation stored_on_disk :: "(machine, 'k) cli_env \<Rightarrow> path \<Rightarrow> Vault \<Rightarrow> (machine, 'k) cli_state \<Rightarrow> bool" where
  "stored_on_disk \<equiv> stored (\<lambda>m. fs_ok (disk m)) (\<lambda>m. content_at (disk m))"

lemma stored_output [simp]:
  "stored sound content env p v (say_out l st) = stored sound content env p v st"
  "stored sound content env p v (say_err l st) = stored sound content env p v st"
  "stored sound content env p v (fold (\<lambda>m. say_out (f m)) ms st) = stored sound content env p v st"
proof -
  show 1: "stored sound content env p v (say_out l st) = stored sound content env p v st" for l st
    by (simp add: stored_def say_out_def)
  show "stored sound content env p v (say_err l st) = stored sound content env p v st"
    by (simp add: stored_def say_err_def)
  show "stored sound content env p v (fold (\<lambda>m. say_out (f m)) ms st) = stored sound content env p v st"
    by (induction ms arbitrary: st) (simp_all add: 1)
qed

text \<open>The layers under the commands work: sealing, JSON and a random source that never fails.\<close>

definition env_ok :: "('w, 'k) cli_env \<Rightarrow> bool" where
  "env_ok env \<longleftrightarrow> serde_contract (\<lambda>_. True) (ce_vault_serde env)
     \<and> (\<forall>n. sealing_ok (ce_crates env) (ce_rng env n)) \<and> (\<forall>n k. ce_rng env n k \<noteq> None)"

lemma env_okD:
  assumes "env_ok env"
  shows "serde_contract (\<lambda>_. True) (ce_vault_serde env)" "sealing_ok (ce_crates env) (ce_rng env n)"
    "\<exists>bs. os_random (ce_rng env n) k = Some bs" "hkdf_contract (ce_crates env)"
  using assms by (auto simp: env_ok_def os_random_def sealing_ok_def split: option.split)

definition lost_parent_sync :: "CommandError \<Rightarrow> bool" where
  "lost_parent_sync e \<longleftrightarrow> (\<exists>x. e = CVault (VAtomicWrite (AtParentFsync x)))"

lemma encrypt_vault_returns:
  assumes "env_ok env"
  shows "\<exists>r. encrypt_vault (ce_crates env) (ce_rng env n) vk plain = Some r"
proof -
  obtain k where "derive_aead_key (ce_crates env) vk = Some k"
    using env_okD(4) [OF assms] by (rule derive_aead_key_ok)
  moreover obtain nonce where "os_random (ce_rng env n) NONCE_LEN = Some nonce"
    using env_okD(3) [OF assms] by blast
  ultimately show ?thesis
    by (simp add: encrypt_vault_def)
qed

context vault_io
begin

lemma open_returns:
  assumes "env_ok env" "ce_io env = io" "stored inv content env p v st"
  shows "\<exists>r. vault_open (ce_crates env) (ce_vault_serde env) io (ce_kc env) (ce_rng env n) p
    (cs_world st, cs_keys st) = Some r"
proof -
  have f: "fetch_or_create (ce_kc env) (cs_keys st) VaultKey g = Some (cs_keys st, Inr (v_key v))" for g
    using assms(3) by (simp add: fetch_or_create_def stored_def)
  obtain d where "\<And>bytes. decrypt_vault (ce_crates env) (ce_vault_serde env) (v_key v) bytes = Some (d bytes)"
    using decrypt_vault_total [OF env_okD(4) [OF assms(1)]] by metis
  then show ?thesis
    by (simp add: vault_open_def Let_def f split: sum.split option.split)
qed

lemma cli_open_stored:
  assumes "env_ok env" "ce_io env = io" "stored inv content env p v st"
  obtains st' r where "cli_open env n p st = Some (st', r)" "stored inv content env p v st'"
    "r = Inr v \<or> (\<exists>x. r = Inl (CVault (VIo x)))" "cs_out st' = cs_out st" "cs_err st' = cs_err st"
proof -
  obtain w' k' r where run: "vault_open (ce_crates env) (ce_vault_serde env) io (ce_kc env) (ce_rng env n) p
      (cs_world st, cs_keys st) = Some ((w', k'), r)"
    using open_returns [OF assms, of n] by fast
  have s: "inv (cs_world st)" "kb_fetch (ce_kc env) (cs_keys st) VaultKey = Inr (Some (v_key v))"
    using assms(3) by (simp_all add: stored_def)
  note spec = open_spec [OF s run]
  have st': "stored inv content env p v (st\<lparr>cs_world := w', cs_keys := k'\<rparr>)"
    using spec assms(3) by (simp add: stored_def)
  have "r = Inr v \<or> (\<exists>x. r = Inl (VIo x))"
    using spec assms(3) by (cases r) (auto simp: stored_def split: option.splits)
  then have "map_err CVault r = Inr v \<or> (\<exists>x. map_err CVault r = Inl (CVault (VIo x)))"
    by (auto simp: map_err_def)
  then show thesis
    using that [of "st\<lparr>cs_world := w', cs_keys := k'\<rparr>" "map_err CVault r"] st' run assms(2)
    by (simp add: cli_open_def)
qed

lemma cli_save_stored:
  assumes "env_ok env" "ce_io env = io" "stored inv content env p v0 st" "v_key v = v_key v0"
  obtains st' r where "cli_save env n p v st = Some (st', r)" "cs_out st' = cs_out st" "cs_err st' = cs_err st"
    "\<And>x. r = Inr x \<Longrightarrow> stored inv content env p v st'"
    "\<And>e. r = Inl e \<Longrightarrow> stored inv content env p v0 st'
      \<or> lost_parent_sync e \<and> stored inv content env p v st'"
proof -
  obtain plain where plain: "json_to_vec (ce_vault_serde env) (v_contents v) = Inr plain"
    using serde_contractD [OF env_okD(1) [OF assms(1)] TrueI] by metis
  obtain enc where enc: "encrypt_vault (ce_crates env) (ce_rng env n) (v_key v) plain = Some enc"
    using encrypt_vault_returns [OF assms(1)] by blast
  obtain w' r where run: "vault_save (ce_crates env) (ce_vault_serde env) io (ce_rng env n) p (cs_world st) v
      = Some (w', r)"
    using plain enc by (cases enc) (fastforce simp: vault_save_def)+
  have s: "inv (cs_world st)" "kb_fetch (ce_kc env) (cs_keys st) VaultKey = Inr (Some (v_key v))"
    using assms(3,4) by (simp_all add: stored_def)
  show thesis
  proof (rule that [of "st\<lparr>cs_world := w'\<rparr>" "map_err CVault r"])
    show "cli_save env n p v st = Some (st\<lparr>cs_world := w'\<rparr>, map_err CVault r)"
      using run assms(2) by (simp add: cli_save_def)
  next
    fix x
    assume "map_err CVault r = Inr x"
    then have "vault_save (ce_crates env) (ce_vault_serde env) io (ce_rng env n) p (cs_world st) v = Some (w', Inr ())"
      using run by (cases r) (simp_all add: map_err_def)
    from save_content [OF s(1) env_okD(2) [OF assms(1)] env_okD(1) [OF assms(1)] TrueI this]
    show "stored inv content env p v (st\<lparr>cs_world := w'\<rparr>)"
      using s(2) by (auto simp: stored_def)
  next
    fix e
    assume "map_err CVault r = Inl e"
    then obtain e' where e': "r = Inl e'" "e = CVault e'"
      by (cases r) (simp_all add: map_err_def)
    have iw: "inv w'"
      using run plain enc s(1)
      by (cases enc) (auto simp: vault_save_def map_prod_def split: prod.splits dest: write_inv)
    from save_failed [OF s(1) env_okD(2) [OF assms(1)] env_okD(1) [OF assms(1)] TrueI run [unfolded e'(1)]]
    show "stored inv content env p v0 (st\<lparr>cs_world := w'\<rparr>)
        \<or> lost_parent_sync e \<and> stored inv content env p v (st\<lparr>cs_world := w'\<rparr>)"
      using assms(3) s(2) iw e'(2) by (auto simp: stored_def lost_parent_sync_def)
  qed simp_all
qed

end

section \<open>The abstract registry\<close>

text \<open>The commands as operations on a map from labels to values and whether FF1 handles them.\<close>

datatype registry_cmd = RegRegister string string | RegForget string | RegList

type_synonym registry = "string \<rightharpoonup> string \<times> bool"

definition ff1_eligible :: "string \<Rightarrow> bool" where
  "ff1_eligible value \<longleftrightarrow> check_eligibility value [] BASE62 = Inr ()"

fun registry_step :: "registry_cmd \<Rightarrow> registry \<Rightarrow> registry \<times> nat" where
  "registry_step (RegRegister l value) M =
     (if l \<in> dom M then (M, 5) else (M(l \<mapsto> (value, ff1_eligible value)), 0))"
| "registry_step (RegForget l) M = (if l \<in> dom M then (M(l := None), 0) else (M, 4))"
| "registry_step RegList M = (M, 0)"

fun registry_run :: "registry_cmd list \<Rightarrow> registry \<Rightarrow> registry \<times> nat list" where
  "registry_run [] M = (M, [])"
| "registry_run (cmd # cmds) M =
     (case registry_step cmd M of (M, code) \<Rightarrow>
        case registry_run cmds M of (M, codes) \<Rightarrow> (M, code # codes))"

text \<open>The processes: one command each, until one reports an error.\<close>

fun run_registry :: "('w, 'k) cli_env \<Rightarrow> path \<Rightarrow> registry_cmd \<Rightarrow> ('w, 'k) cli_state \<Rightarrow> ('w, 'k, nat) cli" where
  "run_registry env p (RegRegister l value) st = cli_register env p l value st"
| "run_registry env p (RegForget l) st = cli_forget env p l st"
| "run_registry env p RegList st = cli_list env p st"

fun run_registries ::
  "(nat \<Rightarrow> ('w, 'k) cli_env) \<Rightarrow> path \<Rightarrow> nat \<Rightarrow> registry_cmd list \<Rightarrow> ('w, 'k) cli_state \<Rightarrow> ('w, 'k, nat list) cli" where
  "run_registries envs p n [] st = Some (st, Inr [])"
| "run_registries envs p n (cmd # cmds) st =
     try_run (run_registry (envs n) p cmd st) (\<lambda>code st.
     try_run (run_registries envs p (Suc n) cmds st) (\<lambda>codes st. Some (st, Inr (code # codes))))"

definition uses_ff1 :: "VaultEntryKind \<Rightarrow> bool" where
  "uses_ff1 k = (case k of FpeEntry _ _ _ \<Rightarrow> True | SessionEntry _ \<Rightarrow> False)"

definition registry_of :: "Vault \<Rightarrow> registry" where
  "registry_of v l = map_option (\<lambda>e. (ve_value e, uses_ff1 (ve_kind e))) (vault_view v l)"

lemma registry_of_dom: "l \<in> dom (registry_of v) \<longleftrightarrow> l \<in> set (vault_labels v)"
  using view_None [of v l] by (auto simp: registry_of_def dom_def)

lemma registry_of_register:
  "registry_of (vault_register v e) = (registry_of v)(ve_label e \<mapsto> (ve_value e, uses_ff1 (ve_kind e)))"
  by (simp add: fun_eq_iff registry_of_def view_register)

lemma registry_of_forget: "registry_of (fst (vault_forget v l)) = (registry_of v)(l := None)"
  by (simp add: fun_eq_iff registry_of_def view_forget)

text \<open>
  What a command may do: follow the abstract step, or fail and leave the vault alone, or fail after
  the step was stored, when only the sync of the directory was lost.
\<close>

definition step_ok ::
  "('w \<Rightarrow> bool) \<Rightarrow> ('w \<Rightarrow> path \<Rightarrow> u8 list option) \<Rightarrow> ('w, 'k) cli_env \<Rightarrow> path \<Rightarrow> Vault \<Rightarrow> registry \<times> 'c
    \<Rightarrow> (('w, 'k) cli_state \<times> (CommandError + 'c)) run \<Rightarrow> bool" where
  "step_ok sound content env p v abstract outcome \<longleftrightarrow>
     (case outcome of
        None \<Rightarrow> False
      | Some (st', Inr code) \<Rightarrow>
          (\<exists>v'. stored sound content env p v' st' \<and> labels_unique v' \<and> abstract = (registry_of v', code))
      | Some (st', Inl e) \<Rightarrow> stored sound content env p v st'
          \<or> lost_parent_sync e
            \<and> (\<exists>v'. stored sound content env p v' st' \<and> labels_unique v' \<and> fst abstract = registry_of v'))"

lemma step_okI:
  "stored sound content env p v' st' \<Longrightarrow> labels_unique v' \<Longrightarrow>
     step_ok sound content env p v (registry_of v', code) (Some (st', Inr code))"
  "stored sound content env p v st' \<Longrightarrow> step_ok sound content env p v abstract (Some (st', Inl e))"
  "lost_parent_sync e \<Longrightarrow> stored sound content env p v' st' \<Longrightarrow> labels_unique v' \<Longrightarrow>
     step_ok sound content env p v (registry_of v', code) (Some (st', Inl e))"
  by (auto simp: step_ok_def)

context vault_io
begin

lemma open_step:
  assumes "env_ok env" "ce_io env = io" "stored inv content env p v st"
    and "\<And>st'. stored inv content env p v st' \<Longrightarrow> step_ok inv content env p v abstract (f v st')"
  shows "step_ok inv content env p v abstract (try_run (cli_open env n p st) f)"
proof -
  obtain st1 r1 where op: "cli_open env n p st = Some (st1, r1)" "stored inv content env p v st1"
      "r1 = Inr v \<or> (\<exists>x. r1 = Inl (CVault (VIo x)))"
    using cli_open_stored [OF assms(1-3)] by metis
  then show ?thesis
    using assms(4) [OF op(2)] by (auto simp: try_run_def step_okI)
qed

lemma save_step:
  assumes "env_ok env" "ce_io env = io" "stored inv content env p v st"
    and "v_key v' = v_key v" "labels_unique v'" "abstract = (registry_of v', 0)"
  shows "step_ok inv content env p v abstract
    (try_run (cli_save env n p v' st) (\<lambda>_ st. Some (say_out msg st, Inr 0)))"
proof -
  obtain st1 r1 where sv: "cli_save env n p v' st = Some (st1, r1)"
      "\<And>x. r1 = Inr x \<Longrightarrow> stored inv content env p v' st1"
      "\<And>e. r1 = Inl e \<Longrightarrow> stored inv content env p v st1
        \<or> lost_parent_sync e \<and> stored inv content env p v' st1"
    using cli_save_stored [OF assms(1-4)] by metis
  then show ?thesis
    using assms(5,6) by (cases r1) (auto simp: try_run_def intro: step_okI)
qed

lemma register_step:
  assumes "env_ok env" "ce_io env = io" "stored inv content env p v st" "labels_unique v"
  shows "step_ok inv content env p v (registry_step (RegRegister l value) (registry_of v))
    (cli_register env p l value st)"
  unfolding cli_register_def
proof (rule open_step [OF assms(1-3)])
  fix st1
  assume st1: "stored inv content env p v st1"
  show "step_ok inv content env p v (registry_step (RegRegister l value) (registry_of v))
    (if list_ex (\<lambda>l'. l' = l) (vault_labels v) then Some (say_err (already_registered l) st1, Inr 5)
     else do {
       (kind, st) \<leftarrow> dispatch_kind env l value st1;
       try_run (cli_save env 2 p (vault_register v \<lparr>ve_label = l, ve_value = value, ve_kind = kind\<rparr>) st)
         (\<lambda>_ st. Some (say_out (''registered '' @ quoted l) st, Inr 0))
     })"
  proof (cases "l \<in> set (vault_labels v)")
    case True
    then show ?thesis
      using st1 assms(4) by (simp add: list_ex_iff registry_of_dom step_okI)
  next
    case False
    obtain tweak where "random_ff1_tweak (ce_rng env 1) = Some tweak"
      using env_okD(3) [OF assms(1)] unfolding random_ff1_tweak_def by blast
    then obtain kind st2 where kind: "dispatch_kind env l value st1 = Some (kind, st2)"
        "stored inv content env p v st2" "uses_ff1 kind = ff1_eligible value"
      using st1 by (cases "check_eligibility value [] BASE62")
        (auto simp: dispatch_kind_def uses_ff1_def ff1_eligible_def)
    have "step_ok inv content env p v (registry_step (RegRegister l value) (registry_of v))
      (try_run (cli_save env 2 p (vault_register v \<lparr>ve_label = l, ve_value = value, ve_kind = kind\<rparr>) st2)
        (\<lambda>_ st. Some (say_out (''registered '' @ quoted l) st, Inr 0)))"
      using False kind(3)
      by (intro save_step [OF assms(1,2) kind(2)] labels_unique_kept assms(4))
        (simp_all add: registry_of_dom registry_of_register)
    then show ?thesis
      using False kind(1) by (simp add: list_ex_iff)
  qed
qed

lemma forget_step:
  assumes "env_ok env" "ce_io env = io" "stored inv content env p v st" "labels_unique v"
  shows "step_ok inv content env p v (registry_step (RegForget l) (registry_of v)) (cli_forget env p l st)"
  unfolding cli_forget_def
proof (rule open_step [OF assms(1-3)])
  fix st1
  assume st1: "stored inv content env p v st1"
  obtain v' removed where f: "vault_forget v l = (v', removed)"
    by fastforce
  have rem: "removed \<longleftrightarrow> l \<in> set (vault_labels v)" and v': "v' = fst (vault_forget v l)"
    using forget_found [of v l] f by simp_all
  have "step_ok inv content env p v (registry_step (RegForget l) (registry_of v))
      (try_run (cli_save env 1 p v' st1) (\<lambda>_ st. Some (say_out (''forgot '' @ quoted l) st, Inr 0)))"
    if removed
    using that rem unfolding v'
    by (intro save_step [OF assms(1,2) st1] labels_unique_kept assms(4))
      (simp_all add: registry_of_dom registry_of_forget)
  then show "step_ok inv content env p v (registry_step (RegForget l) (registry_of v))
    (case vault_forget v l of (v, removed) \<Rightarrow>
       if \<not> removed then Some (say_err (''error: no entry with label '' @ quoted l) st1, Inr 4)
       else try_run (cli_save env 1 p v st1) (\<lambda>_ st. Some (say_out (''forgot '' @ quoted l) st, Inr 0)))"
    using st1 assms(4) rem by (cases removed) (simp_all add: f registry_of_dom step_okI)
qed

lemma list_step:
  assumes "env_ok env" "ce_io env = io" "stored inv content env p v st" "labels_unique v"
  shows "step_ok inv content env p v (registry_step RegList (registry_of v)) (cli_list env p st)"
  unfolding cli_list_def
  by (rule open_step [OF assms(1-3)]) (simp add: Let_def step_okI assms(4))

lemmas command_steps = register_step forget_step list_step

lemma registry_step_refined:
  assumes "env_ok env" "ce_io env = io" "stored inv content env p v st" "labels_unique v"
  shows "step_ok inv content env p v (registry_step cmd (registry_of v)) (run_registry env p cmd st)"
  using command_steps [OF assms] by (cases cmd) simp_all

text \<open>Many processes: the surroundings of each may differ in randomness, time and message texts.\<close>

lemma registry_run_refined:
  assumes "\<And>n. env_ok (envs n)" "\<And>n. ce_io (envs n) = io"
    and "\<And>n sound content p v st. stored sound content (envs n) p v st = stored sound content (envs 0) p v st"
    and "stored inv content (envs 0) p v st" "labels_unique v"
  shows "case run_registries envs p n cmds st of
      None \<Rightarrow> False
    | Some (st', Inr codes) \<Rightarrow>
        (\<exists>v'. stored inv content (envs 0) p v' st' \<and> labels_unique v'
           \<and> registry_run cmds (registry_of v) = (registry_of v', codes))
    | Some (st', Inl e) \<Rightarrow>
        (\<exists>k < length cmds. \<exists>v'. stored inv content (envs 0) p v' st' \<and> labels_unique v'
           \<and> (registry_of v' = fst (registry_run (take k cmds) (registry_of v))
              \<or> lost_parent_sync e
                \<and> registry_of v' = fst (registry_run (take (Suc k) cmds) (registry_of v))))"
  using assms(4,5)
proof (induction cmds arbitrary: n v st)
  case Nil
  then show ?case by auto
next
  case (Cons cmd cmds)
  have "stored inv content (envs n) p v st"
    using Cons.prems(1) assms(3) by blast
  note step = registry_step_refined [OF assms(1,2) this Cons.prems(2), of cmd]
  obtain st1 r1 where r1: "run_registry (envs n) p cmd st = Some (st1, r1)"
    using step by (auto simp: step_ok_def split: option.splits)
  show ?case
  proof (cases r1)
    case (Inl e)
    have "stored inv content (envs 0) p v st1 \<or> lost_parent_sync e
        \<and> (\<exists>v'. stored inv content (envs 0) p v' st1 \<and> labels_unique v'
          \<and> fst (registry_step cmd (registry_of v)) = registry_of v')"
      using step r1 Inl assms(3) [of inv content n p _ st1] by (auto simp: step_ok_def)
    then obtain v' where "stored inv content (envs 0) p v' st1" "labels_unique v'"
        "registry_of v' = registry_of v
          \<or> lost_parent_sync e \<and> registry_of v' = fst (registry_step cmd (registry_of v))"
      using Cons.prems(2) by metis
    then show ?thesis
      using r1 Inl by (auto simp: try_run_def split_beta intro!: exI [of _ "0::nat"] exI [of _ v'])
  next
    case (Inr code)
    obtain v1 where v1: "stored inv content (envs n) p v1 st1" "labels_unique v1"
        "registry_step cmd (registry_of v) = (registry_of v1, code)"
      using step r1 Inr by (auto simp: step_ok_def)
    have "stored inv content (envs 0) p v1 st1"
      using v1(1) assms(3) by blast
    note ih = Cons.IH [OF this v1(2), of "Suc n"]
    then obtain st2 r2 where r2: "run_registries envs p (Suc n) cmds st1 = Some (st2, r2)"
      by (auto split: option.splits)
    show ?thesis
    proof (cases r2)
      case r2': (Inl e)
      obtain k v' where "k < length cmds" "stored inv content (envs 0) p v' st2" "labels_unique v'"
          "registry_of v' = fst (registry_run (take k cmds) (registry_of v1))
            \<or> lost_parent_sync e \<and> registry_of v' = fst (registry_run (take (Suc k) cmds) (registry_of v1))"
        using ih r2 r2' by auto
      then show ?thesis
        using r1 Inr r2 r2' v1(3)
        by (auto simp: try_run_def split_beta intro!: exI [of _ "Suc k"] exI [of _ v'])
    next
      case r2': (Inr codes)
      then show ?thesis
        using ih r1 Inr r2 v1(3) by (auto simp: try_run_def)
    qed
  qed
qed

end

context std_io
begin

lemmas std_registry_run = registry_run_refined

end

text \<open>The surroundings of the processes on one machine.\<close>

definition one_machine :: "os_env \<Rightarrow> (nat \<Rightarrow> (machine, 'k) cli_env) \<Rightarrow> bool" where
  "one_machine os envs \<longleftrightarrow>
     (\<forall>n. env_ok (envs n) \<and> ce_io (envs n) = StdVaultIo os \<and> ce_crates (envs n) = ce_crates (envs 0)
        \<and> ce_vault_serde (envs n) = ce_vault_serde (envs 0) \<and> ce_kc (envs n) = ce_kc (envs 0))"

section \<open>Properties\<close>

text \<open>
  (C25) \<^bold>\<open>register, forget and list refine a map from labels to values.\<close> For any sequence of these
  commands, each a process of its own on the same vault and key storage, no process panics, and as
  long as none reports an error the exit codes (0, 5 for a label that is taken, 4 for one that is
  not there) and what is stored at the end are those of the abstract registry, FF1 or Formatless
  by eligibility. The first command that fails leaves what the commands before it stored, with one
  exception: when only the sync of the directory failed after the file was replaced, the vault may
  hold what that command stored.
\<close>

theorem registry_refinement:
  assumes "one_machine os envs" "honest_opens os"
    and "stored_on_disk (envs 0) p v st" "labels_unique v"
  shows "case run_registries envs p 0 cmds st of
      None \<Rightarrow> False
    | Some (st', Inr codes) \<Rightarrow>
        (\<exists>v'. stored_on_disk (envs 0) p v' st' \<and> labels_unique v'
           \<and> registry_run cmds (registry_of v) = (registry_of v', codes))
    | Some (st', Inl e) \<Rightarrow>
        (\<exists>k < length cmds. \<exists>v'. stored_on_disk (envs 0) p v' st' \<and> labels_unique v'
           \<and> (registry_of v' = fst (registry_run (take k cmds) (registry_of v))
              \<or> lost_parent_sync e
                \<and> registry_of v' = fst (registry_run (take (Suc k) cmds) (registry_of v))))"
proof (rule std_io.std_registry_run [OF std_io.intro [OF assms(2)]])
  show "env_ok (envs n)" "ce_io (envs n) = StdVaultIo os" for n
    using assms(1) by (simp_all add: one_machine_def)
  show "stored sound content (envs n) p v st = stored sound content (envs 0) p v st"
    for n sound content p v st
  proof -
    have "ce_crates (envs n) = ce_crates (envs 0) \<and> ce_vault_serde (envs n) = ce_vault_serde (envs 0)
        \<and> ce_kc (envs n) = ce_kc (envs 0)"
      using assms(1) unfolding one_machine_def by blast
    then have same: "ce_crates (envs n) = ce_crates (envs 0)"
        "ce_vault_serde (envs n) = ce_vault_serde (envs 0)" "ce_kc (envs n) = ce_kc (envs 0)"
      by simp_all
    show ?thesis
      unfolding stored_def same ..
  qed
qed (use assms(3,4) in simp_all)

definition plain_fmt :: std_fmt where
  "plain_fmt = \<lparr>fmt_io = (\<lambda>_. ''error''), fmt_debug_char = (\<lambda>_. ''char''), fmt_debug_str = (\<lambda>s. s)\<rparr>"

definition sample_env :: "(machine, InMemoryKeychain) cli_env" where
  "sample_env = \<lparr>ce_crates = ref_crates, ce_vault_serde = vault_serde, ce_session_serde = session_serde,
     ce_io = StdVaultIo healthy_env, ce_kc = mem_backend, ce_wipe = wipe_session_file healthy_env,
     ce_rng = (\<lambda>_. sample_rng), ce_order = (\<lambda>es. es), ce_instant = 0, ce_fmt = plain_fmt\<rparr>"

definition sample_state :: "(machine, InMemoryKeychain) cli_state" where
  "sample_state = \<lparr>cs_world = sample_machine, cs_keys = mem_preloaded VaultKey (replicate 32 1),
     cs_out = \<lparr>sk_text = [], sk_fault = None\<rparr>, cs_err = \<lparr>sk_text = [], sk_fault = None\<rparr>\<rparr>"

lemma sample_env_ok: "env_ok sample_env" "one_machine healthy_env (\<lambda>_. sample_env)"
  by (simp_all add: env_ok_def one_machine_def sample_env_def vault_serde_contract sample_sealing sample_rng_def)

text \<open>Nothing is stored yet under \<open>v/g\<close>.\<close>

lemma sample_state_empty:
  "stored_on_disk sample_env (abs_path [''v'', ''g'']) \<lparr>v_key = replicate 32 1, v_contents = default_contents\<rparr>
     sample_state"
proof -
  have "kb_fetch mem_backend (mem_preloaded VaultKey (replicate 32 1)) VaultKey = Inr (Some (replicate 32 1))"
    by (simp add: mem_backend_def mem_fetch_def mem_preloaded_def)
  moreover have "content_at (disk sample_machine) (abs_path [''v'', ''g'']) = None"
    by (simp add: sample_machine_def content_at_def file_at_def)
  ultimately show ?thesis
    using sample_machine_ok(1) by (simp add: stored_def sample_state_def sample_env_def)
qed


lemma sample_run:
  "map_option snd (run_registries (\<lambda>_. sample_env) (abs_path [''v'', ''g'']) 0 [RegForget ''x'', RegList] sample_state)
     = Some (Inr [4, 0])"
  by code_simp

theorem registry_refinement_witness:
  "\<exists>st' v'. run_registries (\<lambda>_. sample_env) (abs_path [''v'', ''g'']) 0 [RegForget ''x'', RegList] sample_state
       = Some (st', Inr [4, 0])
     \<and> stored_on_disk sample_env (abs_path [''v'', ''g'']) v' st' \<and> registry_of v' = Map.empty"
proof -
  have "labels_unique \<lparr>v_key = replicate 32 1, v_contents = default_contents\<rparr>"
    by (simp add: labels_unique_def vault_labels_def default_contents_def)
  note r = registry_refinement [OF sample_env_ok(2) healthy_honest [OF healthy_env_healthy]
      sample_state_empty this, of "[RegForget ''x'', RegList]"]
  have e: "registry_of \<lparr>v_key = replicate 32 1, v_contents = default_contents\<rparr> = Map.empty"
    by (simp add: fun_eq_iff registry_of_def vault_view_def default_contents_def)
  obtain st' where "run_registries (\<lambda>_. sample_env) (abs_path [''v'', ''g'']) 0 [RegForget ''x'', RegList] sample_state
      = Some (st', Inr [4, 0])"
    using sample_run by auto
  then show ?thesis
    using r unfolding e by auto
qed

section \<open>A sample run\<close>

text \<open>A process in a Wayland session.\<close>

definition sample_process :: "machine process" where
  "sample_process =
     \<lparr>pr_vars = (\<lambda>v. if v = ''HOME'' then Some ''/h'' else if v = ''WAYLAND_DISPLAY'' then Some ''wayland-0'' else None),
      pr_stdin = Inr [], pr_is_terminal = False, pr_prompt = Inr [],
      pr_open_and_read = (\<lambda>m p. Inl (os_error NotFound)), pr_since_epoch = Some 1000, pr_json = counting_json,
      pr_show_value = (\<lambda>_. []), pr_connect = (\<lambda>_. Inl (os_error NotFound)), pr_peer = (\<lambda>_. [])\<rparr>"

lemma sample_watch:
  "\<exists>st'. cli_run sample_env sample_process \<lparr>cl_vault = None, cl_command = CmdWatch\<rparr> sample_state = Some (st', 6)"
proof -
  have w: "detect_display_server (pr_vars sample_process) = Wayland"
    by (simp add: detect_display_server_def detect_display_server_from_def non_empty_def sample_process_def)
  have p: "\<exists>p. resolve_vault_path (pr_vars sample_process) None = Inr p"
    by (simp add: resolve_vault_path_def default_vault_path_def default_vault_dir_def linux_vault_dir_def
        sample_process_def ok_or_def)
  show ?thesis
    using p by (auto simp: cli_run_def exit_code_def cli_watch_def w Let_def)
qed

theorem cli_run_exit_codes_witness:
  "\<exists>st'. cli_run sample_env sample_process \<lparr>cl_vault = None, cl_command = CmdWatch\<rparr> sample_state = Some (st', 6)
     \<and> cs_out st' = cs_out sample_state \<and> err_grows sample_state st'"
proof -
  obtain st' where st': "cli_run sample_env sample_process \<lparr>cl_vault = None, cl_command = CmdWatch\<rparr> sample_state
      = Some (st', 6)"
    using sample_watch by blast
  from cli_run_exit_codes [THEN conjunct1, rule_format, OF st']
  have "cs_out st' = cs_out sample_state \<and> err_grows sample_state st'" by simp
  with st' show ?thesis by metis
qed

end
