(* ===== verification/CliSession.thy ===== *)
theory CliSession
  imports Registry
begin

text \<open>
  \<open>scrub\<close> and \<open>restore\<close> with a session file, end to end: from what is stored on the disk before the
  process to the output and what is stored after it.
\<close>

section \<open>What the disk holds\<close>

text \<open>The session file: absent, or sealed under the vault's key so that it loads until it expires.\<close>

definition session_at ::
  "(machine, 'k) cli_env \<Rightarrow> Vault \<Rightarrow> path \<Rightarrow> SessionContents option \<Rightarrow> machine \<Rightarrow> bool" where
  "session_at env v sp old m \<longleftrightarrow>
     (case old of
        None \<Rightarrow> content_at (disk m) sp = None \<and> \<not> dir_exists (disk m) sp
      | Some s \<Rightarrow>
          (\<exists>bytes. content_at (disk m) sp = Some bytes
             \<and> (\<forall>t. decrypt_session_bytes (ce_crates env) (ce_session_serde env) (v_key v) bytes t
                  = Some (check_expiry t s))))"

text \<open>A machine on which no system call fails, and the vault \<open>v\<close> at \<open>p\<close> from which an engine is built.\<close>

definition ready :: "os_env \<Rightarrow> (machine, 'k) cli_env \<Rightarrow> path \<Rightarrow> Vault \<Rightarrow> Engine \<Rightarrow> (machine, 'k) cli_state \<Rightarrow> bool" where
  "ready os env p v e st \<longleftrightarrow>
     healthy os \<and> env_ok env \<and> serde_contract (\<lambda>_. True) (ce_session_serde env)
     \<and> ce_io env = StdVaultIo os \<and> ce_wipe env = wipe_session_file os
     \<and> stored_on_disk env p v st \<and> \<not> dir_exists (disk (cs_world st)) p
     \<and> build_engine (ce_crates env) v = Some (Inr e)"

lemma readyD:
  assumes "ready os env p v e st"
  shows "healthy os" "env_ok env" "serde_contract (\<lambda>_. True) (ce_session_serde env)"
    "ce_io env = StdVaultIo os" "ce_wipe env = wipe_session_file os" "stored_on_disk env p v st"
    "\<not> dir_exists (disk (cs_world st)) p" "build_engine (ce_crates env) v = Some (Inr e)"
    "fs_ok (disk (cs_world st))"
  using assms by (simp_all add: ready_def stored_def)

section \<open>Opening and loading\<close>

lemma remove_others:
  assumes "fs_ok (disk m)" "q \<notin> set qs"
  shows "content_at (disk (fold (\<lambda>x m. std_remove_quiet env m x) qs m)) q = content_at (disk m) q"
  using assms by (induction qs arbitrary: m) (auto simp: std_remove_spec(1) intro!: std_remove_spec(2))

lemma clean_orphans_other:
  assumes "fs_ok (disk m)" "\<not> is_tmp_of p q"
  shows "content_at (disk (clean_orphans (StdVaultIo os) m p)) q = content_at (disk m) q"
proof (cases "std_list_orphan_tmps os m p")
  case (Inr qs)
  then have "q \<notin> set qs"
    using std_orphans_tmp [OF Inr] assms(2) by blast
  then show ?thesis
    using remove_others [OF assms(1)] Inr by (simp add: clean_orphans_def StdVaultIo_def)
qed (simp add: clean_orphans_def StdVaultIo_def)

lemma std_read:
  assumes "healthy os" "fs_ok (disk m)" "content_at (disk m) p = None \<longrightarrow> \<not> dir_exists (disk m) p"
  shows "std_read_if_exists os m p = Inr (content_at (disk m) p)"
proof (cases "content_at (disk m) p")
  case None
  then have "\<not> path_exists (disk m) p"
    using content_names [OF assms(2), of p] assms(3) by (simp add: path_exists_def)
  then show ?thesis
    using assms(1) None by (simp add: std_read_if_exists_def sys_open_def io_kind_def)
next
  case (Some bytes)
  then show ?thesis
    using healthy_read [OF assms(1,2)] by simp
qed

text \<open>Opening the vault changes nothing but the orphans beside it.\<close>

lemma cli_open_ready:
  assumes "ready os env p v e st"
  shows "cli_open env n p st
    = Some (st\<lparr>cs_world := clean_orphans (StdVaultIo os) (cs_world st) p\<rparr>, Inr v)"
proof -
  note r = readyD [OF assms]
  let ?m = "clean_orphans (StdVaultIo os) (cs_world st) p"
  have ok: "fs_ok (disk ?m)" "content_at (disk ?m) p = content_at (disk (cs_world st)) p"
    using std_io.std_clean_orphans [OF std_io.intro [OF healthy_honest [OF r(1)]] r(9)] by auto
  have "std_read_if_exists os ?m p = Inr (content_at (disk (cs_world st)) p)"
    using std_read [OF r(1) ok(1)] ok(2) r(7) by (simp add: clean_orphans_dirs)
  moreover have f: "fetch_or_create (ce_kc env) (cs_keys st) VaultKey g = Some (cs_keys st, Inr (v_key v))" for g
    using r(6) by (simp add: fetch_or_create_def stored_def)
  ultimately have "vault_open (ce_crates env) (ce_vault_serde env) (StdVaultIo os) (ce_kc env) (ce_rng env n) p
      (cs_world st, cs_keys st) = Some ((?m, cs_keys st), Inr v)"
    using r(6) by (auto simp: vault_open_def Let_def StdVaultIo_def stored_def split: option.splits)
  then show ?thesis
    by (simp add: cli_open_def r(4) map_err_def)
qed

lemma cli_engine_ready: "ready os env p v e st \<Longrightarrow> cli_engine env v st' = Some (st', Inr e)"
  by (simp add: cli_engine_def readyD map_err_def)

lemma session_after_open:
  assumes "ready os env p v e st" "session_at env v sp old (cs_world st)" "\<not> is_tmp_of p sp"
  shows "session_at env v sp old (clean_orphans (StdVaultIo os) (cs_world st) p)"
    "fs_ok (disk (clean_orphans (StdVaultIo os) (cs_world st) p))"
proof -
  note r = readyD [OF assms(1)]
  show "fs_ok (disk (clean_orphans (StdVaultIo os) (cs_world st) p))"
    using std_io.std_clean_orphans [OF std_io.intro [OF healthy_honest [OF r(1)]] r(9)] by auto
  show "session_at env v sp old (clean_orphans (StdVaultIo os) (cs_world st) p)"
    using assms(2) clean_orphans_other [OF r(9) assms(3)]
    by (cases old) (simp_all add: session_at_def clean_orphans_dirs)
qed

lemma cli_load_ready:
  assumes "healthy os" "ce_io env = StdVaultIo os" "fs_ok (disk (cs_world st))" "session_at env v sp old (cs_world st)"
  shows "cli_load_session env v sp now st =
    Some (st, case old of None \<Rightarrow> Inr None | Some s \<Rightarrow> map_sum CSession Some (check_expiry now s))"
proof -
  have "std_read_if_exists os (cs_world st) sp = Inr (content_at (disk (cs_world st)) sp)"
    using std_read [OF assms(1,3)] assms(4) by (auto simp: session_at_def split: option.splits)
  then show ?thesis
    using assms(2,4)
    by (auto simp: cli_load_session_def vault_load_session_file_def load_session_file_def StdVaultIo_def
        session_at_def map_err_def check_expiry_def split: option.splits)
qed

section \<open>The commands with a session file\<close>

lemma cli_save_session_at:
  assumes "healthy os" "ce_io env = StdVaultIo os" "fs_ok (disk (cs_world st))" "env_ok env"
    and "serde_contract (\<lambda>_. True) (ce_session_serde env)"
    and "cli_save_session env n v sp s st = Some (st', Inr u)"
  shows "session_at env v sp (Some s) (cs_world st') \<and> cs_out st' = cs_out st"
proof -
  obtain w x where x: "save_session_file (ce_crates env) (ce_session_serde env) (StdVaultIo os) (ce_rng env n)
      (cs_world st) sp (v_key v) s = Some (w, x)" "st' = st\<lparr>cs_world := w\<rparr>" "map_err CSession x = Inr u"
    using assms(2,6) by (auto simp: cli_save_session_def vault_save_session_file_def)
  then have w: "save_session_file (ce_crates env) (ce_session_serde env) (StdVaultIo os) (ce_rng env n)
      (cs_world st) sp (v_key v) s = Some (w, Inr ())" "st' = st\<lparr>cs_world := w\<rparr>"
    by (cases x; simp add: map_err_def)+
  show ?thesis
    using std_io.std_session_save_content [OF std_io.intro [OF healthy_honest [OF assms(1)]] assms(3)
        env_okD(2) [OF assms(4)] assms(5) TrueI w(1)] w(2)
    by (auto simp: session_at_def)
qed

text \<open>A file can be saved at \<open>sp\<close>: its directory exists and nothing is in the way.\<close>

definition can_save :: "os_env \<Rightarrow> path \<Rightarrow> machine \<Rightarrow> bool" where
  "can_save os sp m \<longleftrightarrow> dir_exists (disk m) (dir_of sp) \<and> comps sp \<noteq> [] \<and> \<not> dir_exists (disk m) sp
     \<and> \<not> path_exists (disk m) (tmp_path os sp)"

lemma names_remove: "map_of (names (disk m)) q = None \<Longrightarrow> map_of (names (disk (std_remove_quiet env m p))) q = None"
  by (auto simp: std_remove_quiet_def sys_remove_file_def map_of_bind_name split: option.splits)

lemma can_save_clean:
  assumes "can_save os sp m"
  shows "can_save os sp (clean_orphans (StdVaultIo os) m p)"
proof -
  have "map_of (names (disk m)) q = None \<Longrightarrow>
      map_of (names (disk (fold (\<lambda>q m. std_remove_quiet os m q) qs m))) q = None" for q qs
    by (induction qs arbitrary: m) (simp_all add: names_remove)
  then have "map_of (names (disk m)) q = None \<Longrightarrow>
      map_of (names (disk (clean_orphans (StdVaultIo os) m p))) q = None" for q
    by (simp add: clean_orphans_def StdVaultIo_def split: sum.split)
  then show ?thesis
    using assms by (simp add: can_save_def path_exists_def clean_orphans_dirs)
qed

lemma cli_save_session_succeeds:
  assumes "healthy os" "ce_io env = StdVaultIo os" "can_save os sp (cs_world st)" "env_ok env"
    and "serde_contract (\<lambda>_. True) (ce_session_serde env)"
  obtains st' where "cli_save_session env n v sp s st = Some (st', Inr ())" "cs_out st' = cs_out st"
proof -
  obtain plain where plain: "json_to_vec (ce_session_serde env) s = Inr plain"
    using serde_contractD [OF assms(5) TrueI] by metis
  obtain k where k: "derive_session_aead_key (ce_crates env) (v_key v) = Some k"
    using env_okD(4) [OF assms(4)] by (rule derive_session_aead_key_ok)
  obtain nonce where "os_random_nonce (ce_rng env n) = Some nonce"
    using env_okD(3) [OF assms(4), of n NONCE_LEN] by (auto simp: os_random_nonce_def os_random_def)
  then obtain enc where "encrypt_session_bytes (ce_crates env) (ce_rng env n) (v_key v) plain = Some enc"
    using k by (simp add: encrypt_session_bytes_def)
  moreover from this obtain bytes where "enc = Inr bytes"
    using decrypt_encrypt_session [OF env_okD(2) [OF assms(4)]] by blast
  moreover obtain w where "std_write_atomic os (cs_world st) sp bytes SESSION_FILE_MODE = (w, Inr ())"
    using write_atomic_ready [OF assms(1), of "cs_world st" sp bytes SESSION_FILE_MODE] assms(3)
    by (cases "std_write_atomic os (cs_world st) sp bytes SESSION_FILE_MODE") (simp add: can_save_def)
  ultimately have "save_session_file (ce_crates env) (ce_session_serde env) (ce_io env) (ce_rng env n)
      (cs_world st) sp (v_key v) s = Some (w, Inr ())"
    using plain assms(2) by (simp add: save_session_file_def StdVaultIo_def map_err_def)
  then show thesis
    using that by (simp add: cli_save_session_def vault_save_session_file_def map_err_def)
qed

text \<open>What the session scrub starts from: the stored pairs, or a fresh session.\<close>

definition session_base :: "SessionContents option \<Rightarrow> u64 \<Rightarrow> SessionContents" where
  "session_base old now = (case old of Some s \<Rightarrow> s | None \<Rightarrow> new_at now)"

definition session_life :: "SessionContents option \<Rightarrow> u64 \<Rightarrow> u64" where
  "session_life old now = (case old of Some s \<Rightarrow> saturating_sub (sn_expires_at s) now | None \<Rightarrow> SESSION_TTL_SECS)"

definition session_live :: "SessionContents option \<Rightarrow> u64 \<Rightarrow> bool" where
  "session_live old now \<longleftrightarrow> (\<forall>s. old = Some s \<longrightarrow> now < sn_expires_at s)"

lemma session_live_cases:
  assumes "session_live old now"
  shows "(case old of None \<Rightarrow> Inr None | Some s \<Rightarrow> map_sum CSession Some (check_expiry now s)) = Inr old"
  using assms by (auto simp: session_live_def check_expiry_def split: option.split)

text \<open>The contents that a session scrub writes: the pairs after the pass, with the times it started from.\<close>

definition session_after :: "('w, 'k) cli_env \<Rightarrow> SessionContents option \<Rightarrow> u64 \<Rightarrow> SessionMap \<Rightarrow> SessionContents" where
  "session_after env old now session = (session_base old now)\<lparr>sn_entries :=
     map (\<lambda>(fake, r). \<lparr>sp_fake = fake, sp_real = r\<rparr>) (entries (ce_order env) session)\<rparr>"

lemma scrub_session_start:
  assumes rdy: "ready os env p v e st"
  shows "cli_scrub env p input (Some sp) now st =
      try_run (scrub_through_session env v e input sp now (st\<lparr>cs_world := clean_orphans (StdVaultIo os) (cs_world st) p\<rparr>))
       (\<lambda>result st. try_run (write_output (sc_output result) st) (\<lambda>_ st.
          Some (say_err (''scrubbed '' @ show_nat (scrubbed_count result) @ '' value(s)'')
               (fold (\<lambda>n. say_err (format_notice n)) (notices result) st), Inr 0)))"
  using cli_open_ready [OF rdy] cli_engine_ready [OF rdy]
  by (simp add: cli_scrub_def try_run_def [of "Some _"])

text \<open>With a live session the pass goes through and its pairs are saved before anything is printed.\<close>

lemma scrub_session_saves:
  assumes rdy: "ready os env p v e st" and sp: "session_at env v sp old (cs_world st)" "\<not> is_tmp_of p sp"
    and save: "can_save os sp (cs_world st)" and live: "session_live old now"
    and pass: "scrub_with_session (ce_crates env) (ce_order env) e input
      (seed_map env (session_base old now) (session_life old now)) (ce_instant env) = Some (res, session)"
  obtains st2 where "cli_save_session env 1 v sp (session_after env old now session)
      (st\<lparr>cs_world := clean_orphans (StdVaultIo os) (cs_world st) p\<rparr>) = Some (st2, Inr ())"
    "cs_out st2 = cs_out st" "session_at env v sp (Some (session_after env old now session)) (cs_world st2)"
    "cli_scrub env p input (Some sp) now st = try_run (write_output (sc_output res) st2) (\<lambda>_ st.
          Some (say_err (''scrubbed '' @ show_nat (scrubbed_count res) @ '' value(s)'')
               (fold (\<lambda>n. say_err (format_notice n)) (notices res) st), Inr 0))"
proof -
  note r = readyD [OF rdy]
  define st1 where "st1 = st\<lparr>cs_world := clean_orphans (StdVaultIo os) (cs_world st) p\<rparr>"
  have st1_world: "cs_world st1 = clean_orphans (StdVaultIo os) (cs_world st) p"
    by (simp add: st1_def)
  have after: "session_at env v sp old (cs_world st1)" "fs_ok (disk (cs_world st1))"
    using session_after_open [OF rdy sp] by (simp_all add: st1_def)
  have base: "(case old of
        Some c \<Rightarrow> (c, saturating_sub (sn_expires_at c) now)
      | None \<Rightarrow> (new_at now, SESSION_TTL_SECS)) = (session_base old now, session_life old now)"
    by (simp add: session_base_def session_life_def split: option.split)
  obtain st2 where sv: "cli_save_session env 1 v sp (session_after env old now session) st1 = Some (st2, Inr ())"
      "cs_out st2 = cs_out st1"
    using cli_save_session_succeeds [OF r(1,4) _ r(2,3)] can_save_clean [OF save] by (metis st1_world)
  have "scrub_through_session env v e input sp now st1 = Some (st2, Inr res)"
    using cli_load_ready [OF r(1,4) after(2,1)] pass sv(1) session_live_cases [OF live]
    by (simp add: scrub_through_session_def try_run_def base session_after_def)
  then show thesis
    using that [of st2] sv cli_save_session_at [OF r(1,4) after(2) r(2,3) sv(1)] scrub_session_start [OF rdy]
    by (simp add: st1_def try_run_def [of "Some _"])
qed

text \<open>
  (C26) \<^bold>\<open>Scrubbing again does not prolong a session.\<close> On a machine that works and where the file can be
  saved, after \<open>scrub --session\<close> the session file holds the pairs of the session map after the pass with
  the creation and expiry times it had before; only a file that was absent starts a new lifetime of
  \<open>SESSION_TTL_SECS\<close>. The scrubbed text is printed after the save, so a failure of standard output
  (code 3, with the part of the text it took) leaves the new file. An expired file is refused with
  its expiry time: it stays as it is and nothing is printed, so no sequence of scrubs keeps a session alive.
\<close>

theorem scrub_session_keeps_expiry:
  assumes rdy: "ready os env p v e st" and sp: "session_at env v sp old (cs_world st)" "\<not> is_tmp_of p sp"
    and save: "can_save os sp (cs_world st)"
    and pass: "scrub_with_session (ce_crates env) (ce_order env) e input
      (seed_map env (session_base old now) (session_life old now)) (ce_instant env) = Some (res, session)"
  shows "\<exists>st' r. cli_scrub env p input (Some sp) now st = Some (st', r)
    \<and> (if session_live old now then
         session_at env v sp (Some ((session_base old now)\<lparr>sn_entries :=
             map (\<lambda>(fake, r). \<lparr>sp_fake = fake, sp_real = r\<rparr>) (entries (ce_order env) session)\<rparr>)) (cs_world st')
         \<and> (case sk_fault (cs_out st) of
              None \<Rightarrow> r = Inr 0 \<and> sk_text (cs_out st') = sk_text (cs_out st) @ sc_output res
            | Some (room, x) \<Rightarrow> r = (if length (sc_output res) \<le> room then Inr 0 else Inl (CmdIo x))
                \<and> sk_text (cs_out st') = sk_text (cs_out st) @ take room (sc_output res))
       else r = Inl (CSession (Expired (sn_expires_at (session_base old now))))
         \<and> session_at env v sp old (cs_world st') \<and> cs_out st' = cs_out st)"
proof (cases "session_live old now")
  case True
  from rdy sp save True pass obtain st2 where
      "cs_out st2 = cs_out st" "session_at env v sp (Some (session_after env old now session)) (cs_world st2)"
      "cli_scrub env p input (Some sp) now st = try_run (write_output (sc_output res) st2) (\<lambda>_ st.
          Some (say_err (''scrubbed '' @ show_nat (scrubbed_count res) @ '' value(s)'')
               (fold (\<lambda>n. say_err (format_notice n)) (notices res) st), Inr 0))"
    by (rule scrub_session_saves)
  with True show ?thesis
    by (auto simp: try_run_def write_output_def sink_write_def map_err_def session_after_def
        split: option.split prod.split)
next
  case False
  note r = readyD [OF rdy]
  define st1 where "st1 = st\<lparr>cs_world := clean_orphans (StdVaultIo os) (cs_world st) p\<rparr>"
  have after: "session_at env v sp old (cs_world st1)" "fs_ok (disk (cs_world st1))"
    using session_after_open [OF rdy sp] by (simp_all add: st1_def)
  obtain s where s: "old = Some s" "sn_expires_at s \<le> now"
    using False by (auto simp: session_live_def not_less)
  then have "scrub_through_session env v e input sp now st1
      = Some (st1, Inl (CSession (Expired (sn_expires_at s))))"
    using cli_load_ready [OF r(1,4) after(2,1)]
    by (simp add: scrub_through_session_def try_run_def check_expiry_def)
  then show ?thesis
    using scrub_session_start [OF rdy] after s False by (simp add: try_run_def st1_def session_base_def)
qed

lemma wipe_gone:
  assumes "healthy os" "ce_wipe env = wipe_session_file os" "fs_ok (disk (cs_world st))"
    and "content_at (disk (cs_world st)) sp \<noteq> None"
  shows "content_at (disk (cs_world (wipe_session env sp st))) sp = None"
    "cs_out (wipe_session env sp st) = cs_out st"
proof -
  have "map_of (names (disk (cs_world st))) sp \<noteq> None"
    using content_names [OF assms(3), of sp] assms(4) by simp
  then show "content_at (disk (cs_world (wipe_session env sp st))) sp = None"
    "cs_out (wipe_session env sp st) = cs_out st"
    using assms(1,2)
    by (auto simp: wipe_session_def wipe_session_file_def sys_remove_file_def content_at_def file_at_def
        map_of_bind_name)
qed

lemma cs_out_if [simp]: "cs_out (if b then say_err l st else st) = cs_out st"
  "cs_world (if b then say_err l st else st) = cs_world st"
  by simp_all

text \<open>What follows the pass of \<open>restore --session\<close>: the text on standard output, then the summary.\<close>

definition restore_report :: "EngineRestoreResult \<times> nat \<Rightarrow> ('w, 'k) cli_state \<Rightarrow> ('w, 'k, nat) cli" where
  "restore_report = (\<lambda>(result, unused_entries) st. try_run (write_output (rs_output result) st)
      (\<lambda>_ st. let st = say_err (''restored '' @ show_nat (restored_count result) @ '' value(s)'') st in
       Some (if unused_entries > 0
             then say_err (show_nat unused_entries @ '' session entr''
                    @ (if unused_entries = 1 then ''y'' else ''ies'')
                    @ '' not present in this input, discarded with the session file.'') st
             else st, Inr 0)))"

lemma restore_session_start:
  assumes rdy: "ready os env p v e st"
  shows "cli_restore env p input (Some sp) now st =
      try_run (restore_through_session env v e input sp now (st\<lparr>cs_world := clean_orphans (StdVaultIo os) (cs_world st) p\<rparr>))
       restore_report"
  using cli_open_ready [OF rdy] cli_engine_ready [OF rdy]
  by (simp add: cli_restore_def try_run_def [of "Some _"] restore_report_def)

text \<open>A live session is wiped, and then the restored text is written.\<close>

lemma restore_session_live:
  fixes st :: "(machine, 'a) cli_state"
  assumes rdy: "ready os env p v e st" and sp: "session_at env v sp (Some s) (cs_world st)" "\<not> is_tmp_of p sp"
    and live: "now < sn_expires_at s"
    and pass: "restore_with_session (ce_crates env) (ce_order env) e input
      (seed_map env s (saturating_sub (sn_expires_at s) now)) (ce_instant env) = Some (res, session)"
  shows "\<exists>st' r. cli_restore env p input (Some sp) now st = Some (st', r) \<and> content_at (disk (cs_world st')) sp = None
    \<and> (case sk_fault (cs_out st) of
         None \<Rightarrow> r = Inr 0 \<and> sk_text (cs_out st') = sk_text (cs_out st) @ rs_output res
       | Some (room, x) \<Rightarrow> r = (if length (rs_output res) \<le> room then Inr 0 else Inl (CmdIo x))
           \<and> sk_text (cs_out st') = sk_text (cs_out st) @ take room (rs_output res))"
proof -
  note r = readyD [OF rdy]
  define st1 where "st1 = st\<lparr>cs_world := clean_orphans (StdVaultIo os) (cs_world st) p\<rparr>"
  have after: "session_at env v sp (Some s) (cs_world st1)" "fs_ok (disk (cs_world st1))"
    using session_after_open [OF rdy sp] by (simp_all add: st1_def)
  define st2 where "st2 = wipe_session env sp st1"
  have "content_at (disk (cs_world st1)) sp \<noteq> None"
    using after(1) by (auto simp: session_at_def)
  note gone = wipe_gone [OF r(1,5) after(2) this, folded st2_def]
  have "\<not> sn_expires_at s \<le> now" using live by simp
  then have "\<exists>u. restore_through_session env v e input sp now st1 = Some (st2, Inr (res, u))"
    using cli_load_ready [OF r(1,4) after(2,1)] pass
    by (simp add: restore_through_session_def try_run_def check_expiry_def Let_def st2_def)
  then obtain u where "cli_restore env p input (Some sp) now st = restore_report (res, u) st2"
    using restore_session_start [OF rdy] by (auto simp: try_run_def st1_def)
  then show ?thesis
    using gone
    by (auto simp: restore_report_def try_run_def write_output_def sink_write_def map_err_def Let_def st1_def
        split: option.split prod.split)
qed

text \<open>
  (C27) \<^bold>\<open>Restoring consumes the session file before it prints.\<close> A missing session file is an error and
  an expired one too; then nothing is printed and the file stays. With a live one the file is gone
  afterwards in every case: the text is printed if standard output accepts it; if the write fails, what
  it took is all there is: the command fails although the pairs, and with them the only way to
  restore the text, are lost.
\<close>

theorem restore_session_consumes:
  fixes st :: "(machine, 'a) cli_state"
  assumes rdy: "ready os env p v e st" and sp: "session_at env v sp old (cs_world st)" "\<not> is_tmp_of p sp"
    and pass: "\<And>s. old = Some s \<Longrightarrow> restore_with_session (ce_crates env) (ce_order env) e input
      (seed_map env s (saturating_sub (sn_expires_at s) now)) (ce_instant env) = Some (res, session)"
  shows "\<exists>st' r. cli_restore env p input (Some sp) now st = Some (st', r)
    \<and> (case old of
         None \<Rightarrow> r = Inl (session_not_found sp) \<and> cs_out st' = cs_out st
       | Some s \<Rightarrow>
           if sn_expires_at s \<le> now
           then r = Inl (CSession (Expired (sn_expires_at s))) \<and> session_at env v sp old (cs_world st')
             \<and> cs_out st' = cs_out st
           else content_at (disk (cs_world st')) sp = None
             \<and> (case sk_fault (cs_out st) of
                  None \<Rightarrow> r = Inr 0 \<and> sk_text (cs_out st') = sk_text (cs_out st) @ rs_output res
                | Some (room, x) \<Rightarrow> r = (if length (rs_output res) \<le> room then Inr 0 else Inl (CmdIo x))
                    \<and> sk_text (cs_out st') = sk_text (cs_out st) @ take room (rs_output res)))"
proof (cases old)
  case None
  note r = readyD [OF rdy]
  define st1 where "st1 = st\<lparr>cs_world := clean_orphans (StdVaultIo os) (cs_world st) p\<rparr>"
  have after: "session_at env v sp old (cs_world st1)" "fs_ok (disk (cs_world st1))"
    using session_after_open [OF rdy sp] by (simp_all add: st1_def)
  then have "restore_through_session env v e input sp now st1 = Some (st1, Inl (session_not_found sp))"
    using cli_load_ready [OF r(1,4) after(2,1)] None by (simp add: restore_through_session_def try_run_def)
  then show ?thesis
    using restore_session_start [OF rdy] None by (simp add: try_run_def st1_def)
next
  case (Some s)
  show ?thesis
  proof (cases "sn_expires_at s \<le> now")
    case True
    note r = readyD [OF rdy]
    define st1 where "st1 = st\<lparr>cs_world := clean_orphans (StdVaultIo os) (cs_world st) p\<rparr>"
    have after: "session_at env v sp old (cs_world st1)" "fs_ok (disk (cs_world st1))"
      using session_after_open [OF rdy sp] by (simp_all add: st1_def)
    then have "restore_through_session env v e input sp now st1
        = Some (st1, Inl (CSession (Expired (sn_expires_at s))))"
      using cli_load_ready [OF r(1,4) after(2,1)] Some True
      by (simp add: restore_through_session_def try_run_def check_expiry_def)
    then show ?thesis
      using restore_session_start [OF rdy] after Some True by (simp add: try_run_def st1_def)
  next
    case False
    then show ?thesis
      using restore_session_live [OF rdy _ sp(2) _ pass [OF Some]] sp(1) Some by simp
  qed
qed

section \<open>scrub and restore without a session file\<close>

text \<open>
  The texts that come back: every match is an FF1 registration, no two different values share a fake,
  and in the scrubbed text nothing but the fakes has the shape of a fake.
\<close>

definition restorable :: "crates \<Rightarrow> Engine \<Rightarrow> RegisteredValue list \<Rightarrow> string \<Rightarrow> bool" where
  "restorable c e rvs input \<longleftrightarrow>
     (\<forall>rv \<in> set rvs. scrubbable rv) \<and> (\<forall>r. Fpe r \<in> set rvs \<longrightarrow> eligible r) \<and> is_ascii input
     \<and> (\<forall>(a, b, v) \<in> set (engine_matches c rvs input). \<exists>r. rvs ! v = Fpe r)
     \<and> (\<forall>r r' f. Fpe r \<in> set rvs \<and> Fpe r' \<in> set rvs \<and> fpe_scrub c (eng_fpe e) r = Some (Inr f)
          \<and> fpe_scrub c (eng_fpe e) r' = Some (Inr f) \<longrightarrow> fr_value r = fr_value r')
     \<and> (\<forall>res. engine_scrub c e input = Some res \<longrightarrow>
          only_fakes (sc_output res) (fpe_regs rvs) (engine_matches c rvs input))"

lemma build_engine_new:
  assumes "build_engine c v = Some (Inr e)" "registered_values v = Inr rvs"
  obtains mac where "engine_new c (vault_key_provider (v_key v)) rvs [] mac = Some (Inr e)"
  using assms by (auto simp: build_engine_def map_err_def split: Option.bind_splits sum.splits)

lemma stored_world:
  "stored sound content env p v st \<Longrightarrow> sound w \<Longrightarrow> content w p = content (cs_world st) p \<Longrightarrow>
     stored sound content env p v (st\<lparr>cs_world := w\<rparr>)"
  by (simp add: stored_def)

lemma ready_after_open:
  assumes "ready os env p v e st"
  shows "ready os env p v e (st\<lparr>cs_world := clean_orphans (StdVaultIo os) (cs_world st) p\<rparr>)"
proof -
  note r = readyD [OF assms]
  have "fs_ok (disk (clean_orphans (StdVaultIo os) (cs_world st) p))"
    "content_at (disk (clean_orphans (StdVaultIo os) (cs_world st) p)) p = content_at (disk (cs_world st)) p"
    using std_io.std_clean_orphans [OF std_io.intro [OF healthy_honest [OF r(1)]] r(9)] by auto
  then show ?thesis
    using assms by (simp add: ready_def clean_orphans_dirs stored_world)
qed

lemma ready_output [simp]:
  "ready os env p v e (st\<lparr>cs_out := s\<rparr>) = ready os env p v e st"
  "ready os env p v e (say_err l st) = ready os env p v e st"
  "ready os env p v e (fold (\<lambda>n. say_err (f n)) ns st) = ready os env p v e st"
proof -
  show 1: "ready os env p v e (say_err l st) = ready os env p v e st" for l st
    by (simp add: ready_def)
  show "ready os env p v e (st\<lparr>cs_out := s\<rparr>) = ready os env p v e st"
    by (simp add: ready_def stored_def)
  show "ready os env p v e (fold (\<lambda>n. say_err (f n)) ns st) = ready os env p v e st"
    by (induction ns arbitrary: st) (simp_all add: 1)
qed

text \<open>One pass without a session file on a machine that works.\<close>

lemma cli_scrub_plain:
  assumes "ready os env p v e st" "engine_scrub (ce_crates env) e input = Some res" "sk_fault (cs_out st) = None"
  obtains st' where "cli_scrub env p input None now st = Some (st', Inr 0)" "ready os env p v e st'"
    "cs_out st' = (cs_out st)\<lparr>sk_text := sk_text (cs_out st) @ sc_output res\<rparr>"
proof -
  define st1 where "st1 = (st\<lparr>cs_world := clean_orphans (StdVaultIo os) (cs_world st) p\<rparr>)
      \<lparr>cs_out := (cs_out st)\<lparr>sk_text := sk_text (cs_out st) @ sc_output res\<rparr>\<rparr>"
  show thesis
    by (rule that [of "say_err (''scrubbed '' @ show_nat (scrubbed_count res) @ '' value(s)'')
        (fold (\<lambda>n. say_err (format_notice n)) (notices res) st1)"])
      (use assms ready_after_open [OF assms(1)] cli_open_ready [OF assms(1)] cli_engine_ready [OF assms(1)]
        in \<open>simp_all add: cli_scrub_def try_run_def write_output_def sink_write_def map_err_def st1_def\<close>)
qed

lemma cli_restore_plain:
  assumes "ready os env p v e st" "engine_restore (ce_crates env) e input = Some res" "sk_fault (cs_out st) = None"
  obtains st' where "cli_restore env p input None now st = Some (st', Inr 0)"
    "cs_out st' = (cs_out st)\<lparr>sk_text := sk_text (cs_out st) @ rs_output res\<rparr>"
proof -
  define st1 where "st1 = (st\<lparr>cs_world := clean_orphans (StdVaultIo os) (cs_world st) p\<rparr>)
      \<lparr>cs_out := (cs_out st)\<lparr>sk_text := sk_text (cs_out st) @ rs_output res\<rparr>\<rparr>"
  show thesis
    by (rule that [of "say_err (''restored '' @ show_nat (restored_count res) @ '' value(s)'') st1"])
      (use assms cli_open_ready [OF assms(1)] cli_engine_ready [OF assms(1)]
        in \<open>simp_all add: cli_restore_def try_run_def write_output_def sink_write_def map_err_def st1_def Let_def\<close>)
qed

text \<open>
  \<^bold>\<open>scrub and restore, as two processes, give the text back.\<close> On a machine that works, with a vault
  whose engine builds, \<open>scrub\<close> of a restorable text exits 0 and prints a text of which \<open>restore\<close>, run
  later on the same vault, prints the input and exits 0.
\<close>

theorem cli_round_trip:
  assumes rdy: "ready os env p v e st" and out: "sk_fault (cs_out st) = None"
    and crates: "crates_ok (ce_crates env)"
    and vals: "registered_values v = Inr rvs" "restorable (ce_crates env) e rvs input"
  shows "\<exists>scrubbed st' st''. cli_scrub env p input None now st = Some (st', Inr 0)
    \<and> sk_text (cs_out st') = sk_text (cs_out st) @ scrubbed
    \<and> cli_restore env p scrubbed None now' st' = Some (st'', Inr 0)
    \<and> sk_text (cs_out st'') = sk_text (cs_out st') @ input"
proof -
  note r = vals(2) [unfolded restorable_def]
  obtain mac where new: "engine_new (ce_crates env) (vault_key_provider (v_key v)) rvs [] mac = Some (Inr e)"
    using build_engine_new [OF readyD(8) [OF rdy] vals(1)] .
  have utf: "is_utf8 input"
    using r ascii_is_utf8 by blast
  obtain res where res: "engine_scrub (ce_crates env) e input = Some res"
    using engine_scrub_of [OF crates new _ utf] r by blast
  have restored: "engine_restore (ce_crates env) e (sc_output res) = Some \<lparr>rs_output = input,
      restored_count = length (engine_matches (ce_crates env) rvs input)\<rparr>"
    using r res by (intro engine_restores_scrubbed [OF crates new]) blast+
  obtain st' where st': "cli_scrub env p input None now st = Some (st', Inr 0)" "ready os env p v e st'"
      "cs_out st' = (cs_out st)\<lparr>sk_text := sk_text (cs_out st) @ sc_output res\<rparr>"
    using cli_scrub_plain [OF rdy res out] .
  obtain st'' where "cli_restore env p (sc_output res) None now' st' = Some (st'', Inr 0)"
      "cs_out st'' = (cs_out st')\<lparr>sk_text := sk_text (cs_out st') @ input\<rparr>"
    using cli_restore_plain [OF st'(2) restored, of now'] out st'(3) by auto
  then show ?thesis
    using st' by auto
qed

section \<open>A machine with a vault and a session file\<close>

definition sealed_vault :: "Vault \<Rightarrow> u8 list" where
  "sealed_vault v =
     (case json_to_vec vault_serde (v_contents v) of
        Inl _ \<Rightarrow> []
      | Inr plain \<Rightarrow>
          (case encrypt_vault ref_crates sample_rng (v_key v) plain of Some (Inr bytes) \<Rightarrow> bytes | _ \<Rightarrow> []))"

definition sealed_session :: "Vault \<Rightarrow> SessionContents \<Rightarrow> u8 list" where
  "sealed_session v s =
     (case json_to_vec session_serde s of
        Inl _ \<Rightarrow> []
      | Inr plain \<Rightarrow>
          (case encrypt_session_bytes ref_crates sample_rng (v_key v) plain of Some (Inr bytes) \<Rightarrow> bytes | _ \<Rightarrow> []))"

lemma sealed_vault_opens:
  "decrypt_vault ref_crates vault_serde (v_key v) (sealed_vault v) = Some (Inr (v_contents v))"
proof -
  obtain plain where plain: "json_to_vec vault_serde (v_contents v) = Inr plain"
      "json_from_slice vault_serde plain = Inr (v_contents v)"
    using vault_serde_contract [of "\<lambda>_. True"] TrueI by (rule serde_contractD)
  obtain r where r: "encrypt_vault ref_crates sample_rng (v_key v) plain = Some r"
    using encrypt_vault_returns [OF sample_env_ok(1)] by (auto simp: sample_env_def)
  show ?thesis
    using decrypt_encrypt [OF sample_sealing r, of vault_serde] plain r
    by (auto simp: sealed_vault_def map_err_def)
qed

lemma sealed_session_opens:
  "decrypt_session_bytes ref_crates session_serde (v_key v) (sealed_session v s) t = Some (check_expiry t s)"
proof -
  obtain plain where plain: "json_to_vec session_serde s = Inr plain" "json_from_slice session_serde plain = Inr s"
    using session_serde_contract [of "\<lambda>_. True"] TrueI by (rule serde_contractD)
  obtain k where k: "derive_session_aead_key ref_crates (v_key v) = Some k"
    using ref_digests(3) by (rule derive_session_aead_key_ok)
  obtain r where r: "encrypt_session_bytes ref_crates sample_rng (v_key v) plain = Some r"
    using k by (simp add: encrypt_session_bytes_def os_random_nonce_def sample_rng_def)
  show ?thesis
    using decrypt_encrypt_session [OF sample_sealing r, of session_serde t] plain r
    by (auto simp: sealed_session_def map_err_def bind_result_def)
qed

definition one_secret :: Vault where
  "one_secret = \<lparr>v_key = replicate 32 1, v_contents = \<lparr>vc_schema_version = 1,
     vc_entries = [\<lparr>ve_label = ''anthropic'', ve_value = ''sk-123456'',
       ve_kind = FpeEntry (replicate 16 7) ''sk-'' ''DIGITS''\<rparr>]\<rparr>\<rparr>"

definition one_secret_engine :: Engine where
  "one_secret_engine = sample_engine\<lparr>eng_session_mac_key := replicate 32 1\<rparr>"

definition vault_file :: path where
  "vault_file = abs_path [''v'', ''g'']"

definition session_file :: path where
  "session_file = abs_path [''v'', ''f'']"

definition full_machine :: machine where
  "full_machine = \<lparr>disk = \<lparr>inodes =
       [(0, \<lparr>data = sealed_session one_secret sample_session, mode = 0x180, synced = True\<rparr>),
        (1, \<lparr>data = sealed_vault one_secret, mode = 0x180, synced = True\<rparr>)],
     names = [(session_file, 0), (vault_file, 1)], pending = [], dirs = [(abs_path [''v''], 0x1C0)], new_dirs = [],
     next_inode = 2\<rparr>, history = []\<rparr>"

definition full_state :: "(machine, InMemoryKeychain) cli_state" where
  "full_state = sample_state\<lparr>cs_world := full_machine\<rparr>"

lemma one_secret_values: "registered_values one_secret = Inr [Fpe sample_reg]"
  by (simp add: registered_values_def one_secret_def entry_to_registered_def resolve_alphabet_def bind_result_def
      ok_or_def sample_reg_def)

lemma one_secret_new:
  "engine_new ref_crates \<lparr>provider_key = replicate 32 1\<rparr> [Fpe sample_reg] [] (replicate 32 1)
    = Some (Inr one_secret_engine)"
  by (simp add: engine_new_def exact_build_def fpe_new_def vault_key_def FF1_KEY_LEN_def ref_crates_def
      hkdf_max_len_def sample_engine_def sample_tokenizer_def one_secret_engine_def)

lemma one_secret_builds: "build_engine ref_crates one_secret = Some (Inr one_secret_engine)"
proof -
  have "derive_mac_key ref_crates (replicate 32 1) = Some (replicate 32 1)"
    by (simp add: derive_mac_key_def ref_crates_def hkdf_max_len_def)
  moreover have "v_key one_secret = replicate 32 1"
    by (simp add: one_secret_def)
  ultimately show ?thesis
    using one_secret_new
    by (simp add: build_engine_def one_secret_values vault_key_provider_def map_err_def)
qed

lemma full_ready: "ready healthy_env sample_env vault_file one_secret one_secret_engine full_state"
proof -
  have f: "fs_ok (disk full_machine)" "\<not> dir_exists (disk full_machine) vault_file"
      "content_at (disk full_machine) vault_file = Some (sealed_vault one_secret)"
    by (simp_all add: full_machine_def fs_ok_def dir_exists_def content_at_def file_at_def vault_file_def session_file_def)
  have k: "kb_fetch mem_backend (mem_preloaded VaultKey (replicate 32 1)) VaultKey = Inr (Some (v_key one_secret))"
    by (simp add: mem_backend_def mem_fetch_def mem_preloaded_def one_secret_def)
  have "stored_on_disk sample_env vault_file one_secret full_state"
    using f k sealed_vault_opens [of one_secret]
    by (simp add: stored_def full_state_def sample_state_def sample_env_def)
  then show ?thesis
    using f sample_env_ok(1) one_secret_builds session_serde_contract
    by (simp add: ready_def full_state_def sample_env_def)
qed

lemma full_session: "session_at sample_env one_secret session_file (Some sample_session) (cs_world full_state)"
proof -
  have "content_at (disk full_machine) session_file = Some (sealed_session one_secret sample_session)"
    by (simp add: full_machine_def content_at_def file_at_def vault_file_def session_file_def)
  then show ?thesis
    using sealed_session_opens by (simp add: session_at_def full_state_def sample_env_def)
qed

lemma not_orphan: "\<not> is_tmp_of vault_file session_file"
proof -
  have "to_string_lossy ''g'' = ''g''" "to_string_lossy ''f'' = ''f''"
    by (rule to_string_lossy_ascii; simp)+
  then show ?thesis
    by (simp add: is_tmp_of_def vault_file_def session_file_def file_name_def starts_with_def strip_prefix_def
        del: to_string_lossy.simps)
qed

lemma full_output: "sk_fault (cs_out full_state) = None" "sk_text (cs_out full_state) = []"
  by (simp_all add: full_state_def sample_state_def)

lemma sample_env_sel:
  "ce_crates sample_env = ref_crates" "ce_order sample_env = (\<lambda>es. es)" "ce_instant sample_env = 0"
  by (simp_all add: sample_env_def)

lemma sample_seed_inv: "sm_inv (seed_map sample_env sample_session k)"
  by (simp add: seed_map_def sample_session_def new_at_def import_pairs_def sm_inv_insert session_new_inv session_simps)

text \<open>The pass over a text with the pair of the session file, whatever the life of the map.\<close>

lemma sample_seed:
  "seed_map sample_env sample_session k = \<lparr>max_entries = CLI_SESSION_MAP_CAPACITY, ttl = from_secs (max k 1),
     by_fake = [(''a@example.com'', \<lparr>real_of = ''me@x.org'', last_touched = 0\<rparr>)],
     by_real = [(''me@x.org'', ''a@example.com'')]\<rparr>"
  by (simp add: seed_map_def sample_env_sel sample_session_def new_at_def import_pairs_def insert_pair_def session_new_def)

lemma sample_restore_texts:
  "str_contains ''to a@example.com'' ''a@example.com''" "str_matches_count ''to a@example.com'' ''a@example.com'' = 1"
  "str_replace ''to a@example.com'' ''a@example.com'' ''me@x.org'' = ''to me@x.org''"
  by code_simp+

lemma sample_restore_pass:
  "\<exists>m. restore_with_session ref_crates (\<lambda>es. es) one_secret_engine ''to a@example.com''
      (seed_map sample_env sample_session k) 0 = Some (\<lparr>rs_output = ''to me@x.org'', restored_count = 1\<rparr>, m)"
proof -
  have candidates: "filter (str_contains ''to a@example.com'')
      (map fst (entries (\<lambda>es. es) (seed_map sample_env sample_session k))) = [''a@example.com'']"
    using sample_restore_texts(1) by (simp add: sample_seed entries_def)
  obtain m where pass: "session_pass [''a@example.com''] 0 (''to a@example.com'', 0, seed_map sample_env sample_session k)
      = (''to me@x.org'', 1, m)"
    using sample_restore_texts(2,3) by (simp add: sample_seed session_restore_def prune_def expired_def touch_def)
  have "engine_restore ref_crates one_secret_engine ''to me@x.org''
      = Some \<lparr>rs_output = ''to me@x.org'', restored_count = 0\<rparr>"
    by code_simp
  then show ?thesis
    using candidates pass by (simp add: restore_with_session_def)
qed

theorem restore_session_consumes_witness:
  "\<exists>st'. cli_restore sample_env vault_file ''to a@example.com'' (Some session_file) 1000 full_state = Some (st', Inr 0)
     \<and> sk_text (cs_out st') = ''to me@x.org'' \<and> content_at (disk (cs_world st')) session_file = None"
proof -
  obtain m where pass: "restore_with_session ref_crates (\<lambda>es. es) one_secret_engine ''to a@example.com''
      (seed_map sample_env sample_session (saturating_sub (sn_expires_at sample_session) 1000)) 0
      = Some (\<lparr>rs_output = ''to me@x.org'', restored_count = 1\<rparr>, m)"
    using sample_restore_pass by blast
  show ?thesis
    using restore_session_consumes [OF full_ready full_session not_orphan, where now = 1000,
        unfolded sample_env_sel, of "''to a@example.com''"] pass
    by (fastforce simp: full_output sample_session_times)
qed

lemma sample_scrub_pass:
  assumes "sm_inv session"
  shows "\<exists>res m. scrub_with_session ref_crates (\<lambda>es. es) one_secret_engine sample_input session 0 = Some (res, m)"
proof -
  have e: "engine_of ref_crates [Fpe sample_reg] one_secret_engine"
    using engine_new_of one_secret_new ref_crates_ok by (simp add: crates_ok_def)
  have "is_utf8 sample_input"
    by (simp add: sample_input_def)
  then show ?thesis
    using scrub_impl_spec [OF ref_crates_ok e sample_scrubbable, of sample_input "\<lambda>es. es" "MapStore session 0"]
      store_fold_inv [OF assms]
    by (fastforce simp: scrub_with_session_def)
qed

lemma full_can_save: "can_save healthy_env session_file (cs_world full_state)"
proof -
  have "tmp_path healthy_env session_file \<noteq> vault_file \<and> tmp_path healthy_env session_file \<noteq> session_file
      \<and> tmp_path healthy_env session_file \<noteq> abs_path [''v''] \<and> tmp_path healthy_env session_file \<noteq> abs_path []"
    by code_simp
  then show ?thesis
    by (simp add: can_save_def full_state_def full_machine_def path_exists_def dir_exists_def dir_of_def parent_of_def)
      (simp add: session_file_def)
qed

text \<open>A scrub half an hour later: the pairs change, the times do not.\<close>

theorem scrub_session_keeps_expiry_witness:
  "\<exists>st' new. cli_scrub sample_env vault_file sample_input (Some session_file) 2799 full_state = Some (st', Inr 0)
     \<and> session_at sample_env one_secret session_file (Some (sample_session\<lparr>sn_entries := new\<rparr>)) (cs_world st')"
proof -
  obtain res session where pass: "scrub_with_session ref_crates (\<lambda>es. es) one_secret_engine sample_input
      (seed_map sample_env (session_base (Some sample_session) 2799) (session_life (Some sample_session) 2799)) 0
      = Some (res, session)"
    using sample_scrub_pass [OF sample_seed_inv] by (force simp: session_base_def)
  have "session_live (Some sample_session) 2799"
    by (simp add: session_live_def sample_session_times)
  then show ?thesis
    using scrub_session_keeps_expiry [OF full_ready full_session not_orphan full_can_save, where now = 2799,
        unfolded sample_env_sel, OF pass]
    by (auto simp: full_output session_base_def)
qed

lemma sample_restorable: "restorable ref_crates one_secret_engine [Fpe sample_reg] sample_input"
proof -
  have "replacement ref_crates one_secret_engine False (Fpe sample_reg) = (''sk-234567'', [])"
    by (simp add: replacement_def one_secret_engine_def sample_engine_def sample_scrub)
  then have scrub: "engine_scrub ref_crates one_secret_engine sample_input =
      Some \<lparr>sc_output = ''key sk-234567 end'', scrubbed_count = 1, notices = []\<rparr>"
    using engine_scrub_of [OF ref_crates_ok one_secret_new sample_scrubbable, of sample_input]
    by (simp add: sample_matches) (simp add: sample_input_def)
  have len: "length (fr_value sample_reg) = 9" by (simp add: sample_reg_def)
  show ?thesis
    using sample_scrubbable scrub
    by (simp add: restorable_def sample_facts sample_matches only_fakes_def sample_profile len)
      (simp add: sample_input_def)
qed

theorem cli_round_trip_witness:
  "\<exists>scrubbed st' st''. cli_scrub sample_env vault_file sample_input None 5 full_state = Some (st', Inr 0)
     \<and> sk_text (cs_out st') = scrubbed
     \<and> cli_restore sample_env vault_file scrubbed None 6 st' = Some (st'', Inr 0)
     \<and> sk_text (cs_out st'') = scrubbed @ sample_input"
  using cli_round_trip [OF full_ready full_output(1) _ one_secret_values, of sample_input 5 6]
    sample_restorable ref_crates_ok
  by (auto simp: sample_env_sel full_output)

end
