(* ===== verification/SessionRoundTrip.thy ===== *)
theory SessionRoundTrip
  imports CliSession SessionRestoring
begin

text \<open>
  The round trip of the program with a session file: \<open>scrub --session\<close> in one process and
  \<open>restore --session\<close> in a later one, through the vault and the session file on the disk.
\<close>

section \<open>Saving a session beside the vault\<close>

lemma std_write_dirs:
  assumes "std_write_atomic env m path bytes md = (m', r)" "dir_exists (disk m) (dir_of path)"
  shows "dirs (disk m') = dirs (disk m)"
proof -
  have "ensure_parent env m (dir_of path) = (m, Inr ())"
    using assms(2) by (simp add: ensure_parent_def path_exists_def)
  then show ?thesis
    using assms
    by (auto simp: std_write_atomic_def Let_def write_tmp_def open_tmp_def sys_create_new_def sys_write_all_def
        sys_fsync_def sys_rename_def fsync_parent_def sys_fsync_dir_def sys_remove_file_def
        split: option.splits sum.splits if_splits prod.splits)
qed

lemma save_session_file_writes:
  assumes "save_session_file c sd io rng w p vk contents = Some (w', Inr ())"
  obtains bytes where "vi_write_atomic io w p bytes SESSION_FILE_MODE = (w', Inr ())"
proof (cases "json_to_vec sd contents")
  case (Inr plain)
  obtain x where x: "encrypt_session_bytes c rng vk plain = Some x"
    using assms Inr by (auto simp: save_session_file_def split: Option.bind_splits)
  show thesis
  proof (cases x)
    case (Inr bytes)
    then show thesis
      using assms \<open>json_to_vec sd contents = Inr plain\<close> x that [of bytes]
      by (cases "vi_write_atomic io w p bytes SESSION_FILE_MODE")
        (auto simp: save_session_file_def map_err_def split: sum.splits)
  qed (use assms Inr x in \<open>simp add: save_session_file_def\<close>)
qed (use assms in \<open>simp add: save_session_file_def\<close>)

text \<open>Neither the session file nor its temporary file is the vault, so the vault stays as it is.\<close>

lemma save_keeps_ready:
  assumes rdy: "ready os env p v e st" and save: "can_save os sp (cs_world st)"
    and sv: "cli_save_session env n v sp s st = Some (st', Inr u)" and other: "p \<noteq> sp" "p \<noteq> tmp_path os sp"
  shows "ready os env p v e st'"
proof -
  note r = readyD [OF rdy]
  obtain w x where x: "save_session_file (ce_crates env) (ce_session_serde env) (StdVaultIo os) (ce_rng env n)
      (cs_world st) sp (v_key v) s = Some (w, x)" "st' = st\<lparr>cs_world := w\<rparr>" "map_err CSession x = Inr u"
    using sv r(4) by (auto simp: cli_save_session_def vault_save_session_file_def)
  then have x2: "save_session_file (ce_crates env) (ce_session_serde env) (StdVaultIo os) (ce_rng env n)
      (cs_world st) sp (v_key v) s = Some (w, Inr ())"
    by (cases x) (simp_all add: map_err_def)
  obtain bytes where w: "std_write_atomic os (cs_world st) sp bytes SESSION_FILE_MODE = (w, Inr ())"
    using save_session_file_writes [OF x2] by (auto simp: StdVaultIo_def)
  have "fs_ok (disk w)" "content_at (disk w) p = content_at (disk (cs_world st)) p"
    using std_write_spec(1,4) [OF r(9) w] other by blast+
  moreover have "dirs (disk w) = dirs (disk (cs_world st))"
    using std_write_dirs [OF w] save by (simp add: can_save_def)
  then have "\<not> dir_exists (disk w) p"
    using r(7) dir_exists_cong by blast
  ultimately show ?thesis
    using rdy x(2) by (simp add: ready_def stored_world)
qed

section \<open>The session map behind the file\<close>

text \<open>Everything that is imported counts from the instant of the import.\<close>

lemma import_touched:
  assumes "\<forall>f e. map_of (by_fake m) f = Some e \<longrightarrow> last_touched e = now"
  shows "\<forall>f e. map_of (by_fake (import_pairs ps now m)) f = Some e \<longrightarrow> last_touched e = now"
  using assms unfolding import_pairs_def
proof (induction ps arbitrary: m)
  case (Cons p ps)
  have "\<forall>f e. map_of (by_fake (insert_pair (fst p) (snd p) now m)) f = Some e \<longrightarrow> last_touched e = now"
    using Cons.prems by (auto simp: insert_pair_def Let_def update_conv')
  from Cons.IH [OF this] show ?case by (simp add: case_prod_beta)
qed simp

lemma import_live: "live_real (import_pairs ps now (session_new n t)) now f = real_at (import_pairs ps now (session_new n t)) f"
  using import_touched [of "session_new n t" now ps]
  by (auto simp: live_real_def real_at_def expired_def session_new_def split: option.split)

lemma seed_of_saved:
  "seed_map env (session_after env old now session) k =
     import_pairs (entries (ce_order env) session) (ce_instant env)
       (session_new CLI_SESSION_MAP_CAPACITY (from_secs (max k 1)))"
proof -
  have "map (\<lambda>p. (sp_fake p, sp_real p)) (sn_entries (session_after env old now session)) = entries (ce_order env) session"
    by (simp add: session_after_def comp_def case_prod_beta)
  then show ?thesis by (simp add: seed_map_def)
qed

lemma seed_agrees:
  assumes "permutes_entries (ce_order env)" "sm_inv session"
  shows "sm_weak (seed_map env (session_after env old now session) k)"
    "real_at (seed_map env (session_after env old now session) k) = real_at session"
    "live_real (seed_map env (session_after env old now session) k) (ce_instant env) f = real_at session f"
  using session_export_import [OF assms] by (simp_all add: seed_of_saved sm_inv_weak import_live)

section \<open>A machine with a vault of two values\<close>

definition two_secrets :: Vault where
  "two_secrets = \<lparr>v_key = replicate 32 1, v_contents = \<lparr>vc_schema_version = 1,
     vc_entries = [\<lparr>ve_label = ''anthropic'', ve_value = ''sk-123456'',
         ve_kind = FpeEntry (replicate 16 7) ''sk-'' ''DIGITS''\<rparr>,
       \<lparr>ve_label = ''mail'', ve_value = ''me@x.org'', ve_kind = SessionEntry (Pii Email)\<rparr>]\<rparr>\<rparr>"

definition two_state :: "(machine, InMemoryKeychain) cli_state" where
  "two_state = sample_state\<lparr>cs_world := \<lparr>disk = \<lparr>inodes =
       [(1, \<lparr>data = sealed_vault two_secrets, mode = 0x180, synced = True\<rparr>)],
     names = [(vault_file, 1)], pending = [], dirs = [(abs_path [''v''], 0x1C0)], new_dirs = [],
     next_inode = 2\<rparr>, history = []\<rparr>\<rparr>"

lemma two_values: "registered_values two_secrets = Inr mixed_values"
  by (simp add: registered_values_def two_secrets_def entry_to_registered_def resolve_alphabet_def bind_result_def
      ok_or_def sample_reg_def mail_reg_def mixed_values_def)

lemma two_builds: "build_engine ref_crates two_secrets = Some (Inr mixed_engine)"
proof -
  have "derive_mac_key ref_crates (replicate 32 1) = Some (replicate 32 1)"
    by (simp add: derive_mac_key_def ref_crates_def hkdf_max_len_def)
  moreover have "v_key two_secrets = replicate 32 1"
    by (simp add: two_secrets_def)
  ultimately show ?thesis
    using mixed_new by (simp add: build_engine_def two_values vault_key_provider_def map_err_def)
qed

lemma two_ready: "ready healthy_env sample_env vault_file two_secrets mixed_engine two_state"
proof -
  let ?d = "disk (cs_world two_state)"
  have f: "fs_ok ?d" "\<not> dir_exists ?d vault_file" "content_at ?d vault_file = Some (sealed_vault two_secrets)"
    by (simp_all add: two_state_def fs_ok_def dir_exists_def content_at_def file_at_def vault_file_def)
  have "kb_fetch mem_backend (mem_preloaded VaultKey (replicate 32 1)) VaultKey = Inr (Some (v_key two_secrets))"
    by (simp add: mem_backend_def mem_fetch_def mem_preloaded_def two_secrets_def)
  then have "stored_on_disk sample_env vault_file two_secrets two_state"
    using f sealed_vault_opens [of two_secrets]
    by (simp add: stored_def) (simp add: two_state_def sample_state_def sample_env_def)
  then show ?thesis
    using f sample_env_ok(1) two_builds session_serde_contract
    by (simp add: ready_def sample_env_def)
qed

lemma two_session_file:
  "session_at sample_env two_secrets session_file None (cs_world two_state)"
  "can_save healthy_env session_file (cs_world two_state)"
  "vault_file \<noteq> session_file" "vault_file \<noteq> tmp_path healthy_env session_file"
proof -
  have t: "tmp_path healthy_env session_file \<noteq> vault_file \<and> tmp_path healthy_env session_file \<noteq> abs_path [''v'']
      \<and> tmp_path healthy_env session_file \<noteq> abs_path []"
    by code_simp
  then show "vault_file \<noteq> tmp_path healthy_env session_file" by metis
  from t show "can_save healthy_env session_file (cs_world two_state)"
    by (simp add: can_save_def two_state_def path_exists_def dir_exists_def dir_of_def parent_of_def)
      (simp add: session_file_def)
  show "session_at sample_env two_secrets session_file None (cs_world two_state)" "vault_file \<noteq> session_file"
    by (simp_all add: session_at_def two_state_def content_at_def file_at_def dir_exists_def vault_file_def session_file_def)
qed

lemma two_seed:
  "seed_map sample_env (session_base None now) k = session_new CLI_SESSION_MAP_CAPACITY (from_secs (max k 1))"
  by (simp add: seed_map_def session_base_def new_at_def import_pairs_def)

section \<open>Two processes\<close>



end
