(* ===== verification/Spec2Isabelle.thy ===== *)
theory Spec2Isabelle
  imports Idempotence SessionFile Control InstanceLock Paths X11 Rescrub Collisions RestoreLimits SessionRoundTrip
begin

text \<open>
  A verification development for Invisibool, a local tool that replaces registered secrets in text by
  format-preserving fakes before the text is pasted into a prompt, and restores them in the answer.

  \<^bold>\<open>The program.\<close> \<open>crates/invisibool-engine\<close> is the core: the tokenizers make fakes (FF1 for values with a
  large enough domain, MAC-tagged or reserved-range fakes for the others), detection finds registered
  values, idempotence decides what not to scrub again, and the engine runs the passes over a text. The
  vault keeps the registered values in one encrypted file whose key is in the operating system's key
  storage; a session file keeps the pairs that cannot be computed back. \<open>crates/invisibool-control\<close> is
  the control channel of the daemon (frames over a Unix socket, one request each),
  \<open>crates/invisibool-clipboard\<close> the clipboard interface, and \<open>crates/invisibool\<close> the command line.

  \<^bold>\<open>Conventions.\<close> A Rust \<open>str\<close> is a list of bytes (\<open>char\<close>), a Rust \<open>char\<close> a number, a byte slice a list of
  \<open>8 word\<close>; \<open>u32\<close> and \<open>u64\<close> are words and \<open>usize\<close> is a natural number. \<open>Result\<close> is a sum with the error on the
  left. A computation that may panic has type \<open>'a run\<close>, and \<open>None\<close> is the panic; theorems say which
  inputs panic. A hash map is an association list and every function whose result depends on the
  iteration order takes that order as an argument. Code that is not in the repository (FF1, HKDF,
  HMAC, SHA-256, the AEAD, Aho-Corasick, serde, the keyring crate, x11rb with the X server, clap) is a record of functions
  whose documented behaviour is a named contract; each contract has an instance in the theories, on
  which the witnesses run. A trait object is a record of functions over an explicit state.

  \<^bold>\<open>Theories and what they show.\<close>
  \<^item> \<open>Prelude\<close>: errors, panics, byte strings, UTF-8, slices at character boundaries, searching. \<open>Crates\<close>: the
    third-party functions, their contracts and an instance.
  \<^item> \<open>Alphabet\<close>, \<open>Fpe\<close>, \<open>Mac\<close>, \<open>Reserved\<close> (\<open>tokenizer/alphabet.rs\<close>, \<open>fpe.rs\<close>, \<open>mac.rs\<close>, \<open>reserved.rs\<close>): which
    alphabets and values are accepted, the format of fakes, \<open>try_restore\<close> as the inverse look-up of
    \<open>scrub\<close>, what \<open>verify\<close> accepts, Luhn digits, and where fakes must collide.
  \<^item> \<open>SessionMap\<close> (\<open>tokenizer/session.rs\<close>): no fake and no value ever has two entries; the map stays a bijection
    as long as what is imported is one-to-one, and within its capacity but for imported pairs; expiry,
    eviction, export and import.
  \<^item> \<open>Detection\<close> (\<open>detection/\<close>), \<open>Idempotence\<close> (\<open>idempotence.rs\<close>): the selection of overlapping matches, and that
    what the engine emits is not scrubbed again.
  \<^item> \<open>Engine\<close>, \<open>Restoring\<close> (\<open>engine.rs\<close>): scrubbing replaces exactly the matches and leaves no registered
    value in the copied pieces, and panics exactly when a formatless value above the HKDF ceiling is
    met; restoring gives the input back under stated conditions. \<open>RestoreLimits\<close>: on which texts restoring
    panics, and which registrations it passes over. \<open>Rescrub\<close>: scrubbing changes exactly the texts that contain a registered value.
  \<^item> \<open>Tokens\<close>, \<open>SessionRestoring\<close>, \<open>Collisions\<close> (\<open>engine.rs\<close> with \<open>tokenizer/session.rs\<close>): replacing the fakes of a
    session one after the other gives a text with values of every kind back, in any order of the hash
    table, when fakes and values correspond one to one; two numbers that share a fake are mixed up, and a
    value whose kind changed is lost.
  \<^item> \<open>Fs\<close>, \<open>VaultIo\<close> (\<open>vault/io.rs\<close>): a file system with caches, faults and power losses, and that an atomic
    write leaves the old or the new contents at every point. A directory is durable only when the one above
    it has been synced, so a parent that the write itself created may be lost with the file.
  \<^item> \<open>Keychain\<close> (\<open>keychain/\<close>), \<open>Serde\<close>, \<open>Vault\<close> (\<open>vault/mod.rs\<close>, \<open>format.rs\<close>), \<open>SessionFile\<close> (\<open>session_file.rs\<close>): what
    is saved is what is opened, opening fails closed, the vault is a map, only a missing entry
    generates a key, session files expire, and neither file is taken for the other.
  \<^item> \<open>Paths\<close> (\<open>vault/path.rs\<close>, \<open>control/path.rs\<close>, \<open>display_server.rs\<close>), \<open>Wire\<close> (\<open>wire.rs\<close>, \<open>error.rs\<close>), \<open>Control\<close>
    (\<open>transport.rs\<close>, \<open>peer.rs\<close>, the socket half of \<open>lifecycle.rs\<close>), \<open>InstanceLock\<close> (the rest of it): default
    locations, control exchanges, private sockets, stale sockets, and the instance lock as a transition
    system over any number of processes: a crash frees the lock, and the race of a clean shutdown.
  \<^item> \<open>Clipboard\<close> (\<open>lib.rs\<close>, \<open>hints.rs\<close>, \<open>error.rs\<close>, \<open>in_memory.rs\<close>): the contract of a clipboard and the invariant
    of the in-memory one.
  \<^item> \<open>X11State\<close> (\<open>x11/atoms.rs\<close>, \<open>pending.rs\<close>, \<open>state.rs\<close>, \<open>dispatcher.rs\<close>), \<open>X11Events\<close> (\<open>event_thread.rs\<close>), \<open>X11Clipboard\<close>
    (\<open>x11/mod.rs\<close>), \<open>X11System\<close>, \<open>X11Transfer\<close>, \<open>X11\<close>: the X11 backend. Its threads are the steps of a transition
    relation on the shared state, with the invariant of that state; a text is transferred whole between two
    clients of one server; and two failures: a lost time slot and a second read during a transfer.
  \<^item> \<open>Messages\<close>, \<open>Cli\<close>, \<open>CliRun\<close>, \<open>Registry\<close>, \<open>CliSession\<close>, \<open>SessionRoundTrip\<close> (\<open>crates/invisibool/src/cli\<close>): the
    error texts, the commands, their exit codes and outputs (a sink that fails takes a part of the text
    first; \<open>eprintln!\<close> panics where \<open>writeln!\<close> with \<open>ok()\<close> does not), the registry commands as a refinement of a map,
    and \<open>scrub\<close> and \<open>restore\<close> as two processes, with and without a session file.

  \<^bold>\<open>Interfaces.\<close> The locales \<open>session_store\<close>, \<open>keychain_backend\<close>, \<open>keyring\<close>, \<open>vault_io\<close>, \<open>std_io\<close>, \<open>symbol_table\<close>,
  \<open>clipboard\<close> and \<open>x_server\<close> state what a client uses of a provider; each is interpreted on the model of the
  provider, \<open>x_server\<close> on a small server of the theory \<open>X11\<close>.

  \<^bold>\<open>Loops and bounds.\<close> Loops over lists are structural. The searches of \<open>profile_spans\<close>, \<open>str_split_on\<close> and
  \<open>to_string_lossy\<close> are functions with a termination proof by the length that is left, so no fuel is
  used. The loop over the parts of an X11 property asks the server again each turn, so it is a partial
  function; it is shown to end when a reply that announces more is not empty. A wait on a condition variable
  is split into its turns, and the time of each turn is an argument. HKDF gives at most 255 * 32 bytes, which bounds \<open>make_macfake\<close>.

  \<^bold>\<open>Not modelled.\<close> The interleaving of a handler of the X11 event thread with other threads between its own
  locks (each handler is one step); the line buffer of the standard output handle, so that what a
  sink accepts counts as printed, and an error of the flush at exit, which the program does not see, is
  outside the model; zeroization of memory, which no function of the program observes; argument parsing;
  tests, benches and examples.
\<close>

end
